(* ===== verification/Prelude.thy ===== *)
theory Prelude
  imports Main "HOL-Library.Monad_Syntax"
begin

text \<open>
  The shared vocabulary of the development: the types of calls that may not return, the
  error values of the Go program, and the generic lemmas and rule collections the
  component theories use.

  A computation that reads or changes its surroundings (the GitHub API, Kafka, the clock,
  the context) takes the state of these surroundings, of an arbitrary type, and returns its
  result together with the next state. The result is wrapped in an \<open>option\<close>:
  \<open>None\<close> says that the call does not return normally, because it panics or because its
  loop never ends. Errors the Go code returns are values, on the left of a sum.
\<close>

named_theorems go_defs \<open>small definitions that unfold in every proof about a caller\<close>
named_theorems go_eval \<open>equations that evaluate a closed call\<close>

subsection \<open>Calls\<close>

type_synonym ('w, 'a) call = "'w \<Rightarrow> ('a \<times> 'w) option"

lemma bind_Some_pair [elim!]:
  assumes "Option.bind m f = Some r"
  obtains a where "m = Some a" and "f a = Some r"
  using assms by (cases m) auto

lemma bind_not_None:
  "m \<noteq> None \<Longrightarrow> (\<And>a. m = Some a \<Longrightarrow> f a \<noteq> None) \<Longrightarrow> Option.bind m f \<noteq> None"
  by (cases m) auto

text \<open>A call returns when its parts do.\<close>

lemma returns_Some: "Some x \<noteq> None"
  by simp

lemma returns_bind:
  "m \<noteq> None \<Longrightarrow> (\<And>a w. f a w \<noteq> None) \<Longrightarrow> Option.bind m (\<lambda>(a, w). f a w) \<noteq> None"
  by (cases m) auto

lemma returns_if: "a \<noteq> None \<Longrightarrow> b \<noteq> None \<Longrightarrow> (if c then a else b) \<noteq> None"
  by simp

lemma returns_sum:
  "(\<And>e. f e \<noteq> None) \<Longrightarrow> (\<And>x. g x \<noteq> None) \<Longrightarrow> (case r of Inl e \<Rightarrow> f e | Inr x \<Rightarrow> g x) \<noteq> None"
  by (cases r) auto

lemmas returns = returns_Some returns_bind returns_if returns_sum

subsection \<open>Go error values\<close>

text \<open>
  The error values the program tells apart. \<open>ErrorResponse\<close> is go-github's error for an
  HTTP answer, with the status code of its \<open>Response\<close> (\<open>None\<close> for a nil
  \<open>Response\<close>); \<open>Sentinel\<close> is a package-level error value compared by identity
  (\<open>validation.Error\<close>, \<open>cdb.ErrCommandObjectSkipped\<close>,
  \<open>libkv.BucketNotFoundError\<close>, \<dots>); \<open>NewError\<close> is an error made by
  \<open>errors.Errorf\<close> or by a foreign library; \<open>Wrapped\<close> is \<open>errors.Wrap\<close> and
  \<open>errors.Wrapf\<close>. Messages are kept as their format strings: the formatted arguments,
  which the program never reads back, are left out.
\<close>

datatype sentinel =
    ValidationError
  | ErrCommandObjectSkipped
  | BucketNotFoundError
  | BucketAlreadyExistsError

datatype go_error =
    ErrorResponse "int option"
  | Sentinel sentinel
  | NewError string
  | Wrapped string go_error

text \<open>
  \<open>errors.As\<close> and \<open>errors.Is\<close> walk the chain of wrapped errors; the end of the chain
  decides, since wrappers are never themselves what is looked for.
\<close>

fun root_cause :: "go_error \<Rightarrow> go_error" where
  "root_cause (Wrapped m e) = root_cause e"
| "root_cause (ErrorResponse st) = ErrorResponse st"
| "root_cause (Sentinel x) = Sentinel x"
| "root_cause (NewError m) = NewError m"

definition errors_is :: "go_error \<Rightarrow> sentinel \<Rightarrow> bool" where
  "errors_is e x \<longleftrightarrow> root_cause e = Sentinel x"

lemma errors_is_simps [simp]:
  "errors_is (Wrapped m e) x = errors_is e x"
  "errors_is (Sentinel y) x = (y = x)"
  "errors_is (NewError m) x = False"
  "errors_is (ErrorResponse st) x = False"
  by (simp_all add: errors_is_def)

subsection \<open>Parameters shared by several components\<close>

text \<open>\<open>repoallowlist.IsAllowed(list, key)\<close> of the maintainer module.\<close>

type_synonym allow_fun = "string list \<Rightarrow> string \<Rightarrow> bool"

subsection \<open>Lists\<close>

lemma take_append_unique:
  assumes "xs @ c # ys = xs' @ c # ys'" and "c \<notin> set xs" and "c \<notin> set xs'"
  shows "xs = xs' \<and> ys = ys'"
  using assms
proof (induction xs arbitrary: xs')
  case Nil
  then show ?case by (cases xs') auto
next
  case (Cons x xs)
  then show ?case by (cases xs') auto
qed

lemma dropWhile_last:
  "dropWhile P xs \<noteq> [] \<Longrightarrow> \<not> P (hd (dropWhile P xs))"
  by (induction xs) auto

lemma set_takeD: "x \<in> set (take n xs) \<Longrightarrow> x \<in> set xs"
  by (meson in_set_takeD)

end
