(* ===== verification/Go_Strings.thy ===== *)
theory Go_Strings
  imports Prelude
begin

text \<open>
  What the program uses of Go's \<open>strings\<close>, \<open>strconv\<close> and \<open>fmt\<close> packages. A Go
  string is a sequence of bytes and so is a HOL \<open>string\<close> (a list of eight-bit
  characters); lengths count bytes in both.
\<close>

subsection \<open>Prefixes, suffixes, searching\<close>

definition has_prefix :: "string \<Rightarrow> string \<Rightarrow> bool" where
  "has_prefix s p \<longleftrightarrow> take (length p) s = p"

definition has_suffix :: "string \<Rightarrow> string \<Rightarrow> bool" where
  "has_suffix s p \<longleftrightarrow> length p \<le> length s \<and> drop (length s - length p) s = p"

definition trim_prefix :: "string \<Rightarrow> string \<Rightarrow> string" where
  "trim_prefix s p = (if has_prefix s p then drop (length p) s else s)"

lemma has_prefix_iff: "has_prefix s p \<longleftrightarrow> (\<exists>t. s = p @ t)"
  unfolding has_prefix_def by (metis append_eq_conv_conj append_take_drop_id)

lemma has_prefix_append [simp]: "has_prefix (p @ t) p"
  by (simp add: has_prefix_def)

lemma has_prefix_Nil [simp]: "has_prefix s []"
  by (simp add: has_prefix_def)

lemma has_prefix_of_Nil [simp]: "has_prefix [] p \<longleftrightarrow> p = []"
  by (auto simp: has_prefix_def)

lemma has_prefix_Cons [simp]: "has_prefix (c # s) (d # p) \<longleftrightarrow> c = d \<and> has_prefix s p"
  by (simp add: has_prefix_def)

lemma has_suffix_iff: "has_suffix s p \<longleftrightarrow> (\<exists>t. s = t @ p)"
proof
  assume "has_suffix s p"
  then have "take (length s - length p) s @ p = s"
    unfolding has_suffix_def by (metis append_take_drop_id)
  then show "\<exists>t. s = t @ p" by metis
next
  assume "\<exists>t. s = t @ p"
  then show "has_suffix s p" by (auto simp: has_suffix_def)
qed

text \<open>\<open>strings.Index\<close>, with \<open>None\<close> for Go's \<open>-1\<close>.\<close>

fun strings_index :: "string \<Rightarrow> string \<Rightarrow> nat option" where
  "strings_index [] sub = (if sub = [] then Some 0 else None)"
| "strings_index (c # s) sub =
     (if has_prefix (c # s) sub then Some 0 else map_option Suc (strings_index s sub))"

lemma strings_index_Some:
  "strings_index s sub = Some i \<Longrightarrow> \<exists>t. s = take i s @ sub @ t \<and> i + length sub \<le> length s"
proof (induction s arbitrary: i)
  case Nil
  then show ?case by (auto split: if_splits)
next
  case (Cons c s)
  show ?case
  proof (cases "has_prefix (c # s) sub")
    case True
    then obtain t where "c # s = sub @ t" by (auto simp: has_prefix_iff)
    moreover from this have "length sub \<le> length (c # s)"
      by (metis length_append le_add1)
    moreover from True Cons.prems have "i = 0" by simp
    ultimately show ?thesis by simp
  next
    case False
    with Cons.prems obtain j where "strings_index s sub = Some j" and "i = Suc j"
      by auto
    with Cons.IH show ?thesis by fastforce
  qed
qed

lemma strings_index_None: "strings_index s sub = None \<Longrightarrow> s \<noteq> u @ sub @ t"
  by (induction s arbitrary: u)
     (auto simp: has_prefix_iff append_eq_Cons_conv Cons_eq_append_conv split: if_splits)

lemma strings_index_least:
  "strings_index s sub = Some i \<Longrightarrow> s = u @ sub @ t \<Longrightarrow> i \<le> length u"
proof (induction s arbitrary: u i)
  case Nil
  then show ?case by (auto split: if_splits)
next
  case (Cons c s)
  show ?case
  proof (cases u)
    case Nil
    with Cons.prems have "has_prefix (c # s) sub" by (auto simp: has_prefix_iff)
    with Cons.prems(1) show ?thesis by simp
  next
    case (Cons d v)
    with Cons.prems Cons.IH show ?thesis by (auto split: if_splits)
  qed
qed

subsection \<open>Splitting and joining\<close>

text \<open>\<open>strings.Split(s, sep)\<close> for a separator of one byte; \<open>strings.SplitSeq\<close>
  yields the same parts.\<close>

fun split_on :: "char \<Rightarrow> string \<Rightarrow> string list" where
  "split_on sep [] = [[]]"
| "split_on sep (c # s) =
     (if c = sep then [] # split_on sep s
      else (case split_on sep s of [] \<Rightarrow> [[c]] | p # ps \<Rightarrow> (c # p) # ps))"

text \<open>\<open>strings.Cut(s, sep)\<close>: the text before and after the first separator and
  whether there is one.\<close>

fun cut_on :: "char \<Rightarrow> string \<Rightarrow> string \<times> string \<times> bool" where
  "cut_on sep [] = ([], [], False)"
| "cut_on sep (c # s) =
     (if c = sep then ([], s, True)
      else (case cut_on sep s of (b, a, f) \<Rightarrow> (c # b, a, f)))"

text \<open>\<open>strings.Join\<close>.\<close>

fun join_with :: "string \<Rightarrow> string list \<Rightarrow> string" where
  "join_with sep [] = []"
| "join_with sep [p] = p"
| "join_with sep (p # q # ps) = p @ sep @ join_with sep (q # ps)"

lemma split_on_not_Nil [simp]: "split_on sep s \<noteq> []"
  by (cases s) (auto split: list.splits)

lemma join_with_Cons:
  "join_with sep (p # ps) = p @ (if ps = [] then [] else sep @ join_with sep ps)"
  by (cases ps) auto

lemma join_split_on: "join_with [sep] (split_on sep s) = s"
  by (induction s) (auto simp: join_with_Cons split: list.splits)

lemma split_on_no_sep: "p \<in> set (split_on sep s) \<Longrightarrow> sep \<notin> set p"
  by (induction s arbitrary: p) (auto split: if_splits list.splits)

lemma split_on_single: "sep \<notin> set p \<Longrightarrow> split_on sep p = [p]"
  by (induction p) auto

lemma split_on_append: "sep \<notin> set p \<Longrightarrow> split_on sep (p @ sep # s) = p # split_on sep s"
  by (induction p) auto

lemma split_join_with:
  "ps \<noteq> [] \<Longrightarrow> \<forall>p \<in> set ps. sep \<notin> set p \<Longrightarrow> split_on sep (join_with [sep] ps) = ps"
  by (induction "[sep]" ps rule: join_with.induct)
     (auto simp: split_on_single split_on_append)

lemma cut_on_no_sep [simp]: "sep \<notin> set s \<Longrightarrow> cut_on sep s = (s, [], False)"
  by (induction s) auto

lemma cut_on_append [simp]: "sep \<notin> set b \<Longrightarrow> cut_on sep (b @ sep # a) = (b, a, True)"
  by (induction b) auto

lemma cut_on_found:
  "cut_on sep s = (b, a, True) \<Longrightarrow> s = b @ sep # a \<and> sep \<notin> set b"
  by (induction s arbitrary: b) (auto split: if_splits prod.splits)

text \<open>\<open>strings.ReplaceAll(s, "\r\n", "\n")\<close>.\<close>

fun replace_crlf :: "string \<Rightarrow> string" where
  "replace_crlf (a # b # s) =
     (if a = CHR 0x0D \<and> b = CHR 0x0A then CHR 0x0A # replace_crlf s
      else a # replace_crlf (b # s))"
| "replace_crlf s = s"

lemma replace_crlf_id: "CHR 0x0D \<notin> set s \<Longrightarrow> replace_crlf s = s"
  by (induction s rule: replace_crlf.induct) auto

subsection \<open>Trimming one character\<close>

text \<open>\<open>strings.TrimRight(s, "-")\<close> and \<open>strings.Trim(s, "-")\<close> for a cut set of one byte.\<close>

definition trim_right_char :: "char \<Rightarrow> string \<Rightarrow> string" where
  "trim_right_char c s = rev (dropWhile (\<lambda>x. x = c) (rev s))"

definition trim_char :: "char \<Rightarrow> string \<Rightarrow> string" where
  "trim_char c s = trim_right_char c (dropWhile (\<lambda>x. x = c) s)"

lemma trim_right_char_prefix: "\<exists>n. s = trim_right_char c s @ replicate n c"
proof -
  have "takeWhile (\<lambda>x. x = c) (rev s) = replicate (length (takeWhile (\<lambda>x. x = c) (rev s))) c"
    by (metis (full_types) replicate_length_same set_takeWhileD)
  then have "rev s = replicate (length (takeWhile (\<lambda>x. x = c) (rev s))) c
      @ dropWhile (\<lambda>x. x = c) (rev s)"
    by (metis takeWhile_dropWhile_id)
  then have "s = trim_right_char c s @ replicate (length (takeWhile (\<lambda>x. x = c) (rev s))) c"
    unfolding trim_right_char_def by (metis rev_append rev_replicate rev_rev_ident)
  then show ?thesis ..
qed

lemma trim_right_char_last: "trim_right_char c s \<noteq> [] \<Longrightarrow> last (trim_right_char c s) \<noteq> c"
  using dropWhile_last [of "\<lambda>x. x = c" "rev s"] by (simp add: trim_right_char_def last_rev)

lemma trim_right_char_hd:
  assumes "trim_right_char c s \<noteq> []"
  shows "hd (trim_right_char c s) = hd s"
proof -
  obtain n where "s = trim_right_char c s @ replicate n c"
    using trim_right_char_prefix by blast
  then show ?thesis using assms by (metis hd_append2)
qed

lemma trim_right_char_length: "length (trim_right_char c s) \<le> length s"
  unfolding trim_right_char_def by (metis length_dropWhile_le length_rev)

lemma trim_right_char_id: "s = [] \<or> last s \<noteq> c \<Longrightarrow> trim_right_char c s = s"
  by (cases s rule: rev_cases) (auto simp: trim_right_char_def)

lemma set_trim_right_char: "set (trim_right_char c s) \<subseteq> set s"
  unfolding trim_right_char_def by (metis set_dropWhileD set_rev subsetI)

lemma set_trim_char: "set (trim_char c s) \<subseteq> set s"
proof
  fix x
  assume "x \<in> set (trim_char c s)"
  then have "x \<in> set (dropWhile (\<lambda>x. x = c) s)"
    unfolding trim_char_def using set_trim_right_char by blast
  then show "x \<in> set s" by (blast dest: set_dropWhileD)
qed

lemma trim_char_hd: "trim_char c s \<noteq> [] \<Longrightarrow> hd (trim_char c s) \<noteq> c"
proof -
  assume ne: "trim_char c s \<noteq> []"
  then have "dropWhile (\<lambda>x. x = c) s \<noteq> []"
    unfolding trim_char_def trim_right_char_def by (metis dropWhile.simps(1) rev.simps(1))
  then have "hd (dropWhile (\<lambda>x. x = c) s) \<noteq> c"
    using dropWhile_last [of "\<lambda>x. x = c" s] by blast
  with ne show ?thesis
    unfolding trim_char_def by (simp add: trim_right_char_hd)
qed

lemma trim_char_last: "trim_char c s \<noteq> [] \<Longrightarrow> last (trim_char c s) \<noteq> c"
  unfolding trim_char_def by (rule trim_right_char_last)

subsection \<open>Decimal numbers\<close>

text \<open>The \<open>%d\<close> verb and \<open>strconv.FormatInt(i, 10)\<close>.\<close>

definition digit_char :: "nat \<Rightarrow> char" where
  "digit_char d = char_of (48 + d)"

fun nat_digits :: "nat \<Rightarrow> string" where
  "nat_digits n =
     (if n < 10 then [digit_char n] else nat_digits (n div 10) @ [digit_char (n mod 10)])"

declare nat_digits.simps [simp del]

definition itoa :: "int \<Rightarrow> string" where
  "itoa i = (if i < 0 then CHR ''-'' # nat_digits (nat (- i)) else nat_digits (nat i))"

definition is_digit :: "char \<Rightarrow> bool" where
  "is_digit c \<longleftrightarrow> 48 \<le> (of_char c :: nat) \<and> (of_char c :: nat) \<le> 57"

fun digits_value :: "string \<Rightarrow> nat" where
  "digits_value s = foldl (\<lambda>n c. 10 * n + (of_char c - 48)) 0 s"

lemma of_char_digit_char: "d < 10 \<Longrightarrow> of_char (digit_char d) = 48 + d"
  by (simp add: digit_char_def)

lemma is_digit_digit_char: "d < 10 \<Longrightarrow> is_digit (digit_char d)"
  by (simp add: is_digit_def of_char_digit_char)

lemma nat_digits_are_digits: "\<forall>c \<in> set (nat_digits n). is_digit c"
proof (induction n rule: nat_digits.induct)
  case (1 n)
  then show ?case
    by (subst nat_digits.simps) (auto simp: is_digit_digit_char)
qed

lemma nat_digits_not_Nil [simp]: "nat_digits n \<noteq> []"
  by (subst nat_digits.simps) simp

lemma digits_value_nat_digits: "digits_value (nat_digits n) = n"
proof (induction n rule: nat_digits.induct)
  case (1 n)
  then show ?case
    by (subst nat_digits.simps) (auto simp: of_char_digit_char)
qed

lemma nat_digits_inj: "nat_digits m = nat_digits n \<Longrightarrow> m = n"
  by (metis digits_value_nat_digits)

lemma not_digit_minus: "\<not> is_digit CHR ''-''"
  by (simp add: is_digit_def)

lemma itoa_inj: "itoa i = itoa j \<Longrightarrow> i = j"
proof -
  have ne: "CHR ''-'' # x \<noteq> nat_digits n" for x n
    using nat_digits_are_digits [of n] not_digit_minus by (metis list.set_intros(1))
  assume "itoa i = itoa j"
  then show "i = j"
    using ne ne [symmetric]
    by (auto simp: itoa_def dest!: nat_digits_inj split: if_splits)
qed

lemma itoa_chars: "c \<in> set (itoa i) \<Longrightarrow> is_digit c \<or> c = CHR ''-''"
  using nat_digits_are_digits by (auto simp: itoa_def split: if_splits)

lemma itoa_not_Nil [simp]: "itoa i \<noteq> []"
  by (simp add: itoa_def)

lemma itoa_free:
  assumes "\<not> is_digit c" and "c \<noteq> CHR ''-''"
  shows "c \<notin> set (itoa i)"
  using assms itoa_chars by blast

lemma itoa_no_separators [simp]:
  "CHR ''/'' \<notin> set (itoa i)" "CHR ''#'' \<notin> set (itoa i)" "CHR ''@'' \<notin> set (itoa i)"
  "CHR ''!'' \<notin> set (itoa i)" "CHR '':'' \<notin> set (itoa i)"
  by (rule itoa_free; simp add: is_digit_def)+

end
