(* ===== verification/Go_Utf8.thy ===== *)
theory Go_Utf8
  imports Go_Strings
begin

text \<open>
  UTF-8 as Go's \<open>unicode/utf8\<close> package and the \<open>range\<close> loop over a string see it: a
  rune is a code point (a \<open>nat\<close>), decoding never fails but yields \<open>RuneError\<close> with
  width 1 for a byte that starts no valid sequence. On top of it, what the program uses
  of white space (\<open>strings.TrimSpace\<close>, \<open>strings.Fields\<close>) and of
  \<open>strings.ToLower\<close>.
\<close>

subsection \<open>Encoding and decoding one rune\<close>

definition rune_error :: nat where
  "rune_error = 0xFFFD"

definition valid_rune :: "nat \<Rightarrow> bool" where
  "valid_rune r \<longleftrightarrow> r < 0xD800 \<or> 0xE000 \<le> r \<and> r < 0x110000"

definition encode_valid :: "nat \<Rightarrow> string" where
  "encode_valid r =
     (if r < 0x80 then [char_of r]
      else if r < 0x800 then [char_of (0xC0 + r div 64), char_of (0x80 + r mod 64)]
      else if r < 0x10000 then
        [char_of (0xE0 + r div 4096), char_of (0x80 + r div 64 mod 64),
         char_of (0x80 + r mod 64)]
      else
        [char_of (0xF0 + r div 262144), char_of (0x80 + r div 4096 mod 64),
         char_of (0x80 + r div 64 mod 64), char_of (0x80 + r mod 64)])"

text \<open>\<open>utf8.EncodeRune\<close>: what is no Unicode scalar value is written as \<open>RuneError\<close>.\<close>

definition encode_rune :: "nat \<Rightarrow> string" where
  "encode_rune r = encode_valid (if valid_rune r then r else rune_error)"

text \<open>\<open>utf8.DecodeRuneInString\<close>, with the byte ranges of Go's accept table.\<close>

definition cont :: "nat \<Rightarrow> nat \<Rightarrow> nat \<Rightarrow> bool" where
  "cont lo hi b \<longleftrightarrow> lo \<le> b \<and> b \<le> hi"

definition second_lo :: "nat \<Rightarrow> nat" where
  "second_lo b0 = (if b0 = 0xE0 then 0xA0 else if b0 = 0xF0 then 0x90 else 0x80)"

definition second_hi :: "nat \<Rightarrow> nat" where
  "second_hi b0 = (if b0 = 0xED then 0x9F else if b0 = 0xF4 then 0x8F else 0xBF)"

fun decode_bytes :: "nat list \<Rightarrow> nat \<times> nat" where
  "decode_bytes [] = (rune_error, 0)"
| "decode_bytes (b0 # bs) =
     (if b0 < 0x80 then (b0, 1)
      else if 0xC2 \<le> b0 \<and> b0 \<le> 0xDF then
        (case bs of
           b1 # _ \<Rightarrow>
             if cont 0x80 0xBF b1 then ((b0 - 0xC0) * 64 + (b1 - 0x80), 2)
             else (rune_error, 1)
         | _ \<Rightarrow> (rune_error, 1))
      else if 0xE0 \<le> b0 \<and> b0 \<le> 0xEF then
        (case bs of
           b1 # b2 # _ \<Rightarrow>
             if cont (second_lo b0) (second_hi b0) b1 \<and> cont 0x80 0xBF b2
             then ((b0 - 0xE0) * 4096 + (b1 - 0x80) * 64 + (b2 - 0x80), 3)
             else (rune_error, 1)
         | _ \<Rightarrow> (rune_error, 1))
      else if 0xF0 \<le> b0 \<and> b0 \<le> 0xF4 then
        (case bs of
           b1 # b2 # b3 # _ \<Rightarrow>
             if cont (second_lo b0) (second_hi b0) b1 \<and> cont 0x80 0xBF b2
                \<and> cont 0x80 0xBF b3
             then ((b0 - 0xF0) * 262144 + (b1 - 0x80) * 4096 + (b2 - 0x80) * 64
                   + (b3 - 0x80), 4)
             else (rune_error, 1)
         | _ \<Rightarrow> (rune_error, 1))
      else (rune_error, 1))"

definition decode_rune :: "string \<Rightarrow> nat \<times> nat" where
  "decode_rune s = decode_bytes (map of_char (take 4 s))"

lemma decode_bytes_width:
  "bs \<noteq> [] \<Longrightarrow> 1 \<le> snd (decode_bytes bs) \<and> snd (decode_bytes bs) \<le> length bs"
  by (cases bs) (auto split: list.splits)

lemma decode_rune_width: "s \<noteq> [] \<Longrightarrow> 1 \<le> snd (decode_rune s) \<and> snd (decode_rune s) \<le> length s"
  using decode_bytes_width [of "map of_char (take 4 s)"] by (auto simp: decode_rune_def)

lemma decode_rune_decreases:
  assumes "s \<noteq> []" and "(r, w) = decode_rune s"
  shows "length s - w < length s"
proof -
  from assms(2) have "snd (decode_rune s) = w" by (metis snd_conv)
  with decode_rune_width [OF assms(1)] assms(1) show ?thesis by (cases s) auto
qed

subsection \<open>The runes of a string\<close>

text \<open>The runes a \<open>for _, r := range s\<close> loop visits, and \<open>[]rune(s)\<close>.\<close>

function runes :: "string \<Rightarrow> nat list" where
  "runes s =
     (if s = [] then []
      else case decode_rune s of (r, w) \<Rightarrow> r # runes (drop w s))"
  by pat_completeness auto
termination
  by (relation "measure length") (auto intro: decode_rune_decreases)

declare runes.simps [simp del]

definition encode_runes :: "nat list \<Rightarrow> string" where
  "encode_runes rs = concat (map encode_rune rs)"

text \<open>\<open>utf8.ValidString\<close>: no position decodes to \<open>RuneError\<close> with width 1.\<close>

function valid_utf8 :: "string \<Rightarrow> bool" where
  "valid_utf8 s \<longleftrightarrow>
     (if s = [] then True
      else case decode_rune s of
        (r, w) \<Rightarrow> \<not> (r = rune_error \<and> w = 1) \<and> valid_utf8 (drop w s))"
  by pat_completeness auto
termination
  by (relation "measure length") (auto intro: decode_rune_decreases)

declare valid_utf8.simps [simp del]

lemma runes_Nil [simp]: "runes [] = []"
  by (simp add: runes.simps)

lemma valid_utf8_Nil [simp]: "valid_utf8 []"
  by (simp add: valid_utf8.simps)

lemma encode_runes_simps [simp]:
  "encode_runes [] = []"
  "encode_runes (r # rs) = encode_rune r @ encode_runes rs"
  "encode_runes (rs @ rs') = encode_runes rs @ encode_runes rs'"
  by (simp_all add: encode_runes_def)

subsection \<open>Decoding what was encoded\<close>

text \<open>
  The arithmetic of the four encoding lengths, on the bytes as numbers: the bytes of a
  scalar value are in the accepted ranges and the payload bits add up to the value.
\<close>

definition encode_bytes :: "nat \<Rightarrow> nat list" where
  "encode_bytes r =
     (if r < 0x80 then [r]
      else if r < 0x800 then [0xC0 + r div 64, 0x80 + r mod 64]
      else if r < 0x10000 then
        [0xE0 + r div 4096, 0x80 + r div 64 mod 64, 0x80 + r mod 64]
      else
        [0xF0 + r div 262144, 0x80 + r div 4096 mod 64, 0x80 + r div 64 mod 64,
         0x80 + r mod 64])"

lemma encode_valid_bytes: "encode_valid r = map char_of (encode_bytes r)"
  by (simp add: encode_valid_def encode_bytes_def)

lemma encode_bytes_range: "valid_rune r \<Longrightarrow> \<forall>b \<in> set (encode_bytes r). b < 256"
proof -
  have m: "0x80 + n mod 64 < (256 :: nat)" for n
    using mod_less_divisor [of 64 n] by linarith
  assume "valid_rune r"
  then have "r div 262144 < 16"
    unfolding valid_rune_def by (auto simp: less_mult_imp_div_less)
  with m show ?thesis
    by (auto simp: encode_bytes_def less_mult_imp_div_less)
qed

lemma split_2: "(r :: nat) = r div 64 * 64 + r mod 64"
  by simp

lemma split_3: "(r :: nat) = r div 4096 * 4096 + r div 64 mod 64 * 64 + r mod 64"
proof -
  have "r div 64 = r div 64 div 64 * 64 + r div 64 mod 64" by simp
  moreover have "r div 64 div 64 = r div 4096" by (simp flip: div_mult2_eq)
  ultimately show ?thesis using split_2 [of r] by linarith
qed

lemma split_4:
  "(r :: nat) = r div 262144 * 262144 + r div 4096 mod 64 * 4096 + r div 64 mod 64 * 64 + r mod 64"
proof -
  have "r div 4096 = r div 4096 div 64 * 64 + r div 4096 mod 64" by simp
  moreover have "r div 4096 div 64 = r div 262144" by (simp flip: div_mult2_eq)
  ultimately show ?thesis using split_3 [of r] by linarith
qed

lemma mod_64_bounds: "r mod 64 < (64 :: nat)"
  by simp

lemma decode_encode_bytes_3:
  assumes "valid_rune r" and "0x800 \<le> r" and "r < 0x10000"
  shows "decode_bytes (encode_bytes r @ bs) = (r, 3)"
proof -
  define a b c where "a = r div 4096" and "b = r div 64 mod 64" and "c = r mod 64"
  have r: "r = a * 4096 + b * 64 + c" and b64: "b < 64" and c64: "c < 64"
    using split_3 [of r] by (simp_all add: a_def b_def c_def)
  have q: "a < 16" using r assms(3) by linarith
  have lo: "a = 0 \<Longrightarrow> 32 \<le> b" using r c64 assms(2) by simp
  have hi: "a = 13 \<Longrightarrow> b < 32"
    using r b64 c64 assms(1) unfolding valid_rune_def by auto
  have c1: "cont (second_lo (0xE0 + a)) (second_hi (0xE0 + a)) (0x80 + b)"
    using lo hi q b64 by (auto simp: cont_def second_lo_def second_hi_def)
  have c2: "cont 0x80 0xBF (0x80 + c)" using c64 by (auto simp: cont_def)
  have "encode_bytes r = [0xE0 + a, 0x80 + b, 0x80 + c]"
    using assms by (simp add: encode_bytes_def a_def b_def c_def)
  with c1 c2 q r show ?thesis by simp
qed

lemma decode_encode_bytes_4:
  assumes "valid_rune r" and "0x10000 \<le> r"
  shows "decode_bytes (encode_bytes r @ bs) = (r, 4)"
proof -
  define a b c d where "a = r div 262144" and "b = r div 4096 mod 64"
    and "c = r div 64 mod 64" and "d = r mod 64"
  have r: "r = a * 262144 + b * 4096 + c * 64 + d"
    and b64: "b < 64" and c64: "c < 64" and d64: "d < 64"
    using split_4 [of r] by (simp_all add: a_def b_def c_def d_def)
  have u: "r < 0x110000" using assms by (auto simp: valid_rune_def)
  have q: "a < 5" using r u by linarith
  have lo: "a = 0 \<Longrightarrow> 16 \<le> b" using r c64 d64 assms(2) by simp
  have hi: "a = 4 \<Longrightarrow> b < 16" using r u by simp
  have c1: "cont (second_lo (0xF0 + a)) (second_hi (0xF0 + a)) (0x80 + b)"
    using lo hi q b64 by (auto simp: cont_def second_lo_def second_hi_def)
  have c2: "cont 0x80 0xBF (0x80 + c)" "cont 0x80 0xBF (0x80 + d)"
    using c64 d64 by (auto simp: cont_def)
  have "encode_bytes r = [0xF0 + a, 0x80 + b, 0x80 + c, 0x80 + d]"
    using assms by (simp add: encode_bytes_def a_def b_def c_def d_def)
  with c1 c2 q r show ?thesis by simp
qed

lemma decode_encode_bytes_2:
  assumes "0x80 \<le> r" and "r < 0x800"
  shows "decode_bytes (encode_bytes r @ bs) = (r, 2)"
proof -
  define a b where "a = r div 64" and "b = r mod 64"
  have r: "r = a * 64 + b" and b64: "b < 64"
    by (simp_all add: a_def b_def)
  have q: "2 \<le> a" "a < 32" using r b64 assms by linarith+
  have c1: "cont 0x80 0xBF (0x80 + b)" using b64 by (auto simp: cont_def)
  have "encode_bytes r = [0xC0 + a, 0x80 + b]"
    using assms by (simp add: encode_bytes_def a_def b_def)
  with c1 q r show ?thesis by simp
qed

lemma decode_encode_bytes:
  assumes "valid_rune r"
  shows "decode_bytes (encode_bytes r @ bs) = (r, length (encode_bytes r))"
proof -
  consider "r < 0x80" | "0x80 \<le> r" "r < 0x800" | "0x800 \<le> r" "r < 0x10000" | "0x10000 \<le> r"
    by linarith
  then show ?thesis
  proof cases
    case 1
    then show ?thesis by (simp add: encode_bytes_def)
  next
    case 2
    with decode_encode_bytes_2 show ?thesis by (simp add: encode_bytes_def)
  next
    case 3
    with decode_encode_bytes_3 [OF assms] show ?thesis by (simp add: encode_bytes_def)
  next
    case 4
    with decode_encode_bytes_4 [OF assms] show ?thesis by (simp add: encode_bytes_def)
  qed
qed

lemma decode_encode_valid:
  assumes "valid_rune r"
  shows "decode_rune (encode_valid r @ s) = (r, length (encode_valid r))"
proof -
  have le4: "length (encode_bytes r) \<le> 4" by (simp add: encode_bytes_def)
  have "map of_char (encode_valid r) = encode_bytes r"
    using encode_bytes_range [OF assms]
    by (auto simp: encode_valid_bytes intro!: map_idI)
  then have "decode_rune (encode_valid r @ s)
      = decode_bytes (encode_bytes r @ map of_char (take (4 - length (encode_bytes r)) s))"
    using le4 by (simp add: decode_rune_def encode_valid_bytes)
  with decode_encode_bytes [OF assms] show ?thesis
    by (simp add: encode_valid_bytes)
qed

lemma valid_rune_error [simp]: "valid_rune rune_error"
  by (simp add: valid_rune_def rune_error_def)

lemma encode_valid_not_Nil [simp]: "encode_valid r \<noteq> []"
  by (simp add: encode_valid_def)

lemma runes_encode_valid: "valid_rune r \<Longrightarrow> runes (encode_valid r @ s) = r # runes s"
  by (subst runes.simps) (simp add: decode_encode_valid)

definition scalar :: "nat \<Rightarrow> nat" where
  "scalar r = (if valid_rune r then r else rune_error)"

lemma runes_encode_rune: "runes (encode_rune r @ s) = scalar r # runes s"
  by (simp add: encode_rune_def runes_encode_valid scalar_def)

lemma runes_encode_runes: "runes (encode_runes rs) = map scalar rs"
  by (induction rs) (simp_all add: runes_encode_rune)

lemma encode_valid_error_width: "length (encode_valid rune_error) = 3"
  by (simp add: encode_valid_def rune_error_def)

lemma valid_utf8_encode_valid: "valid_rune r \<Longrightarrow> valid_utf8 (encode_valid r @ s) = valid_utf8 s"
  using encode_valid_error_width
  by (subst valid_utf8.simps) (auto simp: decode_encode_valid)

lemma valid_utf8_encode_runes [simp]: "valid_utf8 (encode_runes rs)"
  by (induction rs) (simp_all add: encode_rune_def valid_utf8_encode_valid)

subsection \<open>Encoding what was decoded\<close>

text \<open>
  Conversely, what decodes to a rune other than the one-byte \<open>RuneError\<close> is the
  encoding of that rune: Go's decoder accepts the shortest form only.
\<close>

lemma base_64: "d < 64 \<Longrightarrow> (q * 64 + d) div 64 = q \<and> (q * 64 + d) mod 64 = (d :: nat)"
  by simp

lemma encode_of_digits_2:
  assumes "2 \<le> a" and "a < 32" and "b < 64"
  shows "encode_bytes (a * 64 + b) = [0xC0 + a, 0x80 + b]"
  using assms by (simp add: encode_bytes_def)

lemma encode_of_digits_3:
  assumes "a < 16" and "b < 64" and "c < 64" and "a = 0 \<Longrightarrow> 32 \<le> b"
  shows "encode_bytes (a * 4096 + b * 64 + c) = [0xE0 + a, 0x80 + b, 0x80 + c]"
proof -
  define r where "r = a * 4096 + b * 64 + c"
  have "r = (a * 64 + b) * 64 + c" by (simp add: r_def)
  then have 2: "r div 64 = a * 64 + b" "r mod 64 = c" using base_64 [OF assms(3)] by metis+
  then have 1: "r div 4096 = a" "r div 64 mod 64 = b"
    using base_64 [OF assms(2)] div_mult2_eq [of r 64 64] by simp_all
  have "0x800 \<le> r" "r < 0x10000" using assms by (cases "a = 0"; simp add: r_def)+
  with 1 2 show ?thesis unfolding r_def [symmetric] by (simp add: encode_bytes_def)
qed

lemma encode_of_digits_4:
  assumes "a < 5" and "b < 64" and "c < 64" and "d < 64" and "a = 0 \<Longrightarrow> 16 \<le> b"
  shows "encode_bytes (a * 262144 + b * 4096 + c * 64 + d)
    = [0xF0 + a, 0x80 + b, 0x80 + c, 0x80 + d]"
proof -
  define r where "r = a * 262144 + b * 4096 + c * 64 + d"
  have "r = ((a * 64 + b) * 64 + c) * 64 + d" by (simp add: r_def)
  then have q1: "r div 64 = (a * 64 + b) * 64 + c" "r mod 64 = d"
    using base_64 [OF assms(4)] by metis+
  have q2: "r div 64 div 64 = a * 64 + b" "r div 64 mod 64 = c"
    unfolding q1(1) using base_64 [OF assms(3), of "a * 64 + b"] by blast+
  have q3: "r div 4096 = a * 64 + b" using q2(1) by (simp flip: div_mult2_eq)
  then have 1: "r div 262144 = a" "r div 4096 mod 64 = b"
    using base_64 [OF assms(2)] div_mult2_eq [of r 4096 64] by simp_all
  note 2 = q2(2) q1(2)
  have "0x10000 \<le> r" using assms by (cases "a = 0") (simp_all add: r_def)
  with 1 2 show ?thesis unfolding r_def [symmetric] by (simp add: encode_bytes_def)
qed

lemma cont_obtain:
  assumes "cont lo hi b" and "0x80 \<le> lo" and "hi \<le> 0xBF"
  obtains x where "b = 0x80 + x" and "x < 64" and "lo \<le> 0x80 + x" and "0x80 + x \<le> hi"
  using assms by (intro that [of "b - 0x80"]) (auto simp: cont_def)

lemma second_bounds: "0x80 \<le> second_lo b" "second_hi b \<le> 0xBF"
  by (simp_all add: second_lo_def second_hi_def)

lemma decode_bytes_3_sound:
  assumes "0xE0 \<le> b0" and "b0 \<le> 0xEF" and "cont (second_lo b0) (second_hi b0) b1"
    and "cont 0x80 0xBF b2"
    and r: "r = (b0 - 0xE0) * 4096 + (b1 - 0x80) * 64 + (b2 - 0x80)"
  shows "valid_rune r \<and> encode_bytes r = [b0, b1, b2]"
proof -
  obtain x where x: "b1 = 0x80 + x" "x < 64" "second_lo b0 \<le> 0x80 + x" "0x80 + x \<le> second_hi b0"
    using assms(3) second_bounds by (elim cont_obtain)
  obtain y where y: "b2 = 0x80 + y" "y < 64" using assms(4) by (elim cont_obtain) auto
  define a where "a = b0 - 0xE0"
  have a: "b0 = 0xE0 + a" "a < 16" using assms(1,2) by (auto simp: a_def)
  have lo: "a = 0 \<Longrightarrow> 32 \<le> x" using x(3) a(1) by (simp add: second_lo_def)
  have hi: "a = 13 \<Longrightarrow> x < 32" using x(4) a(1) by (simp add: second_hi_def)
  have r': "r = a * 4096 + x * 64 + y" using r x y a by simp
  have "valid_rune r"
  proof (cases "a < 13")
    case True
    then have "a * 4096 \<le> 12 * 4096" by simp
    with r' x(2) y(2) show ?thesis by (simp add: valid_rune_def)
  next
    case False
    show ?thesis
    proof (cases "a = 13")
      case True
      with hi r' y(2) show ?thesis by (simp add: valid_rune_def)
    next
      case False
      with \<open>\<not> a < 13\<close> have "14 * 4096 \<le> a * 4096" by simp
      moreover have "a * 4096 \<le> 15 * 4096" using a(2) by simp
      ultimately show ?thesis using r' x(2) y(2) by (simp add: valid_rune_def)
    qed
  qed
  with encode_of_digits_3 [OF a(2) x(2) y(2) lo] show ?thesis using r' x y a by simp
qed

lemma decode_bytes_4_sound:
  assumes "0xF0 \<le> b0" and "b0 \<le> 0xF4" and "cont (second_lo b0) (second_hi b0) b1"
    and "cont 0x80 0xBF b2" and "cont 0x80 0xBF b3"
    and r: "r = (b0 - 0xF0) * 262144 + (b1 - 0x80) * 4096 + (b2 - 0x80) * 64 + (b3 - 0x80)"
  shows "valid_rune r \<and> encode_bytes r = [b0, b1, b2, b3]"
proof -
  obtain x where x: "b1 = 0x80 + x" "x < 64" "second_lo b0 \<le> 0x80 + x" "0x80 + x \<le> second_hi b0"
    using assms(3) second_bounds by (elim cont_obtain)
  obtain y where y: "b2 = 0x80 + y" "y < 64" using assms(4) by (elim cont_obtain) auto
  obtain z where z: "b3 = 0x80 + z" "z < 64" using assms(5) by (elim cont_obtain) auto
  define a where "a = b0 - 0xF0"
  have a: "b0 = 0xF0 + a" "a < 5" using assms(1,2) by (auto simp: a_def)
  have lo: "a = 0 \<Longrightarrow> 16 \<le> x" using x(3) a(1) by (simp add: second_lo_def)
  have hi: "a = 4 \<Longrightarrow> x < 16" using x(4) a(1) by (simp add: second_hi_def)
  have r': "r = a * 262144 + x * 4096 + y * 64 + z" using r x y z a by simp
  have "0x10000 \<le> r" using r' lo by (cases "a = 0") auto
  moreover have "r < 0x110000" using r' hi a(2) x(2) y(2) z(2) by (cases "a = 4") auto
  ultimately have "valid_rune r" by (simp add: valid_rune_def)
  with encode_of_digits_4 [OF a(2) x(2) y(2) z(2) lo] show ?thesis using r' x y z a by simp
qed

lemma decode_bytes_2_sound:
  assumes "0xC2 \<le> b0" and "b0 \<le> 0xDF" and "cont 0x80 0xBF b1"
    and r: "r = (b0 - 0xC0) * 64 + (b1 - 0x80)"
  shows "valid_rune r \<and> encode_bytes r = [b0, b1]"
proof -
  obtain x where x: "b1 = 0x80 + x" "x < 64" using assms(3) by (elim cont_obtain) auto
  define a where "a = b0 - 0xC0"
  have a: "b0 = 0xC0 + a" "2 \<le> a" "a < 32" using assms(1,2) by (auto simp: a_def)
  have r': "r = a * 64 + x" using r x a by simp
  then have "valid_rune r" using a x by (simp add: valid_rune_def)
  with encode_of_digits_2 [OF a(2,3) x(2)] show ?thesis using r' x a by simp
qed

lemma decode_bytes_sound:
  assumes "bs \<noteq> []" and "decode_bytes bs = (r, w)" and "\<not> (r = rune_error \<and> w = 1)"
  shows "valid_rune r \<and> take w bs = encode_bytes r"
proof -
  obtain b0 bs' where bs: "bs = b0 # bs'" using assms(1) by (cases bs) auto
  note d = assms(2) [unfolded bs]
  consider "b0 < 0x80" | "0xC2 \<le> b0" "b0 \<le> 0xDF" | "0xE0 \<le> b0" "b0 \<le> 0xEF"
    | "0xF0 \<le> b0" "b0 \<le> 0xF4" | "(r, w) = (rune_error, 1)"
    using d by (fastforce split: if_splits)
  then show ?thesis
  proof cases
    case 1
    with d bs show ?thesis by (auto simp: valid_rune_def encode_bytes_def)
  next
    case 2
    with d bs assms(3) decode_bytes_2_sound show ?thesis
      by (auto split: list.splits if_splits)
  next
    case 3
    with d bs assms(3) decode_bytes_3_sound show ?thesis
      by (auto split: list.splits if_splits)
  next
    case 4
    with d bs assms(3) decode_bytes_4_sound show ?thesis
      by (auto split: list.splits if_splits)
  next
    case 5
    with assms(3) show ?thesis by simp
  qed
qed

lemma decode_rune_sound:
  assumes "s \<noteq> []" and "decode_rune s = (r, w)" and "\<not> (r = rune_error \<and> w = 1)"
  shows "valid_rune r \<and> take w s = encode_valid r"
proof -
  let ?bs = "map of_char (take 4 s) :: nat list"
  have sound: "valid_rune r \<and> take w ?bs = encode_bytes r"
    using decode_bytes_sound [of ?bs r w] assms by (simp add: decode_rune_def)
  have "w \<le> length (take 4 s)"
    using decode_bytes_width [of ?bs] assms by (simp add: decode_rune_def)
  then have "take w s = take w (take 4 s)" by simp
  also have "\<dots> = map char_of (take w ?bs)" by (simp add: take_map comp_def)
  finally show ?thesis using sound by (simp add: encode_valid_bytes)
qed

lemma encode_runes_runes: "valid_utf8 s \<Longrightarrow> encode_runes (runes s) = s"
proof (induction s rule: runes.induct)
  case (1 s)
  show ?case
  proof (cases "s = []")
    case False
    obtain r w where d: "decode_rune s = (r, w)" by fastforce
    with "1.prems" False have ok: "\<not> (r = rune_error \<and> w = 1)" and "valid_utf8 (drop w s)"
      by (simp_all add: valid_utf8.simps [of s])
    with "1.IH" [OF False d [symmetric]] have "encode_runes (runes (drop w s)) = drop w s"
      by simp
    moreover have "encode_rune r = take w s"
      using decode_rune_sound [OF False d ok] by (simp add: encode_rune_def)
    ultimately show ?thesis using False d by (simp add: runes.simps [of s])
  qed simp
qed

lemma valid_utf8_iff_encoded: "valid_utf8 s \<longleftrightarrow> (\<exists>rs. s = encode_runes rs)"
  using encode_runes_runes valid_utf8_encode_runes by metis

end
