(* ===== verification/Go_Text.thy ===== *)
theory Go_Text
  imports Go_Utf8
begin

text \<open>
  Unicode white space and lower case, as \<open>strings.TrimSpace\<close>, \<open>strings.Fields\<close> and
  \<open>strings.ToLower\<close> use them.
\<close>

subsection \<open>White space\<close>

text \<open>\<open>unicode.IsSpace\<close>.\<close>

definition space_runes :: "nat list" where
  "space_runes = [9, 10, 11, 12, 13, 32, 0x85, 0xA0, 0x1680, 0x2000, 0x2001, 0x2002, 0x2003,
     0x2004, 0x2005, 0x2006, 0x2007, 0x2008, 0x2009, 0x200A, 0x2028, 0x2029, 0x202F,
     0x205F, 0x3000]"

definition space_encodings :: "string list" where
  "space_encodings = map encode_valid space_runes"

text \<open>The white space character a string starts with, if any, as its bytes.\<close>

definition leading_space :: "string \<Rightarrow> string option" where
  "leading_space s = find (has_prefix s) space_encodings"

definition trailing_space :: "string \<Rightarrow> string option" where
  "trailing_space s = find (has_suffix s) space_encodings"

lemma space_encodings_eq [code, go_eval]:
  "space_encodings = [[CHR 0x09], [CHR 0x0A], [CHR 0x0B], [CHR 0x0C], [CHR 0x0D], [CHR 0x20],
     [CHR 0xC2, CHR 0x85], [CHR 0xC2, CHR 0xA0], [CHR 0xE1, CHR 0x9A, CHR 0x80],
     [CHR 0xE2, CHR 0x80, CHR 0x80], [CHR 0xE2, CHR 0x80, CHR 0x81],
     [CHR 0xE2, CHR 0x80, CHR 0x82], [CHR 0xE2, CHR 0x80, CHR 0x83],
     [CHR 0xE2, CHR 0x80, CHR 0x84], [CHR 0xE2, CHR 0x80, CHR 0x85],
     [CHR 0xE2, CHR 0x80, CHR 0x86], [CHR 0xE2, CHR 0x80, CHR 0x87],
     [CHR 0xE2, CHR 0x80, CHR 0x88], [CHR 0xE2, CHR 0x80, CHR 0x89],
     [CHR 0xE2, CHR 0x80, CHR 0x8A], [CHR 0xE2, CHR 0x80, CHR 0xA8],
     [CHR 0xE2, CHR 0x80, CHR 0xA9], [CHR 0xE2, CHR 0x80, CHR 0xAF],
     [CHR 0xE2, CHR 0x81, CHR 0x9F], [CHR 0xE3, CHR 0x80, CHR 0x80]]"
  by (simp add: space_encodings_def space_runes_def encode_valid_def char_of_eq_iff)

lemma find_Some_in: "find P xs = Some x \<Longrightarrow> x \<in> set xs \<and> P x"
  by (induction xs) (auto split: if_splits)

lemma find_None_iff_all: "find P xs = None \<longleftrightarrow> (\<forall>x \<in> set xs. \<not> P x)"
  by (induction xs) auto

lemma space_encoding_valid:
  assumes "e \<in> set space_encodings"
  obtains r where "r \<in> set space_runes" and "e = encode_valid r" and "valid_rune r"
proof -
  have "\<forall>r \<in> set space_runes. valid_rune r" by (simp add: space_runes_def valid_rune_def)
  with assms that show ?thesis by (auto simp: space_encodings_def)
qed

lemma space_encoding_not_Nil: "e \<in> set space_encodings \<Longrightarrow> e \<noteq> []"
  using encode_valid_not_Nil by (elim space_encoding_valid) simp

text \<open>A string starts with a white space character exactly if Go decodes one there.\<close>

lemma leading_space_decodes:
  "leading_space s \<noteq> None \<longleftrightarrow> s \<noteq> [] \<and> fst (decode_rune s) \<in> set space_runes"
proof
  assume "leading_space s \<noteq> None"
  then obtain e where "e \<in> set space_encodings" and "has_prefix s e"
    by (auto simp: leading_space_def dest: find_Some_in)
  then show "s \<noteq> [] \<and> fst (decode_rune s) \<in> set space_runes"
    by (auto simp: has_prefix_iff decode_encode_valid elim!: space_encoding_valid)
next
  assume a: "s \<noteq> [] \<and> fst (decode_rune s) \<in> set space_runes"
  obtain r w where d: "decode_rune s = (r, w)" by fastforce
  with a have r: "r \<in> set space_runes" by simp
  then have "r \<noteq> rune_error" by (auto simp: space_runes_def rune_error_def)
  with decode_rune_sound [OF conjunct1 [OF a] d] have "take w s = encode_valid r" by simp
  then have "has_prefix s (encode_valid r)"
    unfolding has_prefix_iff by (metis append_take_drop_id)
  moreover have "encode_valid r \<in> set space_encodings"
    using r by (simp add: space_encodings_def)
  ultimately show "leading_space s \<noteq> None"
    unfolding leading_space_def by (auto simp: find_None_iff_all)
qed

subsection \<open>\<open>strings.TrimSpace\<close>\<close>

function trim_left :: "string \<Rightarrow> string" where
  "trim_left s =
     (case leading_space s of None \<Rightarrow> s | Some e \<Rightarrow> trim_left (drop (length e) s))"
  by pat_completeness auto
termination
proof (relation "measure length")
  fix s e
  assume "leading_space s = Some e"
  then have "e \<in> set space_encodings" and "has_prefix s e"
    unfolding leading_space_def by (auto dest: find_Some_in)
  with space_encoding_not_Nil show "(drop (length e) s, s) \<in> measure length"
    by (fastforce simp: has_prefix_iff)
qed simp

function trim_right :: "string \<Rightarrow> string" where
  "trim_right s =
     (case trailing_space s of
        None \<Rightarrow> s
      | Some e \<Rightarrow> trim_right (take (length s - length e) s))"
  by pat_completeness auto
termination
proof (relation "measure length")
  fix s e
  assume "trailing_space s = Some e"
  then have "e \<in> set space_encodings" and "has_suffix s e"
    unfolding trailing_space_def by (auto dest: find_Some_in)
  with space_encoding_not_Nil show "(take (length s - length e) s, s) \<in> measure length"
    by (fastforce simp: has_suffix_iff)
qed simp

declare trim_left.simps [simp del] trim_right.simps [simp del]

definition trim_space :: "string \<Rightarrow> string" where
  "trim_space s = trim_right (trim_left s)"

lemma trim_left_id: "leading_space s = None \<Longrightarrow> trim_left s = s"
  by (simp add: trim_left.simps)

lemma trim_right_id: "trailing_space s = None \<Longrightarrow> trim_right s = s"
  by (simp add: trim_right.simps)

lemma trim_left_no_space: "leading_space (trim_left s) = None"
proof (induction s rule: trim_left.induct)
  case (1 s)
  then show ?case by (cases "leading_space s") (simp_all add: trim_left.simps [of s])
qed

lemma trim_right_no_space: "trailing_space (trim_right s) = None"
proof (induction s rule: trim_right.induct)
  case (1 s)
  then show ?case by (cases "trailing_space s") (simp_all add: trim_right.simps [of s])
qed

lemma trim_left_suffix: "\<exists>u. s = u @ trim_left s"
proof (induction s rule: trim_left.induct)
  case (1 s)
  show ?case
  proof (cases "leading_space s")
    case (Some e)
    with 1 obtain u where "drop (length e) s = u @ trim_left (drop (length e) s)" by blast
    then have "s = (take (length e) s @ u) @ trim_left (drop (length e) s)"
      by (metis append.assoc append_take_drop_id)
    moreover from Some have "trim_left s = trim_left (drop (length e) s)"
      by (simp add: trim_left.simps [of s])
    ultimately show ?thesis by metis
  qed (simp add: trim_left.simps)
qed

lemma trim_right_prefix: "\<exists>u. s = trim_right s @ u"
proof (induction s rule: trim_right.induct)
  case (1 s)
  show ?case
  proof (cases "trailing_space s")
    case (Some e)
    let ?t = "take (length s - length e) s"
    from 1 Some obtain u where "?t = trim_right ?t @ u" by blast
    then have "s = trim_right ?t @ u @ drop (length s - length e) s"
      by (metis append.assoc append_take_drop_id)
    moreover from Some have "trim_right s = trim_right ?t"
      by (simp add: trim_right.simps [of s])
    ultimately show ?thesis by metis
  qed (simp add: trim_right.simps)
qed

lemma leading_space_prefix: "leading_space (s @ u) = None \<Longrightarrow> leading_space s = None"
  by (auto simp: leading_space_def find_None_iff_all has_prefix_iff)

lemma trim_space_no_leading: "leading_space (trim_space s) = None"
  by (metis leading_space_prefix trim_left_no_space trim_right_prefix trim_space_def)

lemma trim_space_no_trailing: "trailing_space (trim_space s) = None"
  by (simp add: trim_space_def trim_right_no_space)

lemma trim_space_idem [simp]: "trim_space (trim_space s) = trim_space s"
proof -
  have "trim_left (trim_space s) = trim_space s"
    by (rule trim_left_id) (rule trim_space_no_leading)
  then show ?thesis
    using trim_right_id [OF trim_space_no_trailing] by (simp add: trim_space_def)
qed

lemma set_trim_space: "set (trim_space s) \<subseteq> set s"
proof -
  obtain u v where "s = u @ trim_left s" and "trim_left s = trim_space s @ v"
    using trim_left_suffix trim_right_prefix unfolding trim_space_def by blast
  then show ?thesis by (metis Un_iff set_append subsetI)
qed

lemma trim_space_Nil [simp]: "trim_space '''' = ''''"
  using set_trim_space [of "''''"] by simp

lemma trim_plain:
  "leading_space s = None \<Longrightarrow> trailing_space s = None \<Longrightarrow> trim_space s = s"
  by (simp add: trim_space_def trim_left_id trim_right_id)

lemmas space_eval = leading_space_def trailing_space_def space_encodings_eq has_suffix_def

subsection \<open>\<open>strings.ToLower\<close>\<close>

text \<open>
  Lower case rune by rune. The table is written out for the runes whose lower case is an
  ASCII character: the upper case letters, LATIN CAPITAL LETTER I WITH DOT ABOVE (which Go
  maps to \<open>i\<close>) and KELVIN SIGN (which it maps to \<open>k\<close>). Every other rune has a
  lower case outside ASCII; it is left as it is, and the only caller, the slug, replaces
  both the rune and its lower case by a hyphen.
\<close>

definition to_lower_rune :: "nat \<Rightarrow> nat" where
  "to_lower_rune r =
     (if 65 \<le> r \<and> r \<le> 90 then r + 32
      else if r = 0x130 then 0x69
      else if r = 0x212A then 0x6B
      else r)"

definition strings_to_lower :: "string \<Rightarrow> string" where
  "strings_to_lower s = encode_runes (map to_lower_rune (runes s))"

lemma to_lower_rune_idem [simp]: "to_lower_rune (to_lower_rune r) = to_lower_rune r"
  by (simp add: to_lower_rune_def)

lemma runes_to_lower: "runes (strings_to_lower s) = map (\<lambda>r. scalar (to_lower_rune r)) (runes s)"
  by (simp add: strings_to_lower_def runes_encode_runes)

text \<open>ASCII strings: the runes are the bytes.\<close>

definition ascii :: "string \<Rightarrow> bool" where
  "ascii s \<longleftrightarrow> (\<forall>c \<in> set s. (of_char c :: nat) < 128)"

lemma ascii_simps [simp]:
  "ascii []" "ascii (c # s) \<longleftrightarrow> (of_char c :: nat) < 128 \<and> ascii s"
  "ascii (s @ t) \<longleftrightarrow> ascii s \<and> ascii t"
  by (auto simp: ascii_def)

lemma encode_rune_ascii: "r < 128 \<Longrightarrow> encode_rune r = [char_of r]"
  by (simp add: encode_rune_def valid_rune_def encode_valid_def)

lemma decode_rune_ascii: "(of_char c :: nat) < 128 \<Longrightarrow> decode_rune (c # s) = (of_char c, 1)"
  by (simp add: decode_rune_def)

lemma runes_ascii_Cons: "(of_char c :: nat) < 128 \<Longrightarrow> runes (c # s) = of_char c # runes s"
  by (subst runes.simps) (simp add: decode_rune_ascii)

lemma runes_ascii: "ascii s \<Longrightarrow> runes s = map of_char s"
  by (induction s) (simp_all add: runes_ascii_Cons)

lemma encode_runes_ascii: "ascii s \<Longrightarrow> encode_runes (map of_char s) = s"
  by (induction s) (simp_all add: encode_rune_ascii)

lemma ascii_valid_utf8: "ascii s \<Longrightarrow> valid_utf8 s"
  by (metis encode_runes_ascii valid_utf8_encode_runes)

lemma valid_utf8_append: "valid_utf8 s \<Longrightarrow> valid_utf8 t \<Longrightarrow> valid_utf8 (s @ t)"
  unfolding valid_utf8_iff_encoded by (metis encode_runes_simps(3))

end
