(* ===== verification/Json.thy ===== *)
theory Json
  imports Go_Text "HOL-Library.List_Lexorder" "HOL-Library.Char_ord"
begin

text \<open>
  What the program uses of \<open>encoding/json\<close>: the text of a string literal and of a map of
  strings (\<open>json.Marshal\<close>), and the parser \<open>json.Unmarshal\<close> runs over a document before it
  stores anything. The parser keeps the raw text of every member of an object, which a type
  with its own \<open>UnmarshalJSON\<close> is given. It accepts the nesting depth of the Go scanner,
  10000; the loops over elements and members get the length of the input as their bound,
  which is enough, since every round consumes a character.
\<close>

datatype json =
    JNull
  | JBool bool
  | JNumber string
  | JString string
  | JArray "json list"
  | JObject "(string \<times> string \<times> json) list"

subsection \<open>Writing strings\<close>

definition hex_char :: "nat \<Rightarrow> char" where
  "hex_char d = (if d < 10 then char_of (48 + d) else char_of (87 + d))"

text \<open>
  \<open>appendString\<close> with HTML escaping, for one rune: control characters, the quote, the
  backslash, the characters \<open><\<close>, \<open>>\<close> and \<open>&\<close>, and the two line separators of
  JavaScript are escaped.
\<close>

definition escape_rune :: "nat \<Rightarrow> string" where
  "escape_rune r =
     (if r = 0x22 \<or> r = 0x5C then [CHR 0x5C, char_of r]
      else if r = 8 then [CHR 0x5C, CHR ''b'']
      else if r = 12 then [CHR 0x5C, CHR ''f'']
      else if r = 10 then [CHR 0x5C, CHR ''n'']
      else if r = 13 then [CHR 0x5C, CHR ''r'']
      else if r = 9 then [CHR 0x5C, CHR ''t'']
      else if r < 0x20 \<or> r = 0x3C \<or> r = 0x3E \<or> r = 0x26 then
        [CHR 0x5C, CHR ''u'', CHR ''0'', CHR ''0'', hex_char (r div 16), hex_char (r mod 16)]
      else if r = 0x2028 \<or> r = 0x2029 then
        [CHR 0x5C, CHR ''u'', CHR ''2'', CHR ''0'', CHR ''2'', hex_char (r mod 16)]
      else encode_rune r)"

function json_escape :: "string \<Rightarrow> string" where
  "json_escape s =
     (if s = [] then []
      else case decode_rune s of
        (r, w) \<Rightarrow>
          (if r = rune_error \<and> w = 1
           then [CHR 0x5C, CHR ''u'', CHR ''f'', CHR ''f'', CHR ''f'', CHR ''d'']
           else escape_rune r) @ json_escape (drop w s))"
  by pat_completeness auto
termination
  by (relation "measure length") (use decode_rune_decreases in auto)

declare json_escape.simps [simp del]

definition json_string :: "string \<Rightarrow> string" where
  "json_string s = [CHR 0x22] @ json_escape s @ [CHR 0x22]"

text \<open>A map of strings is written with its keys in order; a nil map is \<open>null\<close>.\<close>

fun json_members :: "(string \<times> string) list \<Rightarrow> string" where
  "json_members [] = []"
| "json_members [kv] = json_string (fst kv) @ '':'' @ json_string (snd kv)"
| "json_members (kv # kv' # kvs) =
     json_string (fst kv) @ '':'' @ json_string (snd kv) @ '','' @ json_members (kv' # kvs)"

definition json_string_map :: "(string \<times> string) list option \<Rightarrow> string" where
  "json_string_map m =
     (case m of
        None \<Rightarrow> ''null''
      | Some al \<Rightarrow> ''{'' @ json_members (sort_key fst al) @ ''}'')"

subsection \<open>Reading\<close>

definition is_json_space :: "char \<Rightarrow> bool" where
  "is_json_space c \<longleftrightarrow> c = CHR 0x20 \<or> c = CHR 0x09 \<or> c = CHR 0x0A \<or> c = CHR 0x0D"

definition skip_ws :: "string \<Rightarrow> string" where
  "skip_ws s = dropWhile is_json_space s"

definition hex_value :: "char \<Rightarrow> nat option" where
  "hex_value c =
     (let n = of_char c
      in if 48 \<le> n \<and> n \<le> 57 then Some (n - 48)
         else if 97 \<le> n \<and> n \<le> 102 then Some (n - 87)
         else if 65 \<le> n \<and> n \<le> 70 then Some (n - 55)
         else None)"

definition hex4 :: "char \<Rightarrow> char \<Rightarrow> char \<Rightarrow> char \<Rightarrow> nat option" where
  "hex4 a b c d =
     do {
       w \<leftarrow> hex_value a; x \<leftarrow> hex_value b; y \<leftarrow> hex_value c; z \<leftarrow> hex_value d;
       Some (w * 4096 + x * 256 + y * 16 + z)
     }"

text \<open>The body of a string literal up to its closing quote, as it is written, and the rest.\<close>

fun scan_body :: "string \<Rightarrow> (string \<times> string) option" where
  "scan_body [] = None"
| "scan_body (c # s) =
     (if c = CHR 0x22 then Some ([], s)
      else if c = CHR 0x5C then
        (case s of
           [] \<Rightarrow> None
         | d # t \<Rightarrow>
             if d = CHR ''u'' then
               (case t of
                  h1 # h2 # h3 # h4 # t' \<Rightarrow>
                    if hex4 h1 h2 h3 h4 = None then None
                    else map_option (apfst (\<lambda>b. c # d # h1 # h2 # h3 # h4 # b)) (scan_body t')
                | _ \<Rightarrow> None)
             else if d \<in> set [CHR 0x22, CHR 0x5C, CHR ''/'', CHR ''b'', CHR ''f'', CHR ''n'', CHR ''r'', CHR ''t'']
             then map_option (apfst (\<lambda>b. c # d # b)) (scan_body t)
             else None)
      else if (of_char c :: nat) < 0x20 then None
      else map_option (apfst (\<lambda>b. c # b)) (scan_body s))"

definition unescape_char :: "char \<Rightarrow> char" where
  "unescape_char d =
     (if d = CHR ''b'' then CHR 0x08 else if d = CHR ''f'' then CHR 0x0C
      else if d = CHR ''n'' then CHR 0x0A else if d = CHR ''r'' then CHR 0x0D
      else if d = CHR ''t'' then CHR 0x09 else d)"

text \<open>
  A \<open>u\<close> escape read with the text after it: the rune, and how many characters of that text
  belong to it, which are the 6 of a low surrogate that completes a high one.
\<close>

definition is_surrogate :: "nat \<Rightarrow> bool" where
  "is_surrogate r \<longleftrightarrow> 0xD800 \<le> r \<and> r < 0xE000"

fun low_surrogate :: "string \<Rightarrow> nat option" where
  "low_surrogate (b # u # h1 # h2 # h3 # h4 # s) =
     (if b = CHR 0x5C \<and> u = CHR ''u'' then
        (case hex4 h1 h2 h3 h4 of
           None \<Rightarrow> None
         | Some r \<Rightarrow> if 0xDC00 \<le> r \<and> r < 0xE000 then Some r else None)
      else None)"
| "low_surrogate _ = None"

definition escaped_rune :: "nat \<Rightarrow> string \<Rightarrow> nat \<times> nat" where
  "escaped_rune r s =
     (if \<not> is_surrogate r then (r, 0)
      else case low_surrogate s of
        None \<Rightarrow> (rune_error, 0)
      | Some lo \<Rightarrow>
          if r < 0xDC00 then ((r - 0xD800) * 1024 + (lo - 0xDC00) + 0x10000, 6)
          else (rune_error, 0))"

text \<open>\<open>unquote\<close>: the string a scanned body stands for; invalid UTF-8 is coerced.\<close>

function unquote :: "string \<Rightarrow> string" where
  "unquote s =
     (case s of
        [] \<Rightarrow> []
      | c # t \<Rightarrow>
          if c = CHR 0x5C then
            (case t of
               [] \<Rightarrow> []
             | d # t1 \<Rightarrow>
                 if d = CHR ''u'' then
                   (case t1 of
                      h1 # h2 # h3 # h4 # t2 \<Rightarrow>
                        (case hex4 h1 h2 h3 h4 of
                           None \<Rightarrow> []
                         | Some r \<Rightarrow>
                             (case escaped_rune r t2 of
                                (r', n) \<Rightarrow> encode_rune r' @ unquote (drop n t2)))
                    | _ \<Rightarrow> [])
                 else unescape_char d # unquote t1)
          else case decode_rune s of (r, w) \<Rightarrow> encode_rune r @ unquote (drop w s))"
  by pat_completeness auto
termination
  by (relation "measure length") (auto dest!: decode_rune_decreases [rotated])

declare unquote.simps [simp del]

definition parse_string :: "string \<Rightarrow> (string \<times> string) option" where
  "parse_string s =
     (case s of
        [] \<Rightarrow> None
      | c # t \<Rightarrow> if c = CHR 0x22 then map_option (apfst unquote) (scan_body t) else None)"

text \<open>Numbers: the longest literal the grammar allows, and the rest.\<close>

definition scan_digits :: "string \<Rightarrow> (string \<times> string) option" where
  "scan_digits s =
     (let ds = takeWhile is_digit s in if ds = [] then None else Some (ds, drop (length ds) s))"

definition scan_int :: "string \<Rightarrow> (string \<times> string) option" where
  "scan_int s =
     (case s of
        [] \<Rightarrow> None
      | c # t \<Rightarrow> if c = CHR ''0'' then Some ([c], t) else scan_digits s)"

definition scan_fraction :: "string \<Rightarrow> (string \<times> string) option" where
  "scan_fraction s =
     (case s of
        [] \<Rightarrow> Some ([], s)
      | c # t \<Rightarrow>
          if c = CHR ''.'' then map_option (apfst (\<lambda>ds. c # ds)) (scan_digits t)
          else Some ([], s))"

definition scan_exponent :: "string \<Rightarrow> (string \<times> string) option" where
  "scan_exponent s =
     (case s of
        [] \<Rightarrow> Some ([], s)
      | c # t \<Rightarrow>
          if c = CHR ''e'' \<or> c = CHR ''E'' then
            (case t of
               [] \<Rightarrow> None
             | d # t1 \<Rightarrow>
                 if d = CHR ''+'' \<or> d = CHR ''-''
                 then map_option (apfst (\<lambda>ds. c # d # ds)) (scan_digits t1)
                 else map_option (apfst (\<lambda>ds. c # ds)) (scan_digits t))
          else Some ([], s))"

definition parse_number :: "string \<Rightarrow> (json \<times> string) option" where
  "parse_number s =
     (let sign = (if has_prefix s ''-'' then ''-'' else '''')
      in do {
        (i, s1) \<leftarrow> scan_int (trim_prefix s ''-'');
        (f, s2) \<leftarrow> scan_fraction s1;
        (e, s3) \<leftarrow> scan_exponent s2;
        Some (JNumber (sign @ i @ f @ e), s3)
      })"

definition parse_scalar :: "string \<Rightarrow> (json \<times> string) option" where
  "parse_scalar s =
     (if has_prefix s ''null'' then Some (JNull, drop 4 s)
      else if has_prefix s ''true'' then Some (JBool True, drop 4 s)
      else if has_prefix s ''false'' then Some (JBool False, drop 5 s)
      else if has_prefix s [CHR 0x22] then map_option (apfst JString) (parse_string s)
      else parse_number s)"

text \<open>
  The items of an array after its bracket or of an object after its brace, up to and with
  the closing character.
\<close>

fun parse_items ::
  "(string \<Rightarrow> ('a \<times> string) option) \<Rightarrow> char \<Rightarrow> nat \<Rightarrow> string \<Rightarrow> ('a list \<times> string) option"
where
  "parse_items item close 0 s = None"
| "parse_items item close (Suc n) s =
     do {
       (x, s1) \<leftarrow> item (skip_ws s);
       case skip_ws s1 of
         [] \<Rightarrow> None
       | c # s2 \<Rightarrow>
           if c = close then Some ([x], s2)
           else if c = CHR '','' then map_option (apfst (\<lambda>xs. x # xs)) (parse_items item close n s2)
           else None
     }"

text \<open>A member of an object, for a parser \<open>pv\<close> of its value.\<close>

definition parse_member ::
  "(string \<Rightarrow> (json \<times> string) option) \<Rightarrow> string \<Rightarrow> ((string \<times> string \<times> json) \<times> string) option"
where
  "parse_member pv s =
     do {
       (k, s1) \<leftarrow> parse_string s;
       case skip_ws s1 of
         [] \<Rightarrow> None
       | c # s2 \<Rightarrow>
           if c \<noteq> CHR '':'' then None
           else
             do {
               (v, s4) \<leftarrow> pv (skip_ws s2);
               Some ((k, take (length (skip_ws s2) - length s4) (skip_ws s2), v), s4)
             }
     }"

primrec parse_value :: "nat \<Rightarrow> string \<Rightarrow> (json \<times> string) option" where
  "parse_value 0 s = parse_scalar s"
| "parse_value (Suc d) s =
     (if has_prefix s ''{'' then
        (let t = skip_ws (drop 1 s)
         in if has_prefix t ''}'' then Some (JObject [], drop 1 t)
            else map_option (apfst JObject) (parse_items (parse_member (parse_value d)) CHR ''}'' (length t) t))
      else if has_prefix s ''['' then
        (let t = skip_ws (drop 1 s)
         in if has_prefix t '']'' then Some (JArray [], drop 1 t)
            else map_option (apfst JArray) (parse_items (parse_value d) CHR '']'' (length t) t))
      else parse_scalar s)"

definition max_nesting :: nat where
  "max_nesting = 10000"

definition json_parse :: "string \<Rightarrow> json option" where
  "json_parse data =
     do {
       (v, rest) \<leftarrow> parse_value max_nesting (skip_ws data);
       if skip_ws rest = [] then Some v else None
     }"

subsection \<open>Strings read back\<close>

lemma json_escape_Nil [simp]: "json_escape [] = []"
  by (simp add: json_escape.simps)

lemma unquote_Nil [simp]: "unquote [] = []"
  by (simp add: unquote.simps)

lemma json_escape_valid:
  "valid_rune r \<Longrightarrow> json_escape (encode_valid r @ s) = escape_rune r @ json_escape s"
  using encode_valid_error_width
  by (subst json_escape.simps) (auto simp: decode_encode_valid)

text \<open>A rune, by the way it is escaped.\<close>

lemma rune_cases:
  obtains (quote) "r = 0x22" | (backslash) "r = 0x5C"
    | (b) "r = 8" | (f) "r = 12" | (n) "r = 10" | (r) "r = 13" | (t) "r = 9"
    | (control) "r < 0x20 \<or> r = 0x3C \<or> r = 0x3E \<or> r = 0x26"
        "escape_rune r = [CHR 0x5C, CHR ''u'', CHR ''0'', CHR ''0'', hex_char (r div 16), hex_char (r mod 16)]"
    | (separator) "r = 0x2028 \<or> r = 0x2029"
    | (plain) "escape_rune r = encode_rune r" "0x20 \<le> r" "r \<noteq> 0x22" "r \<noteq> 0x5C"
proof -
  consider "r \<in> {0x22, 0x5C, 8, 12, 10, 13, 9}" | "r \<in> {0x2028, 0x2029}"
    | "r \<notin> {0x22, 0x5C, 8, 12, 10, 13, 9}" "r < 0x20 \<or> r = 0x3C \<or> r = 0x3E \<or> r = 0x26"
    | "r \<notin> {0x22, 0x5C, 8, 12, 10, 13, 9, 0x2028, 0x2029}"
        "\<not> (r < 0x20 \<or> r = 0x3C \<or> r = 0x3E \<or> r = 0x26)"
    by blast
  then show thesis
  proof cases
    case 1
    then show ?thesis using that(1-7) by blast
  next
    case 2
    then show ?thesis using that(9) by blast
  next
    case 3
    then show ?thesis by (intro that(8)) (auto simp: escape_rune_def)
  next
    case 4
    then show ?thesis by (intro that(10)) (auto simp: escape_rune_def)
  qed
qed

lemma hex_value_hex_char: "d < 16 \<Longrightarrow> hex_value (hex_char d) = Some d"
  by (auto simp: hex_value_def hex_char_def Let_def)

lemma hex_value_digits [simp]:
  "hex_value (CHR ''0'') = Some 0" "hex_value (CHR ''2'') = Some 2"
  by (simp_all add: hex_value_def)

lemma hex4_control:
  "r < 0x80 \<Longrightarrow> hex4 (CHR ''0'') (CHR ''0'') (hex_char (r div 16)) (hex_char (r mod 16)) = Some r"
  by (simp add: hex4_def hex_value_hex_char)

lemma hex4_separator:
  "r = 0x2028 \<or> r = 0x2029 \<Longrightarrow> hex4 (CHR ''2'') (CHR ''0'') (CHR ''2'') (hex_char (r mod 16)) = Some r"
  by (auto simp: hex4_def hex_value_hex_char)

lemma encode_valid_bytes_high:
  assumes "c \<in> set (encode_valid r)" and "0x80 \<le> r" and "valid_rune r"
  shows "0x80 \<le> (of_char c :: nat)"
proof -
  have b: "b < 256 \<and> 0x80 \<le> b" if "b \<in> set (encode_bytes r)" for b
    using encode_bytes_range [OF assms(3)] that assms(2)
    by (auto simp: encode_bytes_def split: if_splits)
  from assms(1) obtain b where "b \<in> set (encode_bytes r)" and "c = char_of b"
    by (auto simp: encode_valid_bytes)
  with b [of b] show ?thesis by simp
qed

lemma encode_valid_plain:
  assumes "valid_rune r" and "0x20 \<le> r" and "r \<noteq> 0x22" and "r \<noteq> 0x5C"
  shows "\<forall>c \<in> set (encode_valid r). c \<noteq> CHR 0x22 \<and> c \<noteq> CHR 0x5C \<and> 0x20 \<le> (of_char c :: nat)"
proof (cases "r < 0x80")
  case True
  then have "encode_valid r = [char_of r]" by (simp add: encode_valid_def)
  with True assms show ?thesis by (auto simp: char_of_eq_iff take_bit_eq_mod)
next
  case False
  show ?thesis
  proof
    fix c
    assume "c \<in> set (encode_valid r)"
    with encode_valid_bytes_high False assms(1) have "0x80 \<le> (of_char c :: nat)" by simp
    then show "c \<noteq> CHR 0x22 \<and> c \<noteq> CHR 0x5C \<and> 0x20 \<le> (of_char c :: nat)" by auto
  qed
qed

lemma scan_body_Cons_plain:
  "c \<noteq> CHR 0x22 \<Longrightarrow> c \<noteq> CHR 0x5C \<Longrightarrow> 0x20 \<le> (of_char c :: nat) \<Longrightarrow>
    scan_body (c # s) = map_option (apfst (\<lambda>b. c # b)) (scan_body s)"
  by simp

lemma scan_body_plain:
  "\<forall>c \<in> set p. c \<noteq> CHR 0x22 \<and> c \<noteq> CHR 0x5C \<and> 0x20 \<le> (of_char c :: nat) \<Longrightarrow>
    scan_body (p @ s) = map_option (apfst (\<lambda>b. p @ b)) (scan_body s)"
proof (induction p)
  case Nil
  then show ?case by (cases "scan_body s") auto
next
  case (Cons c p)
  then have "scan_body (p @ s) = map_option (apfst (\<lambda>b. p @ b)) (scan_body s)" by simp
  with Cons.prems scan_body_Cons_plain [of c "p @ s"] show ?case
    by (cases "scan_body s") (simp_all add: apfst_def map_prod_def split_beta del: scan_body.simps)
qed

lemma encode_rune_valid: "valid_rune r \<Longrightarrow> encode_rune r = encode_valid r"
  by (simp add: encode_rune_def)

lemma escape_rune_simps:
  "escape_rune 0x22 = [CHR 0x5C, CHR 0x22]" "escape_rune 0x5C = [CHR 0x5C, CHR 0x5C]"
  "escape_rune 8 = [CHR 0x5C, CHR ''b'']" "escape_rune 12 = [CHR 0x5C, CHR ''f'']"
  "escape_rune 10 = [CHR 0x5C, CHR ''n'']" "escape_rune 13 = [CHR 0x5C, CHR ''r'']"
  "escape_rune 9 = [CHR 0x5C, CHR ''t'']"
  by (simp_all add: escape_rune_def char_of_eq_iff)

lemma escape_separator:
  assumes "r = 0x2028 \<or> r = 0x2029"
  shows "escape_rune r = [CHR 0x5C, CHR ''u'', CHR ''2'', CHR ''0'', CHR ''2'', hex_char (r mod 16)]"
  using assms unfolding escape_rune_def by (elim disjE) (simp_all only:, simp_all)

lemma scan_body_escape_rune:
  assumes "valid_rune r"
  shows "scan_body (escape_rune r @ s) = map_option (apfst (\<lambda>b. escape_rune r @ b)) (scan_body s)"
proof (cases r rule: rune_cases)
  case control
  then have "r < 0x80" by auto
  from hex4_control [OF this] show ?thesis unfolding control(2) by simp
next
  case separator
  from hex4_separator [OF this] escape_separator [OF this] show ?thesis by simp
next
  case plain
  with encode_valid_plain [OF assms] show ?thesis
    by (simp add: encode_rune_valid [OF assms] scan_body_plain)
qed (simp_all add: escape_rune_simps)

lemma unquote_u:
  "hex4 h1 h2 h3 h4 = Some r \<Longrightarrow> unquote (CHR 0x5C # CHR ''u'' # h1 # h2 # h3 # h4 # s)
    = encode_rune (fst (escaped_rune r s)) @ unquote (drop (snd (escaped_rune r s)) s)"
  by (subst unquote.simps) (simp add: split_beta)

lemma unquote_escape:
  "d \<noteq> CHR ''u'' \<Longrightarrow> unquote (CHR 0x5C # d # s) = unescape_char d # unquote s"
  by (subst unquote.simps) simp

lemma unquote_rune:
  assumes "valid_rune r" and "r \<noteq> 0x5C"
  shows "unquote (encode_valid r @ s) = encode_valid r @ unquote s"
proof -
  obtain c t where ct: "encode_valid r = c # t" by (cases "encode_valid r") auto
  have "c \<noteq> CHR 0x5C"
  proof (cases "r < 0x80")
    case True
    with ct have "c = char_of r" by (simp add: encode_valid_def)
    with True assms(2) show ?thesis by (auto simp: char_of_eq_iff take_bit_eq_mod)
  next
    case False
    with encode_valid_bytes_high [of c r] ct assms(1) show ?thesis by auto
  qed
  with decode_encode_valid [OF assms(1), of s] ct assms(1) show ?thesis
    by (subst unquote.simps) (simp add: encode_rune_valid)
qed

lemma escaped_chars:
  "char_of (0x22 :: nat) = CHR 0x22" "char_of (0x5C :: nat) = CHR 0x5C"
  "char_of (8 :: nat) = CHR 0x08" "char_of (12 :: nat) = CHR 0x0C" "char_of (10 :: nat) = CHR 0x0A"
  "char_of (13 :: nat) = CHR 0x0D" "char_of (9 :: nat) = CHR 0x09"
  by (simp_all add: char_of_eq_iff)

lemma escaped_rune_plain: "\<not> is_surrogate r \<Longrightarrow> escaped_rune r s = (r, 0)"
  by (simp add: escaped_rune_def)

lemma valid_not_surrogate: "valid_rune r \<Longrightarrow> \<not> is_surrogate r"
  by (auto simp: valid_rune_def is_surrogate_def)

lemma encode_valid_ascii: "r < 0x80 \<Longrightarrow> encode_valid r = [char_of r]"
  by (simp add: encode_valid_def)

lemma unquote_escape_rune:
  assumes "valid_rune r"
  shows "unquote (escape_rune r @ s) = encode_valid r @ unquote s"
proof (cases r rule: rune_cases)
  case control
  then have "r < 0x80" by auto
  from unquote_u [OF hex4_control [OF this]] show ?thesis
    unfolding control(2)
    by (simp add: escaped_rune_plain [OF valid_not_surrogate [OF assms]] encode_rune_valid [OF assms])
next
  case separator
  from unquote_u [OF hex4_separator [OF this]] escape_separator [OF this] show ?thesis
    by (simp add: escaped_rune_plain [OF valid_not_surrogate [OF assms]] encode_rune_valid [OF assms])
next
  case plain
  with unquote_rune [OF assms] show ?thesis by (simp add: encode_rune_valid [OF assms])
qed (simp_all add: escape_rune_simps unquote_escape unescape_char_def encode_valid_ascii escaped_chars)

lemma encode_rune_scalar: "encode_rune (scalar r) = encode_rune r"
  by (simp add: encode_rune_def scalar_def)

lemma json_escape_back:
  assumes "valid_utf8 s"
  shows "unquote (json_escape s) = s \<and> scan_body (json_escape s @ CHR 0x22 # rest) = Some (json_escape s, rest)"
proof -
  have "unquote (json_escape (encode_runes rs)) = encode_runes rs
      \<and> scan_body (json_escape (encode_runes rs) @ CHR 0x22 # rest) = Some (json_escape (encode_runes rs), rest)"
    if "\<forall>r \<in> set rs. valid_rune r" for rs
    using that
  proof (induction rs)
    case Nil
    then show ?case by simp
  next
    case (Cons r rs)
    then have v: "valid_rune r" and "\<forall>r \<in> set rs. valid_rune r" by auto
    with Cons.IH v show ?case
      by (simp add: encode_rune_valid json_escape_valid unquote_escape_rune
          scan_body_escape_rune del: scan_body.simps)
  qed
  moreover have "\<exists>rs. (\<forall>r \<in> set rs. valid_rune r) \<and> s = encode_runes rs"
  proof -
    from assms obtain rs where "s = encode_runes rs" using valid_utf8_iff_encoded by blast
    then have "s = encode_runes (map scalar rs)"
      by (simp add: encode_runes_def encode_rune_scalar comp_def)
    moreover have "\<forall>r \<in> set (map scalar rs). valid_rune r" by (auto simp: scalar_def)
    ultimately show ?thesis by blast
  qed
  ultimately show ?thesis by blast
qed

declare scan_body.simps [simp del]

theorem parse_json_string:
  "valid_utf8 s \<Longrightarrow> parse_string (json_string s @ rest) = Some (s, rest)"
  using json_escape_back [of s rest] by (simp add: parse_string_def json_string_def)

subsection \<open>Maps read back\<close>

lemma json_string_not_space: "skip_ws (json_string s @ rest) = json_string s @ rest"
  by (simp add: skip_ws_def json_string_def is_json_space_def)

lemma parse_value_string:
  "valid_utf8 s \<Longrightarrow> parse_value d (json_string s @ rest) = Some (JString s, rest)"
proof -
  assume "valid_utf8 s"
  then have "parse_scalar (json_string s @ rest) = Some (JString s, rest)"
    using parse_json_string [of s rest] by (simp add: parse_scalar_def json_string_def)
  then show ?thesis by (cases d) (simp_all add: json_string_def)
qed

text \<open>One member, with the character after it.\<close>

definition member :: "string \<times> string \<Rightarrow> string \<times> string \<times> json" where
  "member kv = (fst kv, json_string (snd kv), JString (snd kv))"

lemma skip_ws_Cons [simp]: "\<not> is_json_space c \<Longrightarrow> skip_ws (c # s) = c # s"
  by (simp add: skip_ws_def)

lemma not_json_space [simp]:
  "\<not> is_json_space CHR '':''" "\<not> is_json_space CHR '',''" "\<not> is_json_space CHR ''}''"
  "\<not> is_json_space CHR ''{''" "\<not> is_json_space CHR ''n''"
  by (simp_all add: is_json_space_def)

lemma parse_written_member:
  assumes "valid_utf8 k" and "valid_utf8 v" and "c \<in> {CHR '','', CHR ''}''}"
  shows "parse_items (parse_member (parse_value d)) CHR ''}'' (Suc n)
      (json_string k @ '':'' @ json_string v @ c # rest)
    = (if c = CHR ''}'' then Some ([member (k, v)], rest)
       else map_option (apfst (\<lambda>ms. member (k, v) # ms))
         (parse_items (parse_member (parse_value d)) CHR ''}'' n rest))"
  using assms(3)
  by (auto simp: parse_member_def json_string_not_space parse_json_string [OF assms(1)]
      parse_value_string [OF assms(2)] member_def)

lemma parse_members_written:
  assumes "kvs \<noteq> []" and "\<forall>kv \<in> set kvs. valid_utf8 (fst kv) \<and> valid_utf8 (snd kv)"
    and "length kvs \<le> n"
  shows "parse_items (parse_member (parse_value d)) CHR ''}'' n (json_members kvs @ CHR ''}'' # rest)
    = Some (map member kvs, rest)"
  using assms
proof (induction kvs arbitrary: n rule: json_members.induct)
  case 1
  then show ?case by simp
next
  case (2 kv)
  then obtain m where "n = Suc m" by (cases n) auto
  with 2 parse_written_member [of "fst kv" "snd kv" "CHR ''}''" d m rest] show ?case
    by (simp del: parse_items.simps)
next
  case (3 kv kv' kvs)
  then obtain m where m: "n = Suc m" by (cases n) auto
  with 3 have IH: "parse_items (parse_member (parse_value d)) CHR ''}'' m (json_members (kv' # kvs) @ CHR ''}'' # rest)
      = Some (map member (kv' # kvs), rest)"
    by simp
  from 3 m IH parse_written_member [of "fst kv" "snd kv" "CHR '',''" d m
      "json_members (kv' # kvs) @ CHR ''}'' # rest"] show ?case
    by (simp del: parse_items.simps json_members.simps(3) add: json_members.simps(3) [of kv])
qed

definition json_of_map :: "(string \<times> string) list option \<Rightarrow> json" where
  "json_of_map m =
     (case m of None \<Rightarrow> JNull | Some al \<Rightarrow> JObject (map member (sort_key fst al)))"

lemma json_members_length: "length kvs \<le> length (json_members kvs)"
  by (induction kvs rule: json_members.induct) (auto simp: json_string_def)

lemma json_members_start:
  "kvs \<noteq> [] \<Longrightarrow> \<exists>s. json_members kvs = CHR 0x22 # s"
  by (induction kvs rule: json_members.induct) (auto simp: json_string_def)

definition map_valid_utf8 :: "(string \<times> string) list option \<Rightarrow> bool" where
  "map_valid_utf8 m \<longleftrightarrow>
     (case m of None \<Rightarrow> True | Some al \<Rightarrow> list_all (\<lambda>kv. valid_utf8 (fst kv) \<and> valid_utf8 (snd kv)) al)"

theorem parse_json_string_map:
  assumes "map_valid_utf8 m"
  shows "parse_value (Suc d) (json_string_map m @ rest) = Some (json_of_map m, rest)"
proof (cases m)
  case None
  then show ?thesis by (simp add: json_string_map_def json_of_map_def parse_scalar_def)
next
  case (Some al)
  let ?kvs = "sort_key fst al"
  show ?thesis
  proof (cases "al = []")
    case True
    with Some show ?thesis by (simp add: json_string_map_def json_of_map_def Let_def)
  next
    case False
    then have ne: "?kvs \<noteq> []" by (metis length_0_conv length_sort)
    from json_members_start [OF this] obtain s where s: "json_members ?kvs = CHR 0x22 # s" by blast
    have v: "\<forall>kv \<in> set ?kvs. valid_utf8 (fst kv) \<and> valid_utf8 (snd kv)"
      using assms Some by (simp add: map_valid_utf8_def list_all_iff)
    let ?t = "json_members ?kvs @ CHR ''}'' # rest"
    have "parse_items (parse_member (parse_value d)) CHR ''}'' (length ?t) ?t = Some (map member ?kvs, rest)"
      by (rule parse_members_written [OF ne v]) (use json_members_length [of ?kvs] in simp)
    moreover have "skip_ws ?t = ?t"
      unfolding s by (simp add: is_json_space_def)
    moreover have "\<not> has_prefix ?t ''}''" unfolding s by simp
    ultimately show ?thesis
      using Some by (simp add: json_string_map_def json_of_map_def Let_def)
  qed
qed

subsection \<open>The bounds of the loops are enough\<close>

definition consumes :: "(string \<Rightarrow> ('a \<times> string) option) \<Rightarrow> bool" where
  "consumes p \<longleftrightarrow> (\<forall>s v rest. p s = Some (v, rest) \<longrightarrow> length rest < length s)"

lemma consumesI: "(\<And>s v rest. p s = Some (v, rest) \<Longrightarrow> length rest < length s) \<Longrightarrow> consumes p"
  by (simp add: consumes_def)

lemma consumesD: "consumes p \<Longrightarrow> p s = Some (v, rest) \<Longrightarrow> length rest < length s"
  by (simp add: consumes_def)

lemma skip_ws_length: "length (skip_ws s) \<le> length s"
  by (simp add: skip_ws_def length_dropWhile_le)

lemma skip_ws_le: "skip_ws s = c # t \<Longrightarrow> length t < length s"
  using skip_ws_length [of s] by simp

text \<open>More rounds than characters make no difference.\<close>

lemma items_bound:
  assumes "consumes item"
  shows "length s \<le> n \<Longrightarrow> parse_items item close n s = parse_items item close (length s) s"
proof (induction "length s" arbitrary: s n rule: less_induct)
  case less
  have step: "parse_items item close n t = parse_items item close m t"
    if "item (skip_ws s) = Some (v, s1)" and "skip_ws s1 = c # t" and "length t \<le> n" "length t \<le> m"
    for v s1 c t n m
  proof -
    have "length t < length s"
      using consumesD [OF assms that(1)] skip_ws_le [OF that(2)] skip_ws_length [of s] by simp
    with less.hyps [of t n] less.hyps [of t m] that(3,4) show ?thesis by simp
  qed
  show ?case
  proof (cases "item (skip_ws s)")
    case None
    then show ?thesis by (cases n; cases "length s") auto
  next
    case (Some r)
    obtain v s1 where r: "r = (v, s1)" by (cases r)
    have l: "length s1 < length s"
      using consumesD [OF assms, of "skip_ws s" v s1] Some r skip_ws_length [of s] by simp
    then obtain k where k: "length s = Suc k" by (cases "length s") auto
    with less.prems obtain m where m: "n = Suc m" and "k \<le> m" by (cases n) auto
    show ?thesis
    proof (cases "skip_ws s1")
      case Nil
      with Some r k m show ?thesis by simp
    next
      case (Cons c t)
      with l skip_ws_le [OF Cons] k \<open>k \<le> m\<close> have "length t \<le> m" "length t \<le> k" by simp_all
      from step [OF _ Cons this] Some r k m Cons show ?thesis by simp
    qed
  qed
qed

lemma scan_body_length: "scan_body s = Some (b, rest) \<Longrightarrow> length rest < length s"
proof (induction "length s" arbitrary: s b rule: less_induct)
  case less
  have IH: "length rest < length t" if "length t < length s" and "scan_body t = Some (a, rest)" for t a
    using less.hyps [OF that(1) that(2)] .
  obtain c t where s: "s = c # t" using less.prems by (cases s) (auto simp: scan_body.simps)
  from less.prems obtain u a where u: "scan_body u = Some (a, rest) \<and> length u < length s \<or> rest = t"
    unfolding s by (subst (asm) scan_body.simps) (fastforce split: if_splits list.splits)
  with IH [of u a] s show ?case by auto
qed

lemma parse_string_consumes: "consumes parse_string"
  by (rule consumesI)
     (auto simp: parse_string_def dest!: scan_body_length split: list.splits if_splits)

lemma scan_digits_consumes: "consumes scan_digits"
proof (rule consumesI)
  fix s ds rest
  assume "scan_digits s = Some (ds, rest)"
  then have "takeWhile is_digit s \<noteq> []" and "rest = drop (length (takeWhile is_digit s)) s"
    by (auto simp: scan_digits_def Let_def split: if_splits)
  then show "length rest < length s" by (cases s) auto
qed

lemma scan_int_consumes: "consumes scan_int"
  by (rule consumesI)
     (auto simp: scan_int_def dest: consumesD [OF scan_digits_consumes] split: list.splits if_splits)

lemma scan_fraction_length: "scan_fraction s = Some (f, rest) \<Longrightarrow> length rest \<le> length s"
  by (auto simp: scan_fraction_def dest!: consumesD [OF scan_digits_consumes]
      split: list.splits if_splits)

lemma scan_exponent_length: "scan_exponent s = Some (f, rest) \<Longrightarrow> length rest \<le> length s"
  by (auto simp: scan_exponent_def dest!: consumesD [OF scan_digits_consumes]
      split: list.splits if_splits)

lemma parse_number_consumes: "consumes parse_number"
proof (rule consumesI)
  fix s v rest
  assume "parse_number s = Some (v, rest)"
  then obtain i s1 f s2 e where "scan_int (trim_prefix s ''-'') = Some (i, s1)"
    and "scan_fraction s1 = Some (f, s2)" and "scan_exponent s2 = Some (e, rest)"
    by (auto simp: parse_number_def Let_def)
  from consumesD [OF scan_int_consumes this(1)] scan_fraction_length [OF this(2)]
    scan_exponent_length [OF this(3)]
  show "length rest < length s" by (auto simp: trim_prefix_def split: if_splits)
qed

lemma has_prefix_length: "has_prefix s p \<Longrightarrow> length p \<le> length s"
  by (auto simp: has_prefix_iff)

lemma parse_scalar_consumes: "consumes parse_scalar"
  by (rule consumesI)
     (auto simp: parse_scalar_def dest!: has_prefix_length consumesD [OF parse_string_consumes]
        consumesD [OF parse_number_consumes] split: if_splits)

lemma items_consume:
  assumes "consumes item"
  shows "consumes (parse_items item close n)"
proof (rule consumesI)
  fix s xs rest
  show "parse_items item close n s = Some (xs, rest) \<Longrightarrow> length rest < length s"
  proof (induction n arbitrary: s xs)
    case 0
    then show ?case by simp
  next
    case (Suc n)
    from Suc.prems obtain x s1 c s2
      where i: "item (skip_ws s) = Some (x, s1)" and c: "skip_ws s1 = c # s2"
        and r: "rest = s2 \<or> (\<exists>ys. parse_items item close n s2 = Some (ys, rest))"
      by (auto split: list.splits if_splits)
    from consumesD [OF assms i] skip_ws_le [OF c] skip_ws_length [of s] have "length s2 < length s"
      by linarith
    with r show ?case by (auto dest: Suc.IH)
  qed
qed

lemma parse_member_consumes: "consumes pv \<Longrightarrow> consumes (parse_member pv)"
proof (rule consumesI)
  fix s m rest
  assume pv: "consumes pv" and "parse_member pv s = Some (m, rest)"
  then obtain k s1 c s2 v where k: "parse_string s = Some (k, s1)" and c: "skip_ws s1 = c # s2"
      and v: "pv (skip_ws s2) = Some (v, rest)"
    by (auto simp: parse_member_def split: list.splits if_splits)
  from consumesD [OF parse_string_consumes k] skip_ws_le [OF c] consumesD [OF pv v]
    skip_ws_length [of s2]
  show "length rest < length s" by linarith
qed

lemma parse_value_consumes: "consumes (parse_value d)"
proof (induction d)
  case 0
  then show ?case using parse_scalar_consumes by (simp add: consumes_def)
next
  case (Suc d)
  have sc: "parse_scalar s = Some (v, rest) \<Longrightarrow> length rest < length s" for s v rest
    using consumesD [OF parse_scalar_consumes] .
  show ?case
  proof (rule consumesI)
    fix s v rest
    let ?t = "skip_ws (drop 1 s)"
    assume p: "parse_value (Suc d) s = Some (v, rest)"
    then consider "parse_scalar s = Some (v, rest)" | "s \<noteq> []" "rest = drop 1 ?t"
      | ms where "s \<noteq> []" "parse_items (parse_member (parse_value d)) CHR ''}'' (length ?t) ?t = Some (ms, rest)"
      | vs where "s \<noteq> []" "parse_items (parse_value d) CHR '']'' (length ?t) ?t = Some (vs, rest)"
      by (cases "s = []") (auto simp: Let_def split: if_splits)
    then show "length rest < length s"
    proof cases
      case 1
      then show ?thesis by (rule sc)
    next
      case 2
      with skip_ws_length [of "drop 1 s"] show ?thesis by (cases s) auto
    next
      case 3
      from consumesD [OF items_consume [OF parse_member_consumes [OF Suc.IH]] 3(2)]
        skip_ws_length [of "drop 1 s"] show ?thesis by simp
    next
      case 4
      from consumesD [OF items_consume [OF Suc.IH] 4(2)]
        skip_ws_length [of "drop 1 s"] show ?thesis by simp
    qed
  qed
qed

theorem parse_bounds_enough:
  "length t \<le> n \<Longrightarrow> parse_items (parse_member (parse_value d)) c n t
      = parse_items (parse_member (parse_value d)) c (length t) t"
  "length t \<le> n \<Longrightarrow> parse_items (parse_value d) c n t = parse_items (parse_value d) c (length t) t"
  by (rule items_bound [OF parse_member_consumes [OF parse_value_consumes]], assumption)
     (rule items_bound [OF parse_value_consumes])

end
