(* ===== verification/Go_Map.thy ===== *)
theory Go_Map
  imports Prelude "HOL-Library.AList"
begin

text \<open>
  Go maps. A map value is nil or a table; a table is an association list with one entry
  per key. Reading a nil map finds nothing and deleting from it does nothing, but storing
  into it panics (\<open>None\<close>).
\<close>

type_synonym ('k, 'v) go_map = "('k \<times> 'v) list option"

definition make_map :: "('k, 'v) go_map" where
  "make_map = Some []"

definition map_get :: "('k, 'v) go_map \<Rightarrow> 'k \<Rightarrow> 'v option" where
  "map_get m k = (case m of None \<Rightarrow> None | Some al \<Rightarrow> map_of al k)"

definition map_put :: "'k \<Rightarrow> 'v \<Rightarrow> ('k, 'v) go_map \<Rightarrow> ('k, 'v) go_map option" where
  "map_put k v m = (case m of None \<Rightarrow> None | Some al \<Rightarrow> Some (Some (AList.update k v al)))"

definition map_delete :: "'k \<Rightarrow> ('k, 'v) go_map \<Rightarrow> ('k, 'v) go_map" where
  "map_delete k m = map_option (AList.delete k) m"

definition map_keys :: "('k, 'v) go_map \<Rightarrow> 'k list" where
  "map_keys m = (case m of None \<Rightarrow> [] | Some al \<Rightarrow> map fst al)"

text \<open>A table is well formed when its keys are distinct; a nil map is.\<close>

definition map_wf :: "('k, 'v) go_map \<Rightarrow> bool" where
  "map_wf m \<longleftrightarrow> distinct (map_keys m)"

text \<open>
  The contract of a mutable keyed store, for the clients that are proved against it
  (the cursor's two maps and the buckets of the in-memory database): \<open>usable\<close> states can
  be written without a panic.
\<close>

locale keyed_store =
  fixes get :: "'m \<Rightarrow> 'k \<Rightarrow> 'v option"
    and put :: "'k \<Rightarrow> 'v \<Rightarrow> 'm \<Rightarrow> 'm option"
    and del :: "'k \<Rightarrow> 'm \<Rightarrow> 'm"
    and usable :: "'m \<Rightarrow> bool"
  assumes put_defined: "usable m \<Longrightarrow> \<exists>m'. put k v m = Some m'"
    and put_usable: "usable m \<Longrightarrow> put k v m = Some m' \<Longrightarrow> usable m'"
    and del_usable: "usable m \<Longrightarrow> usable (del k m)"
    and get_put: "usable m \<Longrightarrow> put k v m = Some m' \<Longrightarrow> get m' = (get m)(k \<mapsto> v)"
    and get_del: "usable m \<Longrightarrow> get (del k m) = (get m)(k := None)"
begin

lemma get_put_same: "usable m \<Longrightarrow> put k v m = Some m' \<Longrightarrow> get m' k = Some v"
  by (simp add: get_put)

lemma get_put_other: "usable m \<Longrightarrow> put k v m = Some m' \<Longrightarrow> j \<noteq> k \<Longrightarrow> get m' j = get m j"
  by (simp add: get_put)

lemma get_del_same: "usable m \<Longrightarrow> get (del k m) k = None"
  by (simp add: get_del)

lemma get_del_other: "usable m \<Longrightarrow> j \<noteq> k \<Longrightarrow> get (del k m) j = get m j"
  by (simp add: get_del)

lemma put_dom: "usable m \<Longrightarrow> put k v m = Some m' \<Longrightarrow> dom (get m') = insert k (dom (get m))"
  by (simp add: get_put)

lemma put_overwrites:
  assumes "usable m" and "put k v m = Some m1" and "put k w m1 = Some m2" and "put k w m = Some m3"
  shows "get m2 = get m3"
  using assms put_usable [OF assms(1,2)] by (simp add: get_put)

lemma del_after_put:
  assumes "usable m" and "put k v m = Some m'"
  shows "get (del k m') = (get m)(k := None)"
  using assms put_usable [OF assms] by (simp add: get_put get_del)

text \<open>Storing a list of entries from left to right never panics on a usable store.\<close>

primrec put_all :: "('k \<times> 'v) list \<Rightarrow> 'm \<Rightarrow> 'm option" where
  "put_all [] m = Some m"
| "put_all (kv # kvs) m = Option.bind (put (fst kv) (snd kv) m) (put_all kvs)"

lemma put_all_defined: "usable m \<Longrightarrow> \<exists>m'. put_all kvs m = Some m' \<and> usable m'"
proof (induction kvs arbitrary: m)
  case Nil
  then show ?case by simp
next
  case (Cons kv kvs)
  from put_defined [OF Cons.prems] obtain m1 where m1: "put (fst kv) (snd kv) m = Some m1"
    by blast
  from Cons.IH [OF put_usable [OF Cons.prems m1]] m1 show ?case by simp
qed

lemma put_all_get: "usable m \<Longrightarrow> put_all kvs m = Some m' \<Longrightarrow> get m' = get m ++ map_of (rev kvs)"
proof (induction kvs arbitrary: m)
  case Nil
  then show ?case by simp
next
  case (Cons kv kvs)
  then obtain m1 where m1: "put (fst kv) (snd kv) m = Some m1" and "put_all kvs m1 = Some m'"
    by auto
  with Cons.IH [OF put_usable [OF Cons.prems(1) m1]] have "get m' = get m1 ++ map_of (rev kvs)" by blast
  with get_put [OF Cons.prems(1) m1] show ?case by simp
qed

end

interpretation gm: keyed_store
  "map_get :: ('k, 'v) go_map \<Rightarrow> 'k \<Rightarrow> 'v option" map_put map_delete "\<lambda>m. m \<noteq> None"
  by unfold_locales
     (auto simp: map_get_def map_put_def map_delete_def update_conv' delete_conv' split: option.splits)

text \<open>A store that did not panic was into a table.\<close>

lemma map_put_usable: "map_put k v m = Some m' \<Longrightarrow> m \<noteq> None"
  by (cases m) (simp_all add: map_put_def)

lemma map_get_put: "map_put k v m = Some m' \<Longrightarrow> map_get m' = (map_get m)(k \<mapsto> v)"
  by (rule gm.get_put [OF map_put_usable])

lemma map_get_put_same: "map_put k v m = Some m' \<Longrightarrow> map_get m' k = Some v"
  by (rule gm.get_put_same [OF map_put_usable])

lemma map_put_dom: "map_put k v m = Some m' \<Longrightarrow> dom (map_get m') = insert k (dom (map_get m))"
  by (rule gm.put_dom [OF map_put_usable])

lemma map_put_not_None: "map_put k v m = Some m' \<Longrightarrow> m' \<noteq> None"
  by (rule gm.put_usable [OF map_put_usable])

lemma map_get_make [simp]: "map_get make_map k = None"
  by (simp add: map_get_def make_map_def)

lemma make_map_usable [simp]: "make_map \<noteq> None" "map_wf make_map"
  by (simp_all add: make_map_def map_wf_def map_keys_def)

lemma map_delete_usable [simp]: "map_delete k m = None \<longleftrightarrow> m = None"
  by (simp add: map_delete_def)

lemma usable_Some [simp]:
  "\<exists>al. make_map = Some al" "(\<exists>al. map_delete k m = Some al) \<longleftrightarrow> (\<exists>al. m = Some al)"
  by (auto simp: make_map_def map_delete_def)

lemma map_put_table: "map_put k v m = Some m' \<Longrightarrow> \<exists>al. m' = Some al"
  by (auto simp: map_put_def split: option.splits)

lemma map_put_eq_None [simp]: "map_put k v m = None \<longleftrightarrow> m = None"
  by (simp add: map_put_def split: option.splits)

lemma map_put_wf: "map_wf m \<Longrightarrow> map_put k v m = Some m' \<Longrightarrow> map_wf m'"
  by (auto simp: map_wf_def map_keys_def map_put_def distinct_update split: option.splits)

lemma map_delete_wf: "map_wf m \<Longrightarrow> map_wf (map_delete k m)"
  by (auto simp: map_wf_def map_keys_def map_delete_def distinct_delete split: option.splits)

lemma map_get_delete: "map_get (map_delete k m) j = (if j = k then None else map_get m j)"
  by (cases m) (auto simp: map_get_def map_delete_def delete_conv')

lemma map_keys_set: "map_get m k \<noteq> None \<longleftrightarrow> k \<in> set (map_keys m)"
  by (cases m) (simp_all add: map_get_def map_keys_def map_of_eq_None_iff del: not_None_eq)

end
