(* ===== verification/Candidate.thy ===== *)
theory Candidate
  imports Go_Text Go_Map
begin

text \<open>
  \<open>pkg/darkfactory/candidate.go\<close>: whether a pull request is a candidate, that is an open
  draft whose diff touches an approved and not yet completed spec. The YAML decoder of
  yaml.v3 is the parameter \<open>yaml_unmarshal\<close>; the GitHub reads are the operations of a
  \<open>ContentReader\<close>, whose state of the world is arbitrary.
\<close>

definition darkFactoryConfigFile :: string where
  "darkFactoryConfigFile = ''.dark-factory.yaml''"

definition specDir :: string where
  "specDir = ''specs/in-progress''"

definition promptsDir :: string where
  "promptsDir = ''prompts/in-progress''"

definition ReasonNotDraft :: string where
  "ReasonNotDraft = ''not_draft''"

definition ReasonNotOpen :: string where
  "ReasonNotOpen = ''not_open''"

definition ReasonNoDarkFactoryYML :: string where
  "ReasonNoDarkFactoryYML = ''no_dark_factory_yaml''"

definition ReasonNoSpecInDiff :: string where
  "ReasonNoSpecInDiff = ''no_spec_in_diff''"

lemmas reason_defs [go_defs] =
  ReasonNotDraft_def ReasonNotOpen_def ReasonNoDarkFactoryYML_def ReasonNoSpecInDiff_def

text \<open>The interface \<open>ContentReader\<close>.\<close>

record 'w ContentReader =
  ListPRFiles :: "string \<Rightarrow> string \<Rightarrow> int \<Rightarrow> ('w, go_error + string list) call"
  GetContent :: "string \<Rightarrow> string \<Rightarrow> string \<Rightarrow> string \<Rightarrow> ('w, go_error + string) call"
  ListDir :: "string \<Rightarrow> string \<Rightarrow> string \<Rightarrow> string \<Rightarrow> ('w, go_error + string list) call"
  IsNotFound :: "go_error \<Rightarrow> bool"

record Input =
  in_Owner :: string
  in_Repo :: string
  in_Number :: int
  in_HeadSHA :: string
  in_IsDraft :: bool
  in_State :: string

record Result =
  Keep :: bool
  Reason :: string
  MatchedSpecs :: "string list"
  PromptsQueued :: bool

definition skip :: "string \<Rightarrow> Result" where
  "skip reason = \<lparr>Keep = False, Reason = reason, MatchedSpecs = [], PromptsQueued = False\<rparr>"

subsection \<open>Frontmatter\<close>

text \<open>The values of a decoded YAML mapping, as \<open>interface{}\<close> values.\<close>

datatype yaml_value = YNil | YString string | YBool bool | YNumber int | YOther string

type_synonym yaml_fun = "string \<Rightarrow> go_error + (string, yaml_value) go_map"

definition parseFrontmatter :: "yaml_fun \<Rightarrow> string \<Rightarrow> go_error + (string, yaml_value) go_map" where
  "parseFrontmatter yaml_unmarshal content =
     (let text = replace_crlf content
      in if \<not> has_prefix text (''---'' @ [CHR 0x0A]) \<and> text \<noteq> ''---'' then Inr make_map
         else
           (let rest = trim_prefix text (''---'' @ [CHR 0x0A])
            in case strings_index rest (CHR 0x0A # ''---'') of
                 None \<Rightarrow> Inr make_map
               | Some end_at \<Rightarrow>
                   (case yaml_unmarshal (take end_at rest) of
                      Inl err \<Rightarrow> Inl (Wrapped ''unmarshal frontmatter yaml'' err)
                    | Inr fm \<Rightarrow> if fm = None then Inr make_map else Inr fm)))"

definition frontmatterSet :: "(string, yaml_value) go_map \<Rightarrow> string \<Rightarrow> bool" where
  "frontmatterSet fm key =
     (case map_get fm key of
        None \<Rightarrow> False
      | Some YNil \<Rightarrow> False
      | Some (YString s) \<Rightarrow> trim_space s \<noteq> ''''
      | Some _ \<Rightarrow> True)"

definition specApprovedNotCompleted :: "yaml_fun \<Rightarrow> string \<Rightarrow> go_error + bool" where
  "specApprovedNotCompleted yaml_unmarshal content =
     (case parseFrontmatter yaml_unmarshal content of
        Inl err \<Rightarrow> Inl (Wrapped ''parse frontmatter'' err)
      | Inr fm \<Rightarrow> Inr (frontmatterSet fm ''approved'' \<and> \<not> frontmatterSet fm ''completed''))"

subsection \<open>The reads of the evaluator\<close>

definition is_spec_path :: "string \<Rightarrow> bool" where
  "is_spec_path file \<longleftrightarrow> has_prefix file (specDir @ ''/'') \<and> has_suffix file ''.md''"

text \<open>The loop of \<open>matchedApprovedSpecsInDiff\<close> over the files of the diff.\<close>

fun matched_loop ::
  "yaml_fun \<Rightarrow> ('w, 'z) ContentReader_scheme \<Rightarrow> Input \<Rightarrow> string list \<Rightarrow> string list
    \<Rightarrow> ('w, go_error + string list) call"
where
  "matched_loop yaml_unmarshal reader inp [] matched w = Some (Inr matched, w)"
| "matched_loop yaml_unmarshal reader inp (file # files) matched w =
     (if \<not> is_spec_path file then matched_loop yaml_unmarshal reader inp files matched w
      else do {
        (content, w) \<leftarrow> GetContent reader (in_Owner inp) (in_Repo inp) file (in_HeadSHA inp) w;
        case content of
          Inl err \<Rightarrow>
            if IsNotFound reader err then matched_loop yaml_unmarshal reader inp files matched w
            else Some (Inl (Wrapped ''get spec %s'' err), w)
        | Inr content \<Rightarrow>
            (case specApprovedNotCompleted yaml_unmarshal content of
               Inl err \<Rightarrow> Some (Inl (Wrapped ''parse spec %s'' err), w)
             | Inr approved \<Rightarrow>
                 matched_loop yaml_unmarshal reader inp files
                   (if approved then matched @ [file] else matched) w)
      })"

definition matchedApprovedSpecsInDiff ::
  "yaml_fun \<Rightarrow> ('w, 'z) ContentReader_scheme \<Rightarrow> Input \<Rightarrow> ('w, go_error + string list) call"
where
  "matchedApprovedSpecsInDiff yaml_unmarshal reader inp w =
     do {
       (files, w) \<leftarrow> ListPRFiles reader (in_Owner inp) (in_Repo inp) (in_Number inp) w;
       case files of
         Inl err \<Rightarrow> Some (Inl (Wrapped ''list pr files pr=%s/%s#%d'' err), w)
       | Inr files \<Rightarrow> matched_loop yaml_unmarshal reader inp files [] w
     }"

definition hasQueuedPrompts ::
  "('w, 'z) ContentReader_scheme \<Rightarrow> Input \<Rightarrow> ('w, go_error + bool) call"
where
  "hasQueuedPrompts reader inp w =
     do {
       (entries, w) \<leftarrow> ListDir reader (in_Owner inp) (in_Repo inp) promptsDir (in_HeadSHA inp) w;
       case entries of
         Inl err \<Rightarrow>
           if IsNotFound reader err then Some (Inr False, w)
           else Some (Inl (Wrapped ''list %s'' err), w)
       | Inr entries \<Rightarrow> Some (Inr (list_ex (\<lambda>entry. has_suffix entry ''.md'') entries), w)
     }"

definition Evaluate ::
  "yaml_fun \<Rightarrow> ('w, 'z) ContentReader_scheme \<Rightarrow> Input \<Rightarrow> ('w, go_error + Result) call"
where
  "Evaluate yaml_unmarshal reader inp w =
     (if \<not> in_IsDraft inp then Some (Inr (skip ReasonNotDraft), w)
      else if in_State inp \<noteq> ''open'' then Some (Inr (skip ReasonNotOpen), w)
      else do {
        (config, w) \<leftarrow>
          GetContent reader (in_Owner inp) (in_Repo inp) darkFactoryConfigFile (in_HeadSHA inp) w;
        case config of
          Inl err \<Rightarrow>
            if IsNotFound reader err then Some (Inr (skip ReasonNoDarkFactoryYML), w)
            else Some (Inl (Wrapped ''get %s'' err), w)
        | Inr _ \<Rightarrow>
            do {
              (matched, w) \<leftarrow> matchedApprovedSpecsInDiff yaml_unmarshal reader inp w;
              case matched of
                Inl err \<Rightarrow> Some (Inl (Wrapped ''check approved spec in diff'' err), w)
              | Inr matched \<Rightarrow>
                  if matched = [] then Some (Inr (skip ReasonNoSpecInDiff), w)
                  else do {
                    (promptsQueued, w) \<leftarrow> hasQueuedPrompts reader inp w;
                    case promptsQueued of
                      Inl err \<Rightarrow> Some (Inl (Wrapped ''check queued prompts'' err), w)
                    | Inr promptsQueued \<Rightarrow>
                        Some (Inr \<lparr>Keep = True, Reason = '''', MatchedSpecs = matched,
                                   PromptsQueued = promptsQueued\<rparr>, w)
                  }
            }
      })"

subsection \<open>Facts about the frontmatter\<close>

abbreviation newline :: char where
  "newline \<equiv> CHR 0x0A"

lemma index_of_closing:
  "strings_index block (newline # ''---'') = None \<Longrightarrow>
    strings_index (block @ newline # ''---'' @ rest) (newline # ''---'') = Some (length block)"
proof (induction block)
  case Nil
  show ?case by simp
next
  case (Cons c block)
  then have "strings_index block (newline # ''---'') = None"
    and np: "\<not> has_prefix (c # block) (newline # ''---'')"
    by (auto split: if_splits)
  with Cons.IH have IH:
    "strings_index (block @ newline # ''---'' @ rest) (newline # ''---'') = Some (length block)"
    by blast
  consider "block = []" | x where "block = [x]" | x y where "block = [x, y]"
    | x y z zs where "block = x # y # z # zs"
    by (metis neq_Nil_conv)
  then have "\<not> has_prefix (c # block @ newline # ''---'' @ rest) (newline # ''---'')"
    using np by cases auto
  with IH show ?case by simp
qed

definition crlf :: "string \<Rightarrow> string" where
  "crlf s = concat (map (\<lambda>c. if c = newline then [CHR 0x0D, newline] else [c]) s)"

lemma replace_crlf_crlf: "CHR 0x0D \<notin> set s \<Longrightarrow> replace_crlf (crlf s) = s"
proof (induction s)
  case Nil
  show ?case by (simp add: crlf_def)
next
  case (Cons c s)
  have ne: "replace_crlf (c # t) = c # replace_crlf t" if "c \<noteq> CHR 0x0D" for t
    using that by (cases t) simp_all
  have eq: "crlf (c # s) = (if c = newline then [CHR 0x0D, newline] else [c]) @ crlf s"
    by (simp add: crlf_def)
  show ?case
  proof (cases "c = newline")
    case True
    with Cons eq show ?thesis by simp
  next
    case False
    moreover have "c \<noteq> CHR 0x0D" "CHR 0x0D \<notin> set s" using Cons.prems by auto
    ultimately show ?thesis using Cons.IH eq ne by simp
  qed
qed

lemma parseFrontmatter_block:
  assumes "replace_crlf content = ''---'' @ newline # block @ newline # ''---'' @ rest"
    and "strings_index block (newline # ''---'') = None"
  shows "parseFrontmatter yaml_unmarshal content =
    (case yaml_unmarshal block of
       Inl err \<Rightarrow> Inl (Wrapped ''unmarshal frontmatter yaml'' err)
     | Inr fm \<Rightarrow> if fm = None then Inr make_map else Inr fm)"
  using index_of_closing [OF assms(2), of rest] assms(1)
  by (simp add: parseFrontmatter_def Let_def trim_prefix_def)

lemma parseFrontmatter_none:
  assumes "\<not> has_prefix (replace_crlf content) (''---'' @ [newline])"
  shows "parseFrontmatter yaml_unmarshal content = Inr make_map"
proof (cases "replace_crlf content = ''---''")
  case True
  then show ?thesis by (simp add: parseFrontmatter_def trim_prefix_def)
next
  case False
  with assms show ?thesis by (simp add: parseFrontmatter_def Let_def)
qed

lemma frontmatterSet_make_map [simp]: "\<not> frontmatterSet make_map key"
  by (simp add: frontmatterSet_def)

lemma parseFrontmatter_error_root:
  "parseFrontmatter yaml_unmarshal content = Inl err \<Longrightarrow>
    \<exists>block e. yaml_unmarshal block = Inl e \<and> root_cause err = root_cause e"
  by (auto simp: parseFrontmatter_def Let_def split: if_splits option.splits sum.splits) blast+

lemma spec_error_root:
  "specApprovedNotCompleted yaml_unmarshal content = Inl err \<Longrightarrow>
    \<exists>block e. yaml_unmarshal block = Inl e \<and> root_cause err = root_cause e"
  using parseFrontmatter_error_root
  by (fastforce simp: specApprovedNotCompleted_def split: sum.splits)

subsection \<open>Facts about the evaluator\<close>

text \<open>A file the evaluator has read, at some point of the run, and found approved.\<close>

definition read_approved ::
  "yaml_fun \<Rightarrow> ('w, 'z) ContentReader_scheme \<Rightarrow> Input \<Rightarrow> string \<Rightarrow> bool"
where
  "read_approved yaml_unmarshal reader inp file \<longleftrightarrow>
     is_spec_path file \<and>
     (\<exists>w content w'. GetContent reader (in_Owner inp) (in_Repo inp) file (in_HeadSHA inp) w
          = Some (Inr content, w')
        \<and> specApprovedNotCompleted yaml_unmarshal content = Inr True)"

text \<open>The root causes an evaluation can fail with: a read that failed for another reason
  than a missing path, or frontmatter that is no YAML.\<close>

definition read_failure ::
  "yaml_fun \<Rightarrow> ('w, 'z) ContentReader_scheme \<Rightarrow> Input \<Rightarrow> go_error \<Rightarrow> bool"
where
  "read_failure yaml_unmarshal reader inp cause \<longleftrightarrow>
     (\<exists>err. cause = root_cause err \<and>
        ((\<exists>path w w'. GetContent reader (in_Owner inp) (in_Repo inp) path (in_HeadSHA inp) w
             = Some (Inl err, w') \<and> \<not> IsNotFound reader err)
         \<or> (\<exists>w w'. ListDir reader (in_Owner inp) (in_Repo inp) promptsDir (in_HeadSHA inp) w
             = Some (Inl err, w') \<and> \<not> IsNotFound reader err)
         \<or> (\<exists>w w'. ListPRFiles reader (in_Owner inp) (in_Repo inp) (in_Number inp) w
             = Some (Inl err, w'))
         \<or> (\<exists>block. yaml_unmarshal block = Inl err)))"

lemma read_failureI:
  "GetContent reader (in_Owner inp) (in_Repo inp) path (in_HeadSHA inp) w = Some (Inl err, w')
    \<Longrightarrow> \<not> IsNotFound reader err \<Longrightarrow> read_failure y reader inp (root_cause err)"
  "ListDir reader (in_Owner inp) (in_Repo inp) promptsDir (in_HeadSHA inp) w = Some (Inl err, w')
    \<Longrightarrow> \<not> IsNotFound reader err \<Longrightarrow> read_failure y reader inp (root_cause err)"
  "ListPRFiles reader (in_Owner inp) (in_Repo inp) (in_Number inp) w = Some (Inl err, w')
    \<Longrightarrow> read_failure y reader inp (root_cause err)"
  "specApprovedNotCompleted y content = Inl err \<Longrightarrow> read_failure y reader inp (root_cause err)"
  unfolding read_failure_def by (blast dest: spec_error_root)+

lemma matched_loop_step:
  assumes "matched_loop y rd inp (f # fs) matched w = Some (r, w')"
  obtains (skip) w1 where "matched_loop y rd inp fs matched w1 = Some (r, w')"
  | (add) w1 where "matched_loop y rd inp fs (matched @ [f]) w1 = Some (r, w')"
      and "read_approved y rd inp f"
  | (fail) err where "r = Inl err" and "read_failure y rd inp (root_cause err)"
proof (cases "is_spec_path f")
  case False
  with assms skip show ?thesis by simp
next
  case True
  with assms obtain c w1 where
    g: "GetContent rd (in_Owner inp) (in_Repo inp) f (in_HeadSHA inp) w = Some (c, w1)"
    by auto
  show ?thesis
  proof (cases c)
    case (Inl err)
    show ?thesis
    proof (cases "IsNotFound rd err")
      case True
      with assms \<open>is_spec_path f\<close> g Inl skip [of w1] show ?thesis by simp
    next
      case False
      have "read_failure y rd inp (root_cause err)"
        using g [unfolded Inl] False by (rule read_failureI(1))
      moreover have "r = Inl (Wrapped ''get spec %s'' err)"
        using assms \<open>is_spec_path f\<close> g Inl False by simp
      ultimately show ?thesis using fail by simp
    qed
  next
    case (Inr content)
    show ?thesis
    proof (cases "specApprovedNotCompleted y content")
      case (Inl err)
      have "read_failure y rd inp (root_cause err)"
        using Inl by (rule read_failureI(4))
      moreover have "r = Inl (Wrapped ''parse spec %s'' err)"
        using assms True g Inr Inl by simp
      ultimately show ?thesis using fail by simp
    next
      case (Inr approved)
      with assms True g \<open>c = Inr content\<close>
      have loop: "matched_loop y rd inp fs (if approved then matched @ [f] else matched) w1
          = Some (r, w')" by simp
      show ?thesis
      proof (cases approved)
        case False
        with loop skip show ?thesis by simp
      next
        case True
        then have "read_approved y rd inp f"
          unfolding read_approved_def using \<open>is_spec_path f\<close> g \<open>c = Inr content\<close> Inr by auto
        with loop add [of w1] True show ?thesis by simp
      qed
    qed
  qed
qed

lemma matched_loop_ok:
  assumes "matched_loop y rd inp files matched w = Some (Inr ms, w')"
    and "\<forall>f \<in> set matched. f \<in> F \<and> read_approved y rd inp f" and "set files \<subseteq> F"
  shows "\<forall>f \<in> set ms. f \<in> F \<and> read_approved y rd inp f"
  using assms
proof (induction files arbitrary: matched w)
  case (Cons f files)
  from Cons.prems(1) show ?case
  proof (cases rule: matched_loop_step)
    case (skip w1)
    then show ?thesis using Cons.prems(2,3) by (intro Cons.IH [OF skip]) simp_all
  next
    case (add w1)
    then show ?thesis using Cons.prems(2,3) by (intro Cons.IH [OF add(1)]) simp_all
  qed simp
qed simp

lemma matched_loop_error:
  assumes "matched_loop y rd inp files matched w = Some (Inl err, w')"
  shows "read_failure y rd inp (root_cause err)"
  using assms
proof (induction files arbitrary: matched w)
  case (Cons f files)
  from Cons.prems show ?case
  proof (cases rule: matched_loop_step)
    case (skip w1)
    then show ?thesis by (rule Cons.IH)
  next
    case (add w1)
    then show ?thesis using Cons.IH by blast
  qed simp
qed simp

lemma matchedApprovedSpecsInDiff_cases:
  assumes "matchedApprovedSpecsInDiff y rd inp w = Some (r, w')"
  obtains (ok) ms where "r = Inr ms" and "\<forall>f \<in> set ms. read_approved y rd inp f"
      and "\<exists>files w0 w1. ListPRFiles rd (in_Owner inp) (in_Repo inp) (in_Number inp) w0
             = Some (Inr files, w1) \<and> set ms \<subseteq> set files"
  | (fail) err where "r = Inl err" and "read_failure y rd inp (root_cause err)"
proof -
  from assms obtain fs w1 where
    l: "ListPRFiles rd (in_Owner inp) (in_Repo inp) (in_Number inp) w = Some (fs, w1)"
    by (auto simp: matchedApprovedSpecsInDiff_def)
  show ?thesis
  proof (cases fs)
    case (Inl err)
    have "read_failure y rd inp (root_cause err)"
      using l [unfolded Inl] by (rule read_failureI(3))
    moreover have "r = Inl (Wrapped ''list pr files pr=%s/%s#%d'' err)"
      using assms l Inl by (simp add: matchedApprovedSpecsInDiff_def)
    ultimately show ?thesis using fail by simp
  next
    case (Inr files)
    with assms l have m: "matched_loop y rd inp files [] w1 = Some (r, w')"
      by (simp add: matchedApprovedSpecsInDiff_def)
    show ?thesis
    proof (cases r)
      case (Inl err)
      then show ?thesis using fail [OF Inl] matched_loop_error [OF m [unfolded Inl]] by simp
    next
      case (Inr ms)
      from matched_loop_ok [OF m [unfolded Inr], of "set files"]
      have "\<forall>f \<in> set ms. f \<in> set files \<and> read_approved y rd inp f" by simp
      then show ?thesis using ok [OF Inr] l \<open>fs = Inr files\<close> by blast
    qed
  qed
qed

lemma hasQueuedPrompts_cases:
  assumes "hasQueuedPrompts rd inp w = Some (r, w')"
  obtains (ok) b where "r = Inr b"
  | (fail) err where "r = Inl err" and "read_failure y rd inp (root_cause err)"
proof -
  from assms obtain es w1 where
    l: "ListDir rd (in_Owner inp) (in_Repo inp) promptsDir (in_HeadSHA inp) w = Some (es, w1)"
    by (auto simp: hasQueuedPrompts_def)
  show ?thesis
  proof (cases es)
    case (Inl err)
    show ?thesis
    proof (cases "IsNotFound rd err")
      case True
      with assms l Inl ok [of False] show ?thesis by (simp add: hasQueuedPrompts_def)
    next
      case False
      have "read_failure y rd inp (root_cause err)"
        using l [unfolded Inl] False by (rule read_failureI(2))
      moreover have "r = Inl (Wrapped ''list %s'' err)"
        using assms l Inl False by (simp add: hasQueuedPrompts_def)
      ultimately show ?thesis using fail by simp
    qed
  next
    case (Inr entries)
    with assms l ok [of "list_ex (\<lambda>e. has_suffix e ''.md'') entries"] show ?thesis
      by (simp add: hasQueuedPrompts_def)
  qed
qed

text \<open>Every run of the evaluator that returns, by the branch it takes.\<close>

lemma Evaluate_cases:
  assumes "Evaluate y rd inp w = Some (r, w')"
  obtains (not_draft) "\<not> in_IsDraft inp" and "r = Inr (skip ReasonNotDraft)" and "w' = w"
  | (not_open) "in_IsDraft inp" and "in_State inp \<noteq> ''open''"
      and "r = Inr (skip ReasonNotOpen)" and "w' = w"
  | (no_yaml) err where "in_IsDraft inp" and "in_State inp = ''open''"
      and "GetContent rd (in_Owner inp) (in_Repo inp) darkFactoryConfigFile (in_HeadSHA inp) w
             = Some (Inl err, w')" and "IsNotFound rd err"
      and "r = Inr (skip ReasonNoDarkFactoryYML)"
  | (no_spec) c w1 where "in_IsDraft inp" and "in_State inp = ''open''"
      and "GetContent rd (in_Owner inp) (in_Repo inp) darkFactoryConfigFile (in_HeadSHA inp) w
             = Some (Inr c, w1)"
      and "matchedApprovedSpecsInDiff y rd inp w1 = Some (Inr [], w')"
      and "r = Inr (skip ReasonNoSpecInDiff)"
  | (keep) c w1 ms q w2 where "in_IsDraft inp" and "in_State inp = ''open''"
      and "GetContent rd (in_Owner inp) (in_Repo inp) darkFactoryConfigFile (in_HeadSHA inp) w
             = Some (Inr c, w1)"
      and "matchedApprovedSpecsInDiff y rd inp w1 = Some (Inr ms, w2)" and "ms \<noteq> []"
      and "hasQueuedPrompts rd inp w2 = Some (Inr q, w')"
      and "r = Inr \<lparr>Keep = True, Reason = '''', MatchedSpecs = ms, PromptsQueued = q\<rparr>"
  | (fail) err where "in_IsDraft inp" and "in_State inp = ''open''" and "r = Inl err"
      and "read_failure y rd inp (root_cause err)"
proof -
  consider "\<not> in_IsDraft inp" | "in_IsDraft inp" "in_State inp \<noteq> ''open''"
    | "in_IsDraft inp" "in_State inp = ''open''" by blast
  then show ?thesis
  proof cases
    case 1
    with assms not_draft show ?thesis by (simp add: Evaluate_def)
  next
    case 2
    with assms not_open show ?thesis by (simp add: Evaluate_def)
  next
    case 3
    with assms obtain g w1 where
      g: "GetContent rd (in_Owner inp) (in_Repo inp) darkFactoryConfigFile (in_HeadSHA inp) w
        = Some (g, w1)"
      by (auto simp: Evaluate_def)
    note ev = assms [unfolded Evaluate_def]
    show ?thesis
    proof (cases g)
      case (Inl err)
      show ?thesis
      proof (cases "IsNotFound rd err")
        case True
        with ev g Inl 3 no_yaml show ?thesis by simp
      next
        case False
        with ev g Inl 3 have "r = Inl (Wrapped ''get %s'' err)" by simp
        with fail 3 read_failureI(1) [OF g [unfolded Inl] False] show ?thesis by simp
      qed
    next
      case (Inr c)
      with ev g 3 obtain m w2 where m: "matchedApprovedSpecsInDiff y rd inp w1 = Some (m, w2)"
        by auto
      from m show ?thesis
      proof (cases rule: matchedApprovedSpecsInDiff_cases)
        case (fail err)
        with ev g Inr 3 m have "r = Inl (Wrapped ''check approved spec in diff'' err)" by simp
        with that(6) 3 fail show ?thesis by simp
      next
        case (ok ms)
        show ?thesis
        proof (cases "ms = []")
          case True
          with ev g Inr 3 m ok no_spec show ?thesis by simp
        next
          case False
          with ev g Inr 3 m ok obtain q w3 where q: "hasQueuedPrompts rd inp w2 = Some (q, w3)"
            by auto
          from q show ?thesis
          proof (cases rule: hasQueuedPrompts_cases [where y = y])
            case (fail err)
            with ev g Inr 3 m ok False q have "r = Inl (Wrapped ''check queued prompts'' err)"
              by simp
            with that(6) 3 fail show ?thesis by simp
          next
            case (ok b)
            with ev g Inr 3 m \<open>m = Inr ms\<close> False q keep show ?thesis by simp
          qed
        qed
      qed
    qed
  qed
qed

lemma skip_simps [simp]:
  "\<not> Keep (skip reason)" "Reason (skip reason) = reason" "MatchedSpecs (skip reason) = []"
  "\<not> PromptsQueued (skip reason)"
  by (simp_all add: skip_def)

subsection \<open>Properties of the evaluator\<close>

text \<open>A pull request to try the properties on.\<close>

definition example_spec :: string where
  "example_spec = ''---'' @ CHR 0x0A # ''approved: yes'' @ CHR 0x0A # ''---'' @ [CHR 0x0A]"

definition example_yaml :: yaml_fun where
  "example_yaml block = Inr (Some [(''approved'', YString ''yes'')])"

definition example_reader :: "unit ContentReader" where
  "example_reader =
     \<lparr>ListPRFiles = (\<lambda>owner repo number w. Some (Inr [''specs/in-progress/1.md'', ''x.go''], w)),
      GetContent = (\<lambda>owner repo path ref w.
        if path = ''specs/in-progress/1.md'' then Some (Inr example_spec, w)
        else if path = darkFactoryConfigFile then Some (Inr '''', w)
        else Some (Inl (ErrorResponse (Some 404)), w)),
      ListDir = (\<lambda>owner repo path ref w. Some (Inl (ErrorResponse (Some 404)), w)),
      IsNotFound = (\<lambda>err. err = ErrorResponse (Some 404))\<rparr>"

definition example_input :: Input where
  "example_input = \<lparr>in_Owner = ''bborbe'', in_Repo = ''widget'', in_Number = 42,
     in_HeadSHA = ''abc123'', in_IsDraft = True, in_State = ''open''\<rparr>"

lemma trim_space_yes: "trim_space ''yes'' = ''yes''"
  by (rule trim_plain; simp add: space_eval)

lemma example_spec_approved: "specApprovedNotCompleted example_yaml example_spec = Inr True"
  using trim_space_yes
  by (simp add: specApprovedNotCompleted_def parseFrontmatter_def example_spec_def example_yaml_def
      trim_prefix_def frontmatterSet_def map_get_def)

lemma example_evaluates:
  "Evaluate example_yaml example_reader example_input ()
    = Some (Inr \<lparr>Keep = True, Reason = '''', MatchedSpecs = [''specs/in-progress/1.md''],
                PromptsQueued = False\<rparr>, ())"
  using example_spec_approved
  by (simp add: Evaluate_def example_reader_def example_input_def darkFactoryConfigFile_def
      matchedApprovedSpecsInDiff_def is_spec_path_def specDir_def has_suffix_def
      hasQueuedPrompts_def)

subsection \<open>What an evaluation reads\<close>

text \<open>
  The reads of an evaluation as relations, independent of the loops: \<open>specs_read\<close> goes
  through the touched files, asks for the specs among them only, passes over what is missing,
  and collects what is approved; \<open>specs_fail\<close> says at which file it cannot go on, and with
  what error.
\<close>

inductive specs_read ::
  "yaml_fun \<Rightarrow> ('w, 'z) ContentReader_scheme \<Rightarrow> Input \<Rightarrow> string list \<Rightarrow> 'w \<Rightarrow> string list \<Rightarrow> 'w \<Rightarrow> bool"
  for y rd inp
where
  sr_end: "specs_read y rd inp [] w [] w"
| sr_other: "\<not> is_spec_path f \<Longrightarrow> specs_read y rd inp fs w ms w' \<Longrightarrow> specs_read y rd inp (f # fs) w ms w'"
| sr_missing: "is_spec_path f
    \<Longrightarrow> GetContent rd (in_Owner inp) (in_Repo inp) f (in_HeadSHA inp) w = Some (Inl err, w1)
    \<Longrightarrow> IsNotFound rd err \<Longrightarrow> specs_read y rd inp fs w1 ms w' \<Longrightarrow> specs_read y rd inp (f # fs) w ms w'"
| sr_rejected: "is_spec_path f
    \<Longrightarrow> GetContent rd (in_Owner inp) (in_Repo inp) f (in_HeadSHA inp) w = Some (Inr content, w1)
    \<Longrightarrow> specApprovedNotCompleted y content = Inr False
    \<Longrightarrow> specs_read y rd inp fs w1 ms w' \<Longrightarrow> specs_read y rd inp (f # fs) w ms w'"
| sr_approved: "is_spec_path f
    \<Longrightarrow> GetContent rd (in_Owner inp) (in_Repo inp) f (in_HeadSHA inp) w = Some (Inr content, w1)
    \<Longrightarrow> specApprovedNotCompleted y content = Inr True
    \<Longrightarrow> specs_read y rd inp fs w1 ms w' \<Longrightarrow> specs_read y rd inp (f # fs) w (f # ms) w'"

inductive_simps specs_read_simps:
  "specs_read y rd inp [] w ms w'"
  "specs_read y rd inp (f # fs) w ms w'"

definition spec_fails ::
  "yaml_fun \<Rightarrow> ('w, 'z) ContentReader_scheme \<Rightarrow> Input \<Rightarrow> string \<Rightarrow> 'w \<Rightarrow> go_error \<Rightarrow> 'w \<Rightarrow> bool"
where
  "spec_fails y rd inp f w err w' \<longleftrightarrow> is_spec_path f \<and>
     ((\<exists>e. GetContent rd (in_Owner inp) (in_Repo inp) f (in_HeadSHA inp) w = Some (Inl e, w')
         \<and> \<not> IsNotFound rd e \<and> err = Wrapped ''get spec %s'' e)
      \<or> (\<exists>content e. GetContent rd (in_Owner inp) (in_Repo inp) f (in_HeadSHA inp) w
             = Some (Inr content, w')
         \<and> specApprovedNotCompleted y content = Inl e \<and> err = Wrapped ''parse spec %s'' e))"

definition specs_fail ::
  "yaml_fun \<Rightarrow> ('w, 'z) ContentReader_scheme \<Rightarrow> Input \<Rightarrow> string list \<Rightarrow> 'w \<Rightarrow> go_error \<Rightarrow> 'w \<Rightarrow> bool"
where
  "specs_fail y rd inp files w err w' \<longleftrightarrow>
     (\<exists>before f after ms w1. files = before @ f # after
        \<and> specs_read y rd inp before w ms w1 \<and> spec_fails y rd inp f w1 err w')"

definition config_read :: "('w, 'z) ContentReader_scheme \<Rightarrow> Input \<Rightarrow> 'w \<Rightarrow> 'w \<Rightarrow> bool" where
  "config_read rd inp w w' \<longleftrightarrow>
     (\<exists>c. GetContent rd (in_Owner inp) (in_Repo inp) darkFactoryConfigFile (in_HeadSHA inp) w
        = Some (Inr c, w'))"

definition diff_read ::
  "yaml_fun \<Rightarrow> ('w, 'z) ContentReader_scheme \<Rightarrow> Input \<Rightarrow> 'w \<Rightarrow> string list \<Rightarrow> 'w \<Rightarrow> bool"
where
  "diff_read y rd inp w ms w' \<longleftrightarrow>
     (\<exists>w1 files w2. config_read rd inp w w1
        \<and> ListPRFiles rd (in_Owner inp) (in_Repo inp) (in_Number inp) w1 = Some (Inr files, w2)
        \<and> specs_read y rd inp files w2 ms w')"

definition prompts_read ::
  "('w, 'z) ContentReader_scheme \<Rightarrow> Input \<Rightarrow> 'w \<Rightarrow> bool \<Rightarrow> 'w \<Rightarrow> bool"
where
  "prompts_read rd inp w queued w' \<longleftrightarrow>
     (\<exists>e. ListDir rd (in_Owner inp) (in_Repo inp) promptsDir (in_HeadSHA inp) w = Some (Inl e, w')
        \<and> IsNotFound rd e \<and> \<not> queued)
     \<or> (\<exists>entries. ListDir rd (in_Owner inp) (in_Repo inp) promptsDir (in_HeadSHA inp) w
          = Some (Inr entries, w')
        \<and> queued = (\<exists>entry \<in> set entries. has_suffix entry ''.md''))"

text \<open>The failures of an evaluation, in the order of the reads, each with the error returned.\<close>

definition evaluation_fails ::
  "yaml_fun \<Rightarrow> ('w, 'z) ContentReader_scheme \<Rightarrow> Input \<Rightarrow> 'w \<Rightarrow> go_error \<Rightarrow> 'w \<Rightarrow> bool"
where
  "evaluation_fails y rd inp w err w' \<longleftrightarrow>
     (\<exists>e. GetContent rd (in_Owner inp) (in_Repo inp) darkFactoryConfigFile (in_HeadSHA inp) w
          = Some (Inl e, w') \<and> \<not> IsNotFound rd e \<and> err = Wrapped ''get %s'' e)
     \<or> (\<exists>w1 e. config_read rd inp w w1
        \<and> ListPRFiles rd (in_Owner inp) (in_Repo inp) (in_Number inp) w1 = Some (Inl e, w')
        \<and> err = Wrapped ''check approved spec in diff'' (Wrapped ''list pr files pr=%s/%s#%d'' e))
     \<or> (\<exists>w1 files w2 e. config_read rd inp w w1
        \<and> ListPRFiles rd (in_Owner inp) (in_Repo inp) (in_Number inp) w1 = Some (Inr files, w2)
        \<and> specs_fail y rd inp files w2 e w' \<and> err = Wrapped ''check approved spec in diff'' e)
     \<or> (\<exists>ms w1 e. diff_read y rd inp w ms w1 \<and> ms \<noteq> []
        \<and> ListDir rd (in_Owner inp) (in_Repo inp) promptsDir (in_HeadSHA inp) w1 = Some (Inl e, w')
        \<and> \<not> IsNotFound rd e \<and> err = Wrapped ''check queued prompts'' (Wrapped ''list %s'' e))"

lemma matched_loop_iff:
  "matched_loop y rd inp files m w = Some (Inr r, w') \<longleftrightarrow>
     (\<exists>ms. r = m @ ms \<and> specs_read y rd inp files w ms w')"
proof (induction files arbitrary: m w)
  case Nil
  show ?case by (auto simp: specs_read_simps)
next
  case (Cons f fs)
  show ?case
  proof (cases "is_spec_path f")
    case False
    then show ?thesis using Cons.IH by (simp add: specs_read_simps)
  next
    case True
    show ?thesis
    proof (cases "GetContent rd (in_Owner inp) (in_Repo inp) f (in_HeadSHA inp) w")
      case None
      with True show ?thesis by (simp add: specs_read_simps)
    next
      case (Some p)
      obtain c w1 where p: "p = (c, w1)" by (cases p)
      show ?thesis
      proof (cases c)
        case (Inl e)
        with True Some p Cons.IH show ?thesis by (simp add: specs_read_simps)
      next
        case (Inr content)
        show ?thesis
        proof (cases "specApprovedNotCompleted y content")
          case (Inl e)
          with True Some p Inr show ?thesis by (simp add: specs_read_simps)
        next
          case (Inr b)
          with True Some p \<open>c = Inr content\<close> Cons.IH show ?thesis
            by (cases b) (auto simp: specs_read_simps)
        qed
      qed
    qed
  qed
qed

lemma specs_fail_Nil [simp]: "\<not> specs_fail y rd inp [] w err w'"
  by (simp add: specs_fail_def)

lemma specs_fail_Cons:
  "specs_fail y rd inp (f # fs) w err w' \<longleftrightarrow>
     spec_fails y rd inp f w err w'
     \<or> (\<exists>ms w1. specs_read y rd inp [f] w ms w1 \<and> specs_fail y rd inp fs w1 err w')"
proof
  assume "specs_fail y rd inp (f # fs) w err w'"
  then obtain before g after ms w1 where
    eq: "f # fs = before @ g # after"
    and r: "specs_read y rd inp before w ms w1" and s: "spec_fails y rd inp g w1 err w'"
    by (auto simp: specs_fail_def)
  show "spec_fails y rd inp f w err w'
     \<or> (\<exists>ms w1. specs_read y rd inp [f] w ms w1 \<and> specs_fail y rd inp fs w1 err w')"
  proof (cases before)
    case Nil
    with eq r s show ?thesis by (auto simp: specs_read_simps)
  next
    case (Cons f' before')
    with r obtain ms1 w2 ms2 where "specs_read y rd inp [f] w ms1 w2"
      and "specs_read y rd inp before' w2 ms2 w1"
      using eq by (auto simp: specs_read_simps)
    moreover from eq Cons s calculation(2) have "specs_fail y rd inp fs w2 err w'"
      unfolding specs_fail_def by auto
    ultimately show ?thesis by blast
  qed
next
  assume "spec_fails y rd inp f w err w'
     \<or> (\<exists>ms w1. specs_read y rd inp [f] w ms w1 \<and> specs_fail y rd inp fs w1 err w')"
  then show "specs_fail y rd inp (f # fs) w err w'"
  proof
    assume "spec_fails y rd inp f w err w'"
    then show ?thesis unfolding specs_fail_def using sr_end by (metis append_Nil)
  next
    assume "\<exists>ms w1. specs_read y rd inp [f] w ms w1 \<and> specs_fail y rd inp fs w1 err w'"
    then obtain ms w1 before g after ms2 w2 where f: "specs_read y rd inp [f] w ms w1"
      and fs: "fs = before @ g # after" and r: "specs_read y rd inp before w1 ms2 w2"
      and s: "spec_fails y rd inp g w2 err w'"
      by (auto simp: specs_fail_def)
    from f r have "\<exists>ms. specs_read y rd inp (f # before) w ms w2"
      by (auto simp: specs_read_simps)
    with fs s show ?thesis unfolding specs_fail_def by (metis append_Cons)
  qed
qed

lemma matched_loop_fail_iff:
  "matched_loop y rd inp files m w = Some (Inl err, w') \<longleftrightarrow> specs_fail y rd inp files w err w'"
proof (induction files arbitrary: m w)
  case Nil
  show ?case by simp
next
  case (Cons f fs)
  show ?case
  proof (cases "is_spec_path f")
    case False
    then show ?thesis
      using Cons.IH by (simp add: specs_fail_Cons specs_read_simps spec_fails_def)
  next
    case True
    show ?thesis
    proof (cases "GetContent rd (in_Owner inp) (in_Repo inp) f (in_HeadSHA inp) w")
      case None
      with True show ?thesis by (simp add: specs_fail_Cons specs_read_simps spec_fails_def)
    next
      case (Some p)
      obtain c w1 where p: "p = (c, w1)" by (cases p)
      show ?thesis
      proof (cases c)
        case (Inl e)
        with True Some p Cons.IH show ?thesis
          by (auto simp: specs_fail_Cons specs_read_simps spec_fails_def)
      next
        case (Inr content)
        show ?thesis
        proof (cases "specApprovedNotCompleted y content")
          case (Inl e)
          with True Some p Inr show ?thesis
            by (auto simp: specs_fail_Cons specs_read_simps spec_fails_def)
        next
          case (Inr b)
          with True Some p \<open>c = Inr content\<close> Cons.IH show ?thesis
            by (cases b) (auto simp: specs_fail_Cons specs_read_simps spec_fails_def)
        qed
      qed
    qed
  qed
qed

lemma hasQueuedPrompts_iff:
  "hasQueuedPrompts rd inp w = Some (Inr q, w') \<longleftrightarrow> prompts_read rd inp w q w'"
  by (auto simp: hasQueuedPrompts_def prompts_read_def list_ex_iff
      split: Option.bind_splits sum.splits if_splits)

lemma hasQueuedPrompts_fail_iff:
  "hasQueuedPrompts rd inp w = Some (Inl err, w') \<longleftrightarrow>
     (\<exists>e. ListDir rd (in_Owner inp) (in_Repo inp) promptsDir (in_HeadSHA inp) w = Some (Inl e, w')
        \<and> \<not> IsNotFound rd e \<and> err = Wrapped ''list %s'' e)"
  by (auto simp: hasQueuedPrompts_def split: Option.bind_splits sum.splits if_splits)

lemma matched_iff:
  "matchedApprovedSpecsInDiff y rd inp w = Some (Inr ms, w') \<longleftrightarrow>
     (\<exists>files w2. ListPRFiles rd (in_Owner inp) (in_Repo inp) (in_Number inp) w = Some (Inr files, w2)
        \<and> specs_read y rd inp files w2 ms w')"
  by (auto simp: matchedApprovedSpecsInDiff_def matched_loop_iff
      split: Option.bind_splits sum.splits)

lemma matched_fail_iff:
  "matchedApprovedSpecsInDiff y rd inp w = Some (Inl err, w') \<longleftrightarrow>
     (\<exists>e. ListPRFiles rd (in_Owner inp) (in_Repo inp) (in_Number inp) w = Some (Inl e, w')
        \<and> err = Wrapped ''list pr files pr=%s/%s#%d'' e)
     \<or> (\<exists>files w2. ListPRFiles rd (in_Owner inp) (in_Repo inp) (in_Number inp) w
          = Some (Inr files, w2) \<and> specs_fail y rd inp files w2 err w')"
  by (auto simp: matchedApprovedSpecsInDiff_def matched_loop_fail_iff
      split: Option.bind_splits sum.splits)

lemma specs_read_sound:
  "specs_read y rd inp files w ms w' \<Longrightarrow> set ms \<subseteq> set files \<and> (\<forall>f \<in> set ms. read_approved y rd inp f)"
  by (induction rule: specs_read.induct) (auto simp: read_approved_def)

lemma diff_read_sound: "diff_read y rd inp w ms w' \<Longrightarrow> \<forall>f \<in> set ms. read_approved y rd inp f"
  by (auto simp: diff_read_def dest: specs_read_sound)

lemma Evaluate_keeps_iff:
  "Evaluate y rd inp w = Some (Inr r, w') \<and> Keep r \<longleftrightarrow>
     in_IsDraft inp \<and> in_State inp = ''open'' \<and> Keep r \<and> Reason r = '''' \<and> MatchedSpecs r \<noteq> []
     \<and> (\<exists>w1. diff_read y rd inp w (MatchedSpecs r) w1 \<and> prompts_read rd inp w1 (PromptsQueued r) w')"
proof (cases "in_IsDraft inp \<and> in_State inp = ''open''")
  case False
  then show ?thesis by (auto simp: Evaluate_def)
next
  case True
  show ?thesis (is "?L \<longleftrightarrow> ?R")
  proof
    assume L: ?L
    then have "Evaluate y rd inp w = Some (Inr r, w')" by simp
    then show ?R
      by (cases rule: Evaluate_cases)
        (use L True in \<open>auto simp: diff_read_def config_read_def matched_iff hasQueuedPrompts_iff\<close>)
  next
    assume R: ?R
    then obtain w1 c w0 where q: "hasQueuedPrompts rd inp w1 = Some (Inr (PromptsQueued r), w')"
      and c: "GetContent rd (in_Owner inp) (in_Repo inp) darkFactoryConfigFile (in_HeadSHA inp) w
        = Some (Inr c, w0)"
      and m: "matchedApprovedSpecsInDiff y rd inp w0 = Some (Inr (MatchedSpecs r), w1)"
      by (auto simp: diff_read_def config_read_def matched_iff hasQueuedPrompts_iff)
    have "r = \<lparr>Keep = True, Reason = '''', MatchedSpecs = MatchedSpecs r,
        PromptsQueued = PromptsQueued r\<rparr>"
      using R by (cases r) simp
    with True R q c m show ?L by (simp add: Evaluate_def)
  qed
qed

lemma Evaluate_fails_iff:
  "Evaluate y rd inp w = Some (Inl err, w') \<longleftrightarrow>
     in_IsDraft inp \<and> in_State inp = ''open'' \<and> evaluation_fails y rd inp w err w'"
proof (cases "in_IsDraft inp \<and> in_State inp = ''open''")
  case False
  then show ?thesis by (auto simp: Evaluate_def)
next
  case True
  show ?thesis
  proof (cases "GetContent rd (in_Owner inp) (in_Repo inp) darkFactoryConfigFile (in_HeadSHA inp) w")
    case None
    with True show ?thesis
      by (simp add: Evaluate_def evaluation_fails_def config_read_def diff_read_def)
  next
    case (Some p)
    obtain c w1 where p: "p = (c, w1)" by (cases p)
    show ?thesis
    proof (cases c)
      case (Inl e)
      with True Some p show ?thesis
        by (auto simp: Evaluate_def evaluation_fails_def config_read_def diff_read_def)
    next
      case (Inr content)
      note c = Some [unfolded p Inr]
      have d: "diff_read y rd inp w ms w2 \<longleftrightarrow>
          matchedApprovedSpecsInDiff y rd inp w1 = Some (Inr ms, w2)" for ms w2
        using c by (auto simp: diff_read_def config_read_def matched_iff)
      have "evaluation_fails y rd inp w err w' \<longleftrightarrow>
          (\<exists>e. matchedApprovedSpecsInDiff y rd inp w1 = Some (Inl e, w')
             \<and> err = Wrapped ''check approved spec in diff'' e)
          \<or> (\<exists>ms w2 e. matchedApprovedSpecsInDiff y rd inp w1 = Some (Inr ms, w2) \<and> ms \<noteq> []
             \<and> hasQueuedPrompts rd inp w2 = Some (Inl e, w')
             \<and> err = Wrapped ''check queued prompts'' e)"
        unfolding evaluation_fails_def d matched_fail_iff hasQueuedPrompts_fail_iff
        using c by (auto simp: config_read_def)
      with True c show ?thesis
        by (auto simp: Evaluate_def split: Option.bind_splits sum.splits if_splits)
    qed
  qed
qed

lemma evaluation_fails_root:
  "evaluation_fails y rd inp w err w' \<Longrightarrow> read_failure y rd inp (root_cause err)"
  unfolding evaluation_fails_def specs_fail_def spec_fails_def
  by (elim disjE exE conjE) (auto intro: read_failureI)

lemma skip_eq [simp]: "skip a = skip b \<longleftrightarrow> a = b"
  by (simp add: skip_def)

lemma Evaluate_not_draft_iff:
  "Evaluate y rd inp w = Some (Inr (skip ''not_draft''), w') \<longleftrightarrow> \<not> in_IsDraft inp \<and> w' = w"
proof
  assume "Evaluate y rd inp w = Some (Inr (skip ''not_draft''), w')"
  then show "\<not> in_IsDraft inp \<and> w' = w"
    by (cases rule: Evaluate_cases) (auto simp: reason_defs skip_def)
qed (simp add: Evaluate_def reason_defs)

lemma Evaluate_not_open_iff:
  "Evaluate y rd inp w = Some (Inr (skip ''not_open''), w') \<longleftrightarrow>
     in_IsDraft inp \<and> in_State inp \<noteq> ''open'' \<and> w' = w"
proof
  assume "Evaluate y rd inp w = Some (Inr (skip ''not_open''), w')"
  then show "in_IsDraft inp \<and> in_State inp \<noteq> ''open'' \<and> w' = w"
    by (cases rule: Evaluate_cases) (auto simp: reason_defs skip_def)
qed (simp add: Evaluate_def reason_defs)

lemma Evaluate_no_yaml_iff:
  "Evaluate y rd inp w = Some (Inr (skip ''no_dark_factory_yaml''), w') \<longleftrightarrow>
     in_IsDraft inp \<and> in_State inp = ''open''
     \<and> (\<exists>err. GetContent rd (in_Owner inp) (in_Repo inp) darkFactoryConfigFile (in_HeadSHA inp) w
           = Some (Inl err, w') \<and> IsNotFound rd err)" (is "_ \<longleftrightarrow> ?R")
proof
  assume "Evaluate y rd inp w = Some (Inr (skip ''no_dark_factory_yaml''), w')"
  then show ?R by (cases rule: Evaluate_cases) (auto simp: reason_defs skip_def)
qed (auto simp: Evaluate_def reason_defs)

lemma Evaluate_no_spec_iff:
  "Evaluate y rd inp w = Some (Inr (skip ''no_spec_in_diff''), w') \<longleftrightarrow>
     in_IsDraft inp \<and> in_State inp = ''open'' \<and> diff_read y rd inp w [] w'" (is "_ \<longleftrightarrow> ?R")
proof
  assume "Evaluate y rd inp w = Some (Inr (skip ''no_spec_in_diff''), w')"
  then show ?R
    by (cases rule: Evaluate_cases)
      (auto simp: reason_defs skip_def diff_read_def config_read_def matched_iff)
next
  assume R: ?R
  then obtain c w1 where
    "GetContent rd (in_Owner inp) (in_Repo inp) darkFactoryConfigFile (in_HeadSHA inp) w
      = Some (Inr c, w1)" and "matchedApprovedSpecsInDiff y rd inp w1 = Some (Inr [], w')"
    by (auto simp: diff_read_def config_read_def matched_iff)
  with R show "Evaluate y rd inp w = Some (Inr (skip ''no_spec_in_diff''), w')"
    by (simp add: Evaluate_def reason_defs)
qed

lemma Evaluate_skips_cases:
  assumes "Evaluate y rd inp w = Some (Inr v, w')" and "\<not> Keep v"
  shows "v \<in> {skip ''not_draft'', skip ''not_open'', skip ''no_dark_factory_yaml'',
    skip ''no_spec_in_diff''}"
  using assms(1) by (cases rule: Evaluate_cases) (use assms(2) in \<open>auto simp: reason_defs\<close>)

text \<open>
  C22: A pull request is kept exactly when it is an open draft, the configuration file was
  read at the head commit, and reading the specs its diff touches leaves at least one
  approved and not completed one. The verdict lists exactly those, in the order of the diff:
  Markdown files under \<open>specs/in-progress/\<close>, read at the head commit; what is missing there
  is passed over. The listing of the prompts directory is read after that and only reported:
  a Markdown file there, or no such directory, makes no difference to the verdict.
\<close>

theorem Evaluate_keeps_exactly:
  "(Evaluate y rd inp w = Some (Inr r, w') \<and> Keep r \<longleftrightarrow>
      in_IsDraft inp \<and> in_State inp = ''open'' \<and> Keep r \<and> Reason r = '''' \<and> MatchedSpecs r \<noteq> []
      \<and> (\<exists>w1. diff_read y rd inp w (MatchedSpecs r) w1
            \<and> prompts_read rd inp w1 (PromptsQueued r) w'))
   \<and> (Evaluate y rd inp w = Some (Inr r, w') \<and> Keep r \<longrightarrow>
      (\<forall>f \<in> set (MatchedSpecs r). read_approved y rd inp f))"
proof (intro conjI impI)
  assume "Evaluate y rd inp w = Some (Inr r, w') \<and> Keep r"
  then obtain w1 where "diff_read y rd inp w (MatchedSpecs r) w1"
    unfolding Evaluate_keeps_iff by blast
  then show "\<forall>f \<in> set (MatchedSpecs r). read_approved y rd inp f" by (rule diff_read_sound)
qed (rule Evaluate_keeps_iff)

theorem Evaluate_keeps_exactly_witness:
  "read_approved example_yaml example_reader example_input ''specs/in-progress/1.md''"
  using Evaluate_keeps_exactly [of example_yaml example_reader example_input "()"
      "\<lparr>Keep = True, Reason = '''', MatchedSpecs = [''specs/in-progress/1.md''],
        PromptsQueued = False\<rparr>" "()"] example_evaluates by simp

text \<open>
  C23: A skip carries one of the four reasons, each exactly under its own condition, stated
  over what the reads answered, and a run fails exactly when one of its reads, in their
  order, fails for another reason than a missing path, or a touched spec is no YAML; the
  error returned wraps that failure. So no failure is taken for a verdict, and a spec that is
  absent at the head is no failure.
\<close>

theorem Evaluate_skip_or_error:
  "(Evaluate y rd inp w = Some (Inr (skip ''not_draft''), w') \<longleftrightarrow> \<not> in_IsDraft inp \<and> w' = w)
   \<and> (Evaluate y rd inp w = Some (Inr (skip ''not_open''), w') \<longleftrightarrow>
       in_IsDraft inp \<and> in_State inp \<noteq> ''open'' \<and> w' = w)
   \<and> (Evaluate y rd inp w = Some (Inr (skip ''no_dark_factory_yaml''), w') \<longleftrightarrow>
       in_IsDraft inp \<and> in_State inp = ''open''
       \<and> (\<exists>err. GetContent rd (in_Owner inp) (in_Repo inp) darkFactoryConfigFile (in_HeadSHA inp) w
             = Some (Inl err, w') \<and> IsNotFound rd err))
   \<and> (Evaluate y rd inp w = Some (Inr (skip ''no_spec_in_diff''), w') \<longleftrightarrow>
       in_IsDraft inp \<and> in_State inp = ''open'' \<and> diff_read y rd inp w [] w')
   \<and> (Evaluate y rd inp w = Some (Inl err, w') \<longleftrightarrow>
       in_IsDraft inp \<and> in_State inp = ''open'' \<and> evaluation_fails y rd inp w err w')
   \<and> (\<forall>v. Evaluate y rd inp w = Some (Inr v, w') \<and> \<not> Keep v \<longrightarrow>
       v \<in> {skip ''not_draft'', skip ''not_open'', skip ''no_dark_factory_yaml'',
             skip ''no_spec_in_diff''})
   \<and> (evaluation_fails y rd inp w err w' \<longrightarrow> read_failure y rd inp (root_cause err))"
  by (intro conjI allI impI Evaluate_not_draft_iff Evaluate_not_open_iff Evaluate_no_yaml_iff
      Evaluate_no_spec_iff Evaluate_fails_iff)
    (auto dest: Evaluate_skips_cases intro: evaluation_fails_root)

theorem Evaluate_skip_or_error_witness:
  "Evaluate example_yaml example_reader (example_input\<lparr>in_State := ''closed''\<rparr>) ()
     = Some (Inr (skip ''not_open''), ())"
  using Evaluate_skip_or_error [of example_yaml example_reader "example_input\<lparr>in_State := ''closed''\<rparr>" "()"
      "()"] by (simp add: example_input_def)

text \<open>
  C32: The verdict on a spec file depends only on the YAML block between the leading
  \<open>---\<close> line and the next line that starts with \<open>---\<close>: it is approved and not completed
  exactly when \<open>approved\<close> is set and \<open>completed\<close> is not, and carriage returns before the
  line ends make no difference. Without a leading block nothing is approved.
\<close>

theorem specApprovedNotCompleted_block:
  assumes "CHR 0x0D \<notin> set doc"
    and "doc = ''---'' @ CHR 0x0A # block @ CHR 0x0A # ''---'' @ rest"
    and "strings_index block (CHR 0x0A # ''---'') = None"
    and "yaml_unmarshal block = Inr fm"
  shows "specApprovedNotCompleted yaml_unmarshal doc
      = Inr (frontmatterSet fm ''approved'' \<and> \<not> frontmatterSet fm ''completed'')
    \<and> specApprovedNotCompleted yaml_unmarshal (crlf doc)
      = specApprovedNotCompleted yaml_unmarshal doc
    \<and> (\<forall>plain. \<not> has_prefix (replace_crlf plain) (''---'' @ [CHR 0x0A]) \<longrightarrow>
        specApprovedNotCompleted yaml_unmarshal plain = Inr False)"
proof -
  have nil: "\<not> frontmatterSet None k" for k by (simp add: frontmatterSet_def map_get_def)
  have "parseFrontmatter yaml_unmarshal d = (if fm = None then Inr make_map else Inr fm)"
    if "replace_crlf d = doc" for d
    using parseFrontmatter_block [of d block rest, OF _ assms(3)] that assms(2,4) by simp
  from this [OF replace_crlf_id [OF assms(1)]] this [OF replace_crlf_crlf [OF assms(1)]]
  show ?thesis
    using parseFrontmatter_none nil by (auto simp: specApprovedNotCompleted_def)
qed

theorem specApprovedNotCompleted_block_witness:
  "specApprovedNotCompleted example_yaml (crlf example_spec) = Inr True"
proof -
  have cr: "CHR 0x0D \<notin> set example_spec" by (simp add: example_spec_def)
  have doc: "example_spec
      = ''---'' @ CHR 0x0A # ''approved: yes'' @ CHR 0x0A # ''---'' @ [CHR 0x0A]"
    by (simp add: example_spec_def)
  show ?thesis
    using specApprovedNotCompleted_block [OF cr doc, of example_yaml
        "Some [(''approved'', YString ''yes'')]"] example_spec_approved
    by (simp add: example_yaml_def)
qed

subsection \<open>The evaluator against a snapshot of the repository\<close>

text \<open>
  The contract the evaluator relies on while one pull request does not change: the reader
  serves a fixed diff, a fixed tree of files and a fixed listing of the prompts directory
  at the head commit (\<open>None\<close> where there is none), and what is missing of the paths the
  evaluator reads surfaces as an error that \<open>IsNotFound\<close> recognises.
\<close>

locale repo_snapshot =
  fixes rd :: "('w, 'z) ContentReader_scheme"
    and owner :: string and repo :: string and number :: int and ref :: string
    and diff :: "string list"
    and tree :: "string \<Rightarrow> string option"
    and prompts :: "string list option"
  assumes files_served: "\<exists>w'. ListPRFiles rd owner repo number w = Some (Inr diff, w')"
    and file_served: "tree path = Some content \<Longrightarrow>
      \<exists>w'. GetContent rd owner repo path ref w = Some (Inr content, w')"
    and file_missing: "tree path = None \<Longrightarrow> is_spec_path path \<or> path = darkFactoryConfigFile \<Longrightarrow>
      \<exists>err w'. GetContent rd owner repo path ref w = Some (Inl err, w') \<and> IsNotFound rd err"
    and dir_served: "prompts = Some entries \<Longrightarrow>
      \<exists>w'. ListDir rd owner repo promptsDir ref w = Some (Inr entries, w')"
    and dir_missing: "prompts = None \<Longrightarrow>
      \<exists>err w'. ListDir rd owner repo promptsDir ref w = Some (Inl err, w') \<and> IsNotFound rd err"

text \<open>The specification: a function of the snapshot alone.\<close>

definition approved_at :: "yaml_fun \<Rightarrow> (string \<Rightarrow> string option) \<Rightarrow> string \<Rightarrow> bool" where
  "approved_at yaml_unmarshal tree f \<longleftrightarrow> is_spec_path f \<and>
     (\<exists>c. tree f = Some c \<and> specApprovedNotCompleted yaml_unmarshal c = Inr True)"

text \<open>The touched specs whose frontmatter is no YAML, with the decoder's errors, in the order of
  the diff.\<close>

definition spec_errors ::
  "yaml_fun \<Rightarrow> (string \<Rightarrow> string option) \<Rightarrow> string list \<Rightarrow> go_error list"
where
  "spec_errors yaml_unmarshal tree diff =
     concat (map (\<lambda>f. case tree f of
                    Some c \<Rightarrow> (case specApprovedNotCompleted yaml_unmarshal c of
                                 Inl err \<Rightarrow> [err] | Inr _ \<Rightarrow> [])
                  | None \<Rightarrow> []) (filter is_spec_path diff))"

definition queued_at :: "string list option \<Rightarrow> bool" where
  "queued_at prompts \<longleftrightarrow> (\<exists>es. prompts = Some es \<and> (\<exists>e \<in> set es. has_suffix e ''.md''))"

definition candidate_spec ::
  "yaml_fun \<Rightarrow> Input \<Rightarrow> string list \<Rightarrow> (string \<Rightarrow> string option)
    \<Rightarrow> string list option \<Rightarrow> go_error + Result"
where
  "candidate_spec yaml_unmarshal inp diff tree prompts =
     (let specs = filter (approved_at yaml_unmarshal tree) diff
      in if \<not> in_IsDraft inp then Inr (skip ReasonNotDraft)
         else if in_State inp \<noteq> ''open'' then Inr (skip ReasonNotOpen)
         else if tree darkFactoryConfigFile = None then Inr (skip ReasonNoDarkFactoryYML)
         else case spec_errors yaml_unmarshal tree diff of
                err # _ \<Rightarrow>
                  Inl (Wrapped ''check approved spec in diff'' (Wrapped ''parse spec %s'' err))
              | [] \<Rightarrow>
                  if specs = [] then Inr (skip ReasonNoSpecInDiff)
                  else Inr \<lparr>Keep = True, Reason = '''', MatchedSpecs = specs,
                            PromptsQueued = queued_at prompts\<rparr>)"

context repo_snapshot
begin

lemma loop_returns_specs:
  assumes "in_Owner inp = owner" and "in_Repo inp = repo" and "in_HeadSHA inp = ref"
  shows "\<exists>w'. matched_loop y rd inp files matched w
    = Some (case spec_errors y tree files of
              err # _ \<Rightarrow> Inl (Wrapped ''parse spec %s'' err)
            | [] \<Rightarrow> Inr (matched @ filter (approved_at y tree) files), w')"
proof (induction files arbitrary: matched w)
  case Nil
  then show ?case by (simp add: spec_errors_def)
next
  case (Cons f fs)
  note IH = Cons.IH
  consider "\<not> is_spec_path f" | "is_spec_path f" "tree f = None"
    | c where "is_spec_path f" "tree f = Some c"
    by blast
  then show ?case
  proof cases
    case 1
    then show ?thesis using IH by (simp add: approved_at_def spec_errors_def cong: list.case_cong)
  next
    case 2
    from file_missing [OF 2(2) disjI1 [OF 2(1)], of w] obtain e w1
      where "GetContent rd owner repo f ref w = Some (Inl e, w1)" and "IsNotFound rd e"
      by blast
    with 2 IH [of matched w1] assms show ?thesis
      by (simp add: approved_at_def spec_errors_def cong: list.case_cong)
  next
    case 3
    from file_served [OF 3(2), of w] obtain w1
      where g: "GetContent rd owner repo f ref w = Some (Inr c, w1)" by blast
    show ?thesis
    proof (cases "specApprovedNotCompleted y c")
      case (Inl err)
      with g 3 assms show ?thesis by (simp add: spec_errors_def)
    next
      case (Inr b)
      with g 3 IH [of matched w1] IH [of "matched @ [f]" w1] assms show ?thesis
        by (cases b) (simp_all add: approved_at_def spec_errors_def cong: list.case_cong)
    qed
  qed
qed

lemma queued_returns:
  assumes "in_Owner inp = owner" and "in_Repo inp = repo" and "in_HeadSHA inp = ref"
  shows "\<exists>w'. hasQueuedPrompts rd inp w = Some (Inr (queued_at prompts), w')"
proof (cases prompts)
  case None
  from dir_missing [OF None, of w] assms None show ?thesis
    by (auto simp: hasQueuedPrompts_def queued_at_def)
next
  case (Some es)
  from dir_served [OF Some, of w] assms Some show ?thesis
    by (auto simp: hasQueuedPrompts_def queued_at_def list_ex_iff)
qed

theorem evaluate_meets_spec:
  assumes "in_Owner inp = owner" and "in_Repo inp = repo" and "in_Number inp = number"
    and "in_HeadSHA inp = ref"
  shows "\<exists>w'. Evaluate y rd inp w = Some (candidate_spec y inp diff tree prompts, w')"
proof -
  consider "\<not> in_IsDraft inp \<or> in_State inp \<noteq> ''open''"
    | "in_IsDraft inp" "in_State inp = ''open''" "tree darkFactoryConfigFile = None"
    | c where "in_IsDraft inp" "in_State inp = ''open''" "tree darkFactoryConfigFile = Some c"
    by blast
  then show ?thesis
  proof cases
    case 1
    then show ?thesis by (auto simp: Evaluate_def candidate_spec_def)
  next
    case 2
    from file_missing [OF 2(3), of w, simplified] 2 assms show ?thesis
      by (auto simp: Evaluate_def candidate_spec_def)
  next
    case 3
    from file_served [OF 3(3), of w] obtain w1
      where g: "GetContent rd owner repo darkFactoryConfigFile ref w = Some (Inr c, w1)" by blast
    from files_served obtain w2 where l: "ListPRFiles rd owner repo number w1 = Some (Inr diff, w2)"
      by blast
    from loop_returns_specs [OF assms(1,2,4), of y diff "[]" w2] obtain w3
      where m: "matched_loop y rd inp diff [] w2
        = Some (case spec_errors y tree diff of
              err # _ \<Rightarrow> Inl (Wrapped ''parse spec %s'' err)
            | [] \<Rightarrow> Inr (filter (approved_at y tree) diff), w3)"
      unfolding append_Nil by blast
    from queued_returns [OF assms(1,2,4), of w3] obtain w4
      where q: "hasQueuedPrompts rd inp w3 = Some (Inr (queued_at prompts), w4)" by blast
    show ?thesis
      using g l m q 3 assms
      by (simp add: Evaluate_def matchedApprovedSpecsInDiff_def candidate_spec_def Let_def
          split: list.split)
  qed
qed

end

subsection \<open>Returning\<close>

text \<open>Every read of the interface returns.\<close>

definition reads_return :: "('w, 'z) ContentReader_scheme \<Rightarrow> bool" where
  "reads_return rd \<longleftrightarrow>
     (\<forall>owner repo number w. ListPRFiles rd owner repo number w \<noteq> None)
     \<and> (\<forall>owner repo path ref w. GetContent rd owner repo path ref w \<noteq> None)
     \<and> (\<forall>owner repo path ref w. ListDir rd owner repo path ref w \<noteq> None)"

lemma reads_returnD:
  "reads_return rd \<Longrightarrow> ListPRFiles rd owner repo number w \<noteq> None"
  "reads_return rd \<Longrightarrow> GetContent rd owner repo path ref w \<noteq> None"
  "reads_return rd \<Longrightarrow> ListDir rd owner repo path ref w \<noteq> None"
  by (simp_all add: reads_return_def)

lemma matched_loop_returns: "reads_return rd \<Longrightarrow> matched_loop y rd inp files matched w \<noteq> None"
proof (induction files arbitrary: matched w)
  case Nil
  show ?case unfolding matched_loop.simps by (rule returns_Some)
next
  case (Cons f fs)
  show ?case
    unfolding matched_loop.simps
    by (intro returns Cons.IH reads_returnD Cons.prems)
qed

lemma Evaluate_returns: "reads_return rd \<Longrightarrow> Evaluate y rd inp w \<noteq> None"
  unfolding Evaluate_def matchedApprovedSpecsInDiff_def hasQueuedPrompts_def
  by (intro returns matched_loop_returns reads_returnD)

end
