(* ===== verification/Pagination.thy ===== *)
theory Pagination
  imports Prelude
begin

text \<open>
  The pagination loop the program writes twice (the files of a pull request, the search
  results): fetch a page, stop on an error, append the items, go on with the next page
  until there is none. Nothing bounds the number of pages, so the loop may not return.
\<close>

type_synonym ('p, 'e, 'a, 'w) fetch = "'p \<Rightarrow> ('w, 'e + 'a list \<times> 'p option) call"

text \<open>The pages a run fetches: \<open>served\<close> up to a last page, \<open>broken\<close> up to an error.\<close>

inductive served :: "('p, 'e, 'a, 'w) fetch \<Rightarrow> 'p \<Rightarrow> 'w \<Rightarrow> 'a list list \<Rightarrow> 'w \<Rightarrow> bool"
  for fetch where
  last_page: "fetch p w = Some (Inr (xs, None), w') \<Longrightarrow> served fetch p w [xs] w'"
| next_page: "fetch p w = Some (Inr (xs, Some q), w1) \<Longrightarrow> served fetch q w1 chunks w' \<Longrightarrow>
    served fetch p w (xs # chunks) w'"

inductive broken :: "('p, 'e, 'a, 'w) fetch \<Rightarrow> 'p \<Rightarrow> 'w \<Rightarrow> 'e \<Rightarrow> 'w \<Rightarrow> bool"
  for fetch where
  error_page: "fetch p w = Some (Inl e, w') \<Longrightarrow> broken fetch p w e w'"
| later_error: "fetch p w = Some (Inr (xs, Some q), w1) \<Longrightarrow> broken fetch q w1 e w' \<Longrightarrow>
    broken fetch p w e w'"

inductive_cases served_Nil: "served fetch p w [] w'"

lemma served_not_Nil: "\<not> served fetch p w [] w'"
  by (auto elim: served_Nil)

text \<open>The two outcomes exclude each other.\<close>

lemma served_not_broken: "served fetch p w chunks w' \<Longrightarrow> \<not> broken fetch p w e w''"
proof (induction rule: served.induct)
  case (last_page p w xs w')
  then show ?case by (auto elim: broken.cases)
next
  case (next_page p w xs q w1 chunks w')
  then show ?case by (auto elim: broken.cases)
qed

lemma served_deterministic:
  "served fetch p w cs w' \<Longrightarrow> served fetch p w ds w'' \<Longrightarrow> cs = ds \<and> w' = w''"
proof (induction arbitrary: ds w'' rule: served.induct)
  case (last_page p w xs w')
  from last_page.prems last_page.hyps show ?case by (auto elim: served.cases)
next
  case (next_page p w xs q w1 chunks w')
  from next_page.prems next_page.hyps(1) obtain ds'
    where "ds = xs # ds'" and "served fetch q w1 ds' w''"
    by (auto elim: served.cases)
  with next_page.IH show ?case by blast
qed

lemma broken_deterministic:
  "broken fetch p w e w' \<Longrightarrow> broken fetch p w e2 w'' \<Longrightarrow> e = e2 \<and> w' = w''"
proof (induction rule: broken.induct)
  case (error_page p w e w')
  from error_page.prems error_page.hyps show ?case by (auto elim: broken.cases)
next
  case (later_error p w xs q w1 e w')
  from later_error.prems later_error.hyps(1) have "broken fetch q w1 e2 w''"
    by (auto elim: broken.cases)
  with later_error.IH show ?case by blast
qed

text \<open>A page that is another name of a page is served the same way.\<close>

lemma served_same_fetch:
  assumes "served fetch q v chunks w'" and "fetch p w = fetch q v"
  shows "served fetch p w chunks w'"
  using assms(1)
proof cases
  case (last_page xs)
  with assms(2) show ?thesis by (simp add: served.last_page)
next
  case (next_page xs q1 w1 rest)
  from next_page(2) assms(2) have "fetch p w = Some (Inr (xs, Some q1), w1)" by simp
  from served.next_page [where fetch = fetch, OF this next_page(3)] next_page(1) show ?thesis
    by simp
qed

text \<open>
  One unfolding of the loop, over a function \<open>f\<close> for the recursive call; \<open>stop\<close> and
  \<open>finish\<close> make the loop's result.
\<close>

definition page_body ::
  "('p, 'e, 'a, 'w) fetch \<Rightarrow> ('e \<Rightarrow> 'r) \<Rightarrow> ('a list \<Rightarrow> 'r)
    \<Rightarrow> ('p \<Rightarrow> 'a list \<Rightarrow> ('w, 'r) call) \<Rightarrow> 'p \<Rightarrow> 'a list \<Rightarrow> ('w, 'r) call"
where
  "page_body fetch stop finish f p acc w =
     do {
       (r, w) \<leftarrow> fetch p w;
       case r of
         Inl e \<Rightarrow> Some (stop e, w)
       | Inr (xs, next) \<Rightarrow>
           (case next of
              None \<Rightarrow> Some (finish (acc @ xs), w)
            | Some q \<Rightarrow> f q (acc @ xs) w)
     }"

text \<open>
  The contract of a pagination loop: it is a fixed point of the body, and the least one,
  so that what it returns can be proved by induction on the run.
\<close>

locale paginated =
  fixes fetch :: "('p, 'e, 'a, 'w) fetch"
    and stop :: "'e \<Rightarrow> 'r" and finish :: "'a list \<Rightarrow> 'r"
    and loop :: "'p \<Rightarrow> 'a list \<Rightarrow> ('w, 'r) call"
  assumes unfold: "loop p acc w = page_body fetch stop finish loop p acc w"
    and least: "\<lbrakk>\<And>f p acc w r.
        \<lbrakk>\<And>p acc w r. f p acc w = Some r \<Longrightarrow> P p acc w r; page_body fetch stop finish f p acc w = Some r\<rbrakk>
        \<Longrightarrow> P p acc w r; loop p acc w = Some r\<rbrakk> \<Longrightarrow> P p acc w r"
begin

lemma served_returns:
  "served fetch p w chunks w' \<Longrightarrow> loop p acc w = Some (finish (acc @ concat chunks), w')"
proof (induction arbitrary: acc rule: served.induct)
  case (last_page p w xs w')
  then show ?case by (simp add: unfold page_body_def)
next
  case (next_page p w xs q w1 chunks w')
  then show ?case by (subst unfold) (simp add: page_body_def)
qed

lemma broken_returns: "broken fetch p w e w' \<Longrightarrow> loop p acc w = Some (stop e, w')"
proof (induction arbitrary: acc rule: broken.induct)
  case (error_page p w e w')
  then show ?case by (simp add: unfold page_body_def)
next
  case (later_error p w xs q w1 e w')
  then show ?case by (subst unfold) (simp add: page_body_def)
qed

lemma returned:
  assumes "loop p acc w = Some r"
  shows "(\<exists>chunks. served fetch p w chunks (snd r) \<and> fst r = finish (acc @ concat chunks))
    \<or> (\<exists>e. broken fetch p w e (snd r) \<and> fst r = stop e)"
proof (rule least [where P = "\<lambda>p acc w r.
    (\<exists>chunks. served fetch p w chunks (snd r) \<and> fst r = finish (acc @ concat chunks))
    \<or> (\<exists>e. broken fetch p w e (snd r) \<and> fst r = stop e)", OF _ assms])
  fix f p acc w r
  assume IH: "\<And>p acc w r. f p acc w = Some r \<Longrightarrow>
      (\<exists>chunks. served fetch p w chunks (snd r) \<and> fst r = finish (acc @ concat chunks))
      \<or> (\<exists>e. broken fetch p w e (snd r) \<and> fst r = stop e)"
    and b: "page_body fetch stop finish f p acc w = Some r"
  from b obtain x w1 where x: "fetch p w = Some (x, w1)" by (auto simp: page_body_def)
  show "(\<exists>chunks. served fetch p w chunks (snd r) \<and> fst r = finish (acc @ concat chunks))
      \<or> (\<exists>e. broken fetch p w e (snd r) \<and> fst r = stop e)"
  proof (cases x)
    case (Inl e)
    with b x have "r = (stop e, w1)" by (simp add: page_body_def)
    moreover have "broken fetch p w e w1" using x Inl by (simp add: error_page)
    ultimately show ?thesis by auto
  next
    case (Inr y)
    obtain xs nxt where y: "y = (xs, nxt)" by (cases y)
    show ?thesis
    proof (cases nxt)
      case None
      with b x Inr y last_page [of fetch p w xs w1] show ?thesis
        by (auto simp: page_body_def)
    next
      case (Some q)
      with b x Inr y have f: "f q (acc @ xs) w1 = Some r" by (simp add: page_body_def)
      from x Inr y Some have g: "fetch p w = Some (Inr (xs, Some q), w1)" by simp
      from IH [OF f] show ?thesis
        using next_page [where fetch = fetch, OF g] later_error [where fetch = fetch, OF g]
        by fastforce
    qed
  qed
qed

lemma returns_iff:
  "(\<exists>r. loop p acc w = Some r) \<longleftrightarrow>
    (\<exists>chunks w'. served fetch p w chunks w') \<or> (\<exists>e w'. broken fetch p w e w')"
proof
  assume "\<exists>r. loop p acc w = Some r"
  then show "(\<exists>chunks w'. served fetch p w chunks w') \<or> (\<exists>e w'. broken fetch p w e w')"
    using returned by blast
next
  assume "(\<exists>chunks w'. served fetch p w chunks w') \<or> (\<exists>e w'. broken fetch p w e w')"
  then show "\<exists>r. loop p acc w = Some r"
    using served_returns [of p w _ _ acc] broken_returns [of p w _ _ acc] by metis
qed

end

end
