(* ===== verification/Github_Client.thy ===== *)
theory Github_Client
  imports Candidate Pagination
begin

text \<open>
  \<open>pkg/githubclient.go\<close>: the GitHub client over go-github. The library's API calls are
  the parameters collected in the record \<open>gogithub\<close>; its structs have pointer fields,
  modelled as options, whose \<open>Get\<close> accessors return the zero value for nil. A time
  is its distance from the Unix epoch in nanoseconds.
\<close>

type_synonym datetime = int

text \<open>The zero \<open>time.Time\<close>, the start of year 1.\<close>

definition zero_time :: datetime where
  "zero_time = - 62135596800 * 1000000000"

definition get_string :: "string option \<Rightarrow> string" where
  "get_string p = (case p of None \<Rightarrow> '''' | Some s \<Rightarrow> s)"

definition get_int :: "int option \<Rightarrow> int" where
  "get_int p = (case p of None \<Rightarrow> 0 | Some n \<Rightarrow> n)"

definition get_bool :: "bool option \<Rightarrow> bool" where
  "get_bool p = (case p of None \<Rightarrow> False | Some b \<Rightarrow> b)"

definition get_time :: "datetime option \<Rightarrow> datetime" where
  "get_time p = (case p of None \<Rightarrow> zero_time | Some t \<Rightarrow> t)"

lemmas getters [simp] = get_string_def get_int_def get_bool_def get_time_def

subsection \<open>The data of the client\<close>

record PullRequest =
  GlobalID :: int
  Number :: int
  Owner :: string
  Repo :: string
  Title :: string
  HTMLURL :: string
  IsDraft :: bool
  UpdatedAt :: datetime

record SearchResult =
  PullRequests :: "PullRequest list"
  HasNextPage :: bool
  NextPage :: int
  RateRemaining :: int
  RateResetAt :: datetime

record PRDetails =
  d_HeadSHA :: string
  d_CloneURL :: string
  d_Branch :: string
  d_State :: string
  d_IsDraft :: bool
  d_Title :: string
  d_UpdatedAt :: datetime

text \<open>The interface \<open>GitHubClient\<close>: a \<open>ContentReader\<close> that also searches and
  fetches details, as the concrete client satisfies both interfaces.\<close>

record 'w GitHubClient = "'w ContentReader" +
  SearchPRs :: "string \<Rightarrow> datetime \<Rightarrow> int \<Rightarrow> ('w, go_error + SearchResult) call"
  GetPRDetails :: "string \<Rightarrow> string \<Rightarrow> int \<Rightarrow> ('w, go_error + PRDetails) call"

subsection \<open>What go-github answers\<close>

record gh_issue =
  i_RepositoryURL :: "string option"
  i_ID :: "int option"
  i_Number :: "int option"
  i_Title :: "string option"
  i_HTMLURL :: "string option"
  i_Draft :: "bool option"
  i_UpdatedAt :: "datetime option"

record gh_response =
  resp_NextPage :: int
  resp_Rate_Remaining :: int
  resp_Rate_Reset :: datetime

record gh_repo =
  r_CloneURL :: "string option"

record gh_head =
  h_SHA :: "string option"
  h_Ref :: "string option"
  h_Repo :: "gh_repo option"

record gh_pull =
  p_Head :: "gh_head option"
  p_State :: "string option"
  p_Draft :: "bool option"
  p_Title :: "string option"
  p_UpdatedAt :: "datetime option"

text \<open>
  \<open>Search_Issues\<close> takes the query, the page and the page size; \<open>Get_Contents\<close> answers
  a file, whose decoded content may fail to decode, or the paths of a directory.
\<close>

record 'w gogithub =
  Search_Issues :: "string \<Rightarrow> int \<Rightarrow> int \<Rightarrow> ('w, go_error + gh_issue list \<times> gh_response) call"
  Get_Pull :: "string \<Rightarrow> string \<Rightarrow> int \<Rightarrow> ('w, go_error + gh_pull) call"
  List_Files :: "string \<Rightarrow> string \<Rightarrow> int \<Rightarrow> int \<Rightarrow> int
    \<Rightarrow> ('w, go_error + string option list \<times> gh_response) call"
  Get_Contents :: "string \<Rightarrow> string \<Rightarrow> string \<Rightarrow> string
    \<Rightarrow> ('w, go_error + (go_error + string) option \<times> string option list) call"
  Format_RFC3339 :: "datetime \<Rightarrow> string"

subsection \<open>Paths\<close>

text \<open>\<open>path.Split\<close>: the text up to and with the last slash, and the text after it.\<close>

definition path_split :: "string \<Rightarrow> string \<times> string" where
  "path_split p =
     (let name = rev (takeWhile (\<lambda>c. c \<noteq> CHR ''/'') (rev p))
      in (take (length p - length name) p, name))"

text \<open>\<open>path.Clean\<close>: element by element, with the elements kept so far in reverse.\<close>

fun clean_elems :: "bool \<Rightarrow> string list \<Rightarrow> string list \<Rightarrow> string list" where
  "clean_elems rooted out [] = rev out"
| "clean_elems rooted out (e # es) =
     (if e = '''' \<or> e = ''.'' then clean_elems rooted out es
      else if e = ''..'' then
        (case out of
           [] \<Rightarrow> clean_elems rooted (if rooted then [] else [''..'']) es
         | o1 # os \<Rightarrow> clean_elems rooted (if o1 = ''..'' then ''..'' # out else os) es)
      else clean_elems rooted (e # out) es)"

definition path_clean :: "string \<Rightarrow> string" where
  "path_clean p =
     (if p = '''' then ''.''
      else
        (let rooted = has_prefix p ''/'';
             es = clean_elems rooted [] (split_on CHR ''/'' p)
         in if rooted then ''/'' @ join_with ''/'' es
            else if es = [] then ''.'' else join_with ''/'' es))"

definition parseOwnerRepo :: "string \<Rightarrow> string \<times> string" where
  "parseOwnerRepo repoURL =
     (case path_split repoURL of
        (dir, repoName) \<Rightarrow>
          (case path_split (path_clean dir) of (_, ownerName) \<Rightarrow> (ownerName, repoName)))"

subsection \<open>The calls\<close>

definition search_query :: "'w gogithub \<Rightarrow> string \<Rightarrow> datetime \<Rightarrow> string" where
  "search_query api scope since =
     ''is:pr is:open archived:false user:'' @ scope @ '' updated:>='' @ Format_RFC3339 api since"

definition issue_to_pr :: "gh_issue \<Rightarrow> PullRequest" where
  "issue_to_pr issue =
     (case parseOwnerRepo (get_string (i_RepositoryURL issue)) of
        (owner, repo) \<Rightarrow>
          \<lparr>GlobalID = get_int (i_ID issue), Number = get_int (i_Number issue),
           Owner = owner, Repo = repo, Title = get_string (i_Title issue),
           HTMLURL = get_string (i_HTMLURL issue), IsDraft = get_bool (i_Draft issue),
           UpdatedAt = get_time (i_UpdatedAt issue)\<rparr>)"

definition client_SearchPRs ::
  "'w gogithub \<Rightarrow> string \<Rightarrow> datetime \<Rightarrow> int \<Rightarrow> ('w, go_error + SearchResult) call"
where
  "client_SearchPRs api scope since page w =
     do {
       (res, w) \<leftarrow> Search_Issues api (search_query api scope since) page 100 w;
       case res of
         Inl err \<Rightarrow> Some (Inl (Wrapped ''search github prs scope=%s'' err), w)
       | Inr (issues, resp) \<Rightarrow>
           Some (Inr \<lparr>PullRequests = map issue_to_pr issues,
                      HasNextPage = resp_NextPage resp > 0,
                      NextPage = resp_NextPage resp,
                      RateRemaining = resp_Rate_Remaining resp,
                      RateResetAt = resp_Rate_Reset resp\<rparr>, w)
     }"

definition client_GetPRDetails ::
  "'w gogithub \<Rightarrow> string \<Rightarrow> string \<Rightarrow> int \<Rightarrow> ('w, go_error + PRDetails) call"
where
  "client_GetPRDetails api owner repo number w =
     do {
       (res, w) \<leftarrow> Get_Pull api owner repo number w;
       case res of
         Inl err \<Rightarrow> Some (Inl (Wrapped ''get pull request %s/%s#%d'' err), w)
       | Inr pr \<Rightarrow>
           Some (Inr \<lparr>d_HeadSHA = get_string (Option.bind (p_Head pr) h_SHA),
                      d_CloneURL = get_string (Option.bind (Option.bind (p_Head pr) h_Repo) r_CloneURL),
                      d_Branch = get_string (Option.bind (p_Head pr) h_Ref),
                      d_State = get_string (p_State pr),
                      d_IsDraft = get_bool (p_Draft pr),
                      d_Title = get_string (p_Title pr),
                      d_UpdatedAt = get_time (p_UpdatedAt pr)\<rparr>, w)
     }"

text \<open>The names of one page of files; files without a name are dropped.\<close>

definition file_names :: "string option list \<Rightarrow> string list" where
  "file_names fs = filter (\<lambda>name. name \<noteq> '''') (map get_string fs)"

partial_function (option) list_files_loop ::
  "'w gogithub \<Rightarrow> string \<Rightarrow> string \<Rightarrow> int \<Rightarrow> int \<Rightarrow> string list
    \<Rightarrow> 'w \<Rightarrow> ((go_error + string list) \<times> 'w) option"
where
  "list_files_loop api owner repo number page files w =
     do {
       (res, w) \<leftarrow> List_Files api owner repo number page 100 w;
       case res of
         Inl err \<Rightarrow> Some (Inl (Wrapped ''list files pr=%s/%s#%d'' err), w)
       | Inr (commitFiles, resp) \<Rightarrow>
           if resp_NextPage resp = 0 then Some (Inr (files @ file_names commitFiles), w)
           else list_files_loop api owner repo number (resp_NextPage resp)
                  (files @ file_names commitFiles) w
     }"

definition client_ListPRFiles ::
  "'w gogithub \<Rightarrow> string \<Rightarrow> string \<Rightarrow> int \<Rightarrow> ('w, go_error + string list) call"
where
  "client_ListPRFiles api owner repo number = list_files_loop api owner repo number 0 []"

definition client_GetContent ::
  "'w gogithub \<Rightarrow> string \<Rightarrow> string \<Rightarrow> string \<Rightarrow> string \<Rightarrow> ('w, go_error + string) call"
where
  "client_GetContent api owner repo filePath ref w =
     do {
       (res, w) \<leftarrow> Get_Contents api owner repo filePath ref w;
       case res of
         Inl err \<Rightarrow> Some (Inl (Wrapped ''get contents %s/%s:%s@%s'' err), w)
       | Inr (fileContent, _) \<Rightarrow>
           (case fileContent of
              None \<Rightarrow> Some (Inl (NewError ''path %s/%s:%s@%s is not a file''), w)
            | Some (Inl err) \<Rightarrow> Some (Inl (Wrapped ''decode contents %s/%s:%s@%s'' err), w)
            | Some (Inr content) \<Rightarrow> Some (Inr content, w))
     }"

definition client_ListDir ::
  "'w gogithub \<Rightarrow> string \<Rightarrow> string \<Rightarrow> string \<Rightarrow> string \<Rightarrow> ('w, go_error + string list) call"
where
  "client_ListDir api owner repo dirPath ref w =
     do {
       (res, w) \<leftarrow> Get_Contents api owner repo dirPath ref w;
       case res of
         Inl err \<Rightarrow> Some (Inl (Wrapped ''list dir %s/%s:%s@%s'' err), w)
       | Inr (_, dirContent) \<Rightarrow> Some (Inr (file_names dirContent), w)
     }"

definition client_IsNotFound :: "go_error \<Rightarrow> bool" where
  "client_IsNotFound err =
     (case root_cause err of
        ErrorResponse resp \<Rightarrow> (case resp of None \<Rightarrow> False | Some status \<Rightarrow> status = 404)
      | _ \<Rightarrow> False)"

definition githubClient :: "'w gogithub \<Rightarrow> 'w GitHubClient" where
  "githubClient api =
     \<lparr>ListPRFiles = client_ListPRFiles api, GetContent = client_GetContent api,
      ListDir = client_ListDir api, IsNotFound = client_IsNotFound,
      SearchPRs = client_SearchPRs api, GetPRDetails = client_GetPRDetails api\<rparr>"

subsection \<open>Pagination of the files\<close>

definition files_fetch ::
  "'w gogithub \<Rightarrow> string \<Rightarrow> string \<Rightarrow> int \<Rightarrow> (int, go_error, string, 'w) fetch"
where
  "files_fetch api owner repo number page w =
     do {
       (res, w) \<leftarrow> List_Files api owner repo number page 100 w;
       Some (case res of
               Inl err \<Rightarrow> Inl (Wrapped ''list files pr=%s/%s#%d'' err)
             | Inr (commitFiles, resp) \<Rightarrow>
                 Inr (file_names commitFiles,
                      if resp_NextPage resp = 0 then None else Some (resp_NextPage resp)), w)
     }"

lemma list_files_body:
  "(do {
      (res, w) \<leftarrow> List_Files api owner repo number page 100 w;
      case res of
        Inl err \<Rightarrow> Some (Inl (Wrapped ''list files pr=%s/%s#%d'' err), w)
      | Inr (commitFiles, resp) \<Rightarrow>
          if resp_NextPage resp = 0 then Some (Inr (files @ file_names commitFiles), w)
          else f (resp_NextPage resp) (files @ file_names commitFiles) w
    }) = page_body (files_fetch api owner repo number) Inl Inr f page files w"
  by (cases "List_Files api owner repo number page 100 w")
     (auto simp: page_body_def files_fetch_def split: sum.splits prod.splits)

interpretation list_files: paginated "files_fetch api owner repo number" Inl Inr
  "list_files_loop api owner repo number"
  for api owner repo number
proof
  fix p acc w
  show "list_files_loop api owner repo number p acc w
      = page_body (files_fetch api owner repo number) Inl Inr
          (list_files_loop api owner repo number) p acc w"
    by (subst list_files_loop.simps) (rule list_files_body)
next
  fix P p acc w r
  assume step: "\<And>f p acc w r.
      \<lbrakk>\<And>p acc w r. f p acc w = Some r \<Longrightarrow> P p acc w r;
       page_body (files_fetch api owner repo number) Inl Inr f p acc w = Some r\<rbrakk> \<Longrightarrow> P p acc w r"
    and ret: "list_files_loop api owner repo number p acc w = Some r"
  let ?P = "\<lambda>api' o' r' n' p acc w r.
    api' = api \<and> o' = owner \<and> r' = repo \<and> n' = number \<longrightarrow> P p acc w r"
  have "?P api owner repo number p acc w r"
  proof (rule list_files_loop.raw_induct [where P = ?P, OF _ ret], intro impI)
    fix g api' o' r' n' p acc w r
    assume IH: "\<And>api' o' r' n' p acc w r. g api' o' r' n' p acc w = Some r \<Longrightarrow>
        api' = api \<and> o' = owner \<and> r' = repo \<and> n' = number \<longrightarrow> P p acc w r"
      and body: "(do {
          (res, w) \<leftarrow> List_Files api' o' r' n' p 100 w;
          case res of
            Inl err \<Rightarrow> Some (Inl (Wrapped ''list files pr=%s/%s#%d'' err), w)
          | Inr (commitFiles, resp) \<Rightarrow>
              if resp_NextPage resp = 0 then Some (Inr (acc @ file_names commitFiles), w)
              else g api' o' r' n' (resp_NextPage resp) (acc @ file_names commitFiles) w
        }) = Some r"
      and eqs: "api' = api \<and> o' = owner \<and> r' = repo \<and> n' = number"
    show "P p acc w r"
    proof (rule step [of "g api owner repo number"])
      show "P p acc w r" if "g api owner repo number p acc w = Some r" for p acc w r
        using IH [OF that] by simp
      show "page_body (files_fetch api owner repo number) Inl Inr (g api owner repo number) p acc w
          = Some r"
        using body eqs by (simp only: list_files_body)
    qed
  qed
  then show "P p acc w r" by simp
qed

lemma client_ListPRFiles_served:
  "served (files_fetch api owner repo number) 0 w chunks w' \<Longrightarrow>
    client_ListPRFiles api owner repo number w = Some (Inr (concat chunks), w')"
  using list_files.served_returns [of api owner repo number 0 w chunks w' "[]"]
  by (simp add: client_ListPRFiles_def)

lemma client_ListPRFiles_returned:
  assumes "client_ListPRFiles api owner repo number w = Some (r, w')"
  shows "(\<exists>chunks. served (files_fetch api owner repo number) 0 w chunks w' \<and> r = Inr (concat chunks))
    \<or> (\<exists>e. broken (files_fetch api owner repo number) 0 w e w' \<and> r = Inl e)"
  using list_files.returned [of api owner repo number 0 "[]" w "(r, w')"] assms
  by (simp add: client_ListPRFiles_def)

subsection \<open>Paths\<close>

lemma path_split_name: "CHR ''/'' \<notin> set (snd (path_split p))"
  by (auto simp: path_split_def Let_def dest: set_takeWhileD)

lemma path_split_append:
  "CHR ''/'' \<notin> set name \<Longrightarrow> path_split (dir @ CHR ''/'' # name) = (dir @ ''/'', name)"
proof -
  assume "CHR ''/'' \<notin> set name"
  then have "takeWhile (\<lambda>c. c \<noteq> CHR ''/'') (rev name @ CHR ''/'' # rev dir) = rev name"
    by (subst takeWhile_append2) auto
  then show ?thesis by (simp add: path_split_def)
qed

lemma split_on_append_sep:
  "split_on sep (s @ sep # t) = split_on sep s @ split_on sep t"
  by (induction s) (auto split: list.splits)

lemma clean_elems_snoc:
  assumes "e \<noteq> ''''" and "e \<noteq> ''.''" and "e \<noteq> ''..''"
  shows "clean_elems rooted out (es @ [e, '''']) = clean_elems rooted out es @ [e]"
  using assms
  by (induction rooted out es rule: clean_elems.induct) (auto split: list.splits)

lemma join_with_snoc:
  "ps \<noteq> [] \<Longrightarrow> join_with sep (ps @ [p]) = join_with sep ps @ sep @ p"
  by (induction ps) (auto simp: join_with_Cons)

lemma path_clean_last:
  assumes "e \<noteq> ''''" and "e \<noteq> ''.''" and "e \<noteq> ''..''" and "CHR ''/'' \<notin> set e"
  shows "path_split (path_clean (dir @ CHR ''/'' # e @ ''/'')) = (fst (path_split
    (path_clean (dir @ CHR ''/'' # e @ ''/''))), e)"
proof -
  let ?p = "dir @ CHR ''/'' # e @ ''/''"
  let ?rooted = "has_prefix ?p ''/''"
  let ?es = "clean_elems ?rooted [] (split_on CHR ''/'' dir)"
  have "split_on CHR ''/'' ?p = split_on CHR ''/'' dir @ [e, '''']"
    using split_on_append_sep [of "CHR ''/''" dir "e @ ''/''"]
      split_on_append [OF assms(4), of "''''"] by simp
  then have es: "clean_elems ?rooted [] (split_on CHR ''/'' ?p) = ?es @ [e]"
    using clean_elems_snoc [OF assms(1-3)] by simp
  have "\<exists>d. path_clean ?p = d @ CHR ''/'' # e \<or> path_clean ?p = e"
    using es join_with_snoc [of ?es "''/''" e]
    by (cases "?es = []") (auto simp: path_clean_def Let_def)
  then obtain d where "path_clean ?p = d @ CHR ''/'' # e \<or> path_clean ?p = e" by blast
  moreover have "path_split e = ('''', e)"
  proof -
    have tw: "takeWhile (\<lambda>c. c \<noteq> CHR ''/'') (rev e) = rev e"
      using assms(4) by (subst takeWhile_eq_all_conv) auto
    show ?thesis unfolding path_split_def Let_def tw by simp
  qed
  ultimately show ?thesis using path_split_append [OF assms(4), of d] by auto
qed

lemma parseOwnerRepo_url:
  assumes "owner \<noteq> ''''" and "owner \<noteq> ''.''" and "owner \<noteq> ''..''"
    and "CHR ''/'' \<notin> set owner" and "CHR ''/'' \<notin> set repo"
  shows "parseOwnerRepo (base @ ''/'' @ owner @ ''/'' @ repo) = (owner, repo)"
proof -
  have "path_split ((base @ CHR ''/'' # owner) @ CHR ''/'' # repo)
      = ((base @ CHR ''/'' # owner) @ ''/'', repo)"
    by (rule path_split_append [OF assms(5)])
  then show ?thesis
    using path_clean_last [OF assms(1-4), of base]
    by (simp add: parseOwnerRepo_def split: prod.splits) (metis snd_conv)
qed

lemma parseOwnerRepo_no_slash:
  "CHR ''/'' \<notin> set (fst (parseOwnerRepo url)) \<and> CHR ''/'' \<notin> set (snd (parseOwnerRepo url))"
  using path_split_name
  by (auto simp: parseOwnerRepo_def split: prod.splits) (metis snd_conv)+

subsection \<open>The client serves a snapshot\<close>

text \<open>
  GitHub while a pull request does not change: its files come in numbered pages (page 0 asks
  for the first one, as a missing page number does), its contents are a tree and a listing of
  the prompts directory, and what is missing is answered with status 404. The search and the
  details are those of an arbitrary API.
\<close>

record snapshot =
  sn_pages :: "string list list"
  sn_tree :: "string \<Rightarrow> string option"
  sn_prompts :: "string list option"

definition snapshot_List_Files ::
  "snapshot \<Rightarrow> string \<Rightarrow> string \<Rightarrow> int \<Rightarrow> int \<Rightarrow> int
    \<Rightarrow> ('w, go_error + string option list \<times> gh_response) call"
where
  "snapshot_List_Files sn owner repo number page perPage w =
     (let i = nat (page - 1)
      in Some (Inr (if i < length (sn_pages sn) then map Some (sn_pages sn ! i) else [],
                    \<lparr>resp_NextPage = (if Suc i < length (sn_pages sn) then int i + 2 else 0),
                     resp_Rate_Remaining = 0, resp_Rate_Reset = 0\<rparr>), w))"

definition snapshot_Get_Contents ::
  "snapshot \<Rightarrow> string \<Rightarrow> string \<Rightarrow> string \<Rightarrow> string
    \<Rightarrow> ('w, go_error + (go_error + string) option \<times> string option list) call"
where
  "snapshot_Get_Contents sn owner repo path ref w =
     Some (if path = promptsDir then
             (case sn_prompts sn of
                None \<Rightarrow> Inl (ErrorResponse (Some 404))
              | Some es \<Rightarrow> Inr (None, map Some es))
           else
             (case sn_tree sn path of
                None \<Rightarrow> Inl (ErrorResponse (Some 404))
              | Some c \<Rightarrow> Inr (Some (Inr c), [])), w)"

definition snapshot_api :: "'w gogithub \<Rightarrow> snapshot \<Rightarrow> 'w gogithub" where
  "snapshot_api api sn =
     api\<lparr>List_Files := snapshot_List_Files sn, Get_Contents := snapshot_Get_Contents sn\<rparr>"

definition sn_diff :: "snapshot \<Rightarrow> string list" where
  "sn_diff sn = filter (\<lambda>name. name \<noteq> '''') (concat (sn_pages sn))"

definition sn_listing :: "snapshot \<Rightarrow> string list option" where
  "sn_listing sn = map_option (filter (\<lambda>name. name \<noteq> '''')) (sn_prompts sn)"

lemma file_names_Some: "file_names (map Some xs) = filter (\<lambda>name. name \<noteq> '''') xs"
  by (simp add: file_names_def comp_def)

lemma snapshot_served:
  assumes "i < length (sn_pages sn)"
  shows "served (files_fetch (snapshot_api api sn) owner repo number) (int i + 1) w
    (map (filter (\<lambda>name. name \<noteq> '''')) (drop i (sn_pages sn))) w"
  using assms
proof (induction "length (sn_pages sn) - i" arbitrary: i)
  case 0
  then show ?case by simp
next
  case (Suc n)
  let ?pick = "filter (\<lambda>name. name \<noteq> '''') :: string list \<Rightarrow> string list"
  have d: "drop i (sn_pages sn) = sn_pages sn ! i # drop (Suc i) (sn_pages sn)"
    using Suc.prems by (simp add: Cons_nth_drop_Suc)
  have f: "files_fetch (snapshot_api api sn) owner repo number (int i + 1) w
      = Some (Inr (?pick (sn_pages sn ! i),
          if Suc i < length (sn_pages sn) then Some (int (Suc i) + 1) else None), w)"
    using Suc.prems
    by (simp add: files_fetch_def snapshot_api_def snapshot_List_Files_def Let_def file_names_Some)
  show ?case
  proof (cases "Suc i < length (sn_pages sn)")
    case True
    with Suc.hyps have "served (files_fetch (snapshot_api api sn) owner repo number) (int (Suc i) + 1) w
        (map ?pick (drop (Suc i) (sn_pages sn))) w"
      by (intro Suc.hyps(1)) auto
    with f True show ?thesis unfolding d by (auto intro: next_page)
  next
    case False
    with f Suc.prems show ?thesis unfolding d by (simp add: last_page)
  qed
qed

lemma snapshot_files:
  "client_ListPRFiles (snapshot_api api sn) owner repo number w = Some (Inr (sn_diff sn), w)"
proof (cases "sn_pages sn = []")
  case True
  then have "files_fetch (snapshot_api api sn) owner repo number 0 w = Some (Inr ([], None), w)"
    by (simp add: files_fetch_def snapshot_api_def snapshot_List_Files_def Let_def file_names_def)
  from client_ListPRFiles_served [OF last_page
      [where fetch = "files_fetch (snapshot_api api sn) owner repo number", OF this]] True show ?thesis
    by (simp add: sn_diff_def)
next
  case False
  have same: "files_fetch (snapshot_api api sn) owner repo number 0 w
      = files_fetch (snapshot_api api sn) owner repo number 1 w"
    by (simp add: files_fetch_def snapshot_api_def snapshot_List_Files_def)
  have "served (files_fetch (snapshot_api api sn) owner repo number) 1 w
      (map (filter (\<lambda>name. name \<noteq> '''')) (sn_pages sn)) w"
    using snapshot_served [of 0 sn api owner repo number w] False by simp
  from client_ListPRFiles_served [OF served_same_fetch [OF this same]] show ?thesis
    by (simp add: sn_diff_def filter_concat)
qed

lemma promptsDir_not_read:
  "is_spec_path path \<or> path = darkFactoryConfigFile \<Longrightarrow> path \<noteq> promptsDir"
  by (auto simp: is_spec_path_def promptsDir_def specDir_def darkFactoryConfigFile_def has_prefix_def)

interpretation snapshot: repo_snapshot
  "githubClient (snapshot_api api sn)" owner repo number ref "sn_diff sn"
  "\<lambda>path. if path = promptsDir then None else sn_tree sn path" "sn_listing sn"
  for api sn owner repo number ref
proof (unfold_locales, goal_cases)
  case (1 w)
  show ?case by (simp add: githubClient_def snapshot_files)
next
  case (2 path content w)
  then show ?case
    by (simp add: githubClient_def client_GetContent_def snapshot_api_def snapshot_Get_Contents_def
        split: if_splits)
next
  case (3 path w)
  with promptsDir_not_read [OF 3(2)] show ?case
    by (simp add: githubClient_def client_GetContent_def snapshot_api_def snapshot_Get_Contents_def
        client_IsNotFound_def)
next
  case (4 entries w)
  then show ?case
    by (auto simp: githubClient_def client_ListDir_def snapshot_api_def snapshot_Get_Contents_def
        sn_listing_def file_names_Some)
next
  case (5 w)
  then show ?case
    by (auto simp: githubClient_def client_ListDir_def snapshot_api_def snapshot_Get_Contents_def
        sn_listing_def client_IsNotFound_def)
qed

subsection \<open>Properties\<close>

text \<open>
  C34: The repository URL of a search hit gives back the owner and the repository, whatever
  the API host; and no name taken from a URL ever holds a slash.
\<close>

theorem parseOwnerRepo_correct:
  assumes "owner \<notin> {'''', ''.'', ''..''}" and "CHR ''/'' \<notin> set owner" and "CHR ''/'' \<notin> set repo"
  shows "parseOwnerRepo (base @ ''/'' @ owner @ ''/'' @ repo) = (owner, repo)
    \<and> (\<forall>url. CHR ''/'' \<notin> set (fst (parseOwnerRepo url)) \<and> CHR ''/'' \<notin> set (snd (parseOwnerRepo url)))"
  using parseOwnerRepo_url [OF _ _ _ assms(2,3)] parseOwnerRepo_no_slash assms(1) by auto

theorem parseOwnerRepo_correct_witness:
  "parseOwnerRepo ''https://api.github.com/repos/bborbe/widget'' = (''bborbe'', ''widget'')"
  using parseOwnerRepo_correct [of "''bborbe''" "''widget''" "''https://api.github.com/repos''"]
  by simp

lemma client_ListPRFiles_files_iff:
  "client_ListPRFiles api owner repo number w = Some (Inr files, w') \<longleftrightarrow>
     (\<exists>chunks. served (files_fetch api owner repo number) 0 w chunks w' \<and> files = concat chunks)"
  using client_ListPRFiles_returned [of api owner repo number w "Inr files" w']
    client_ListPRFiles_served [of api owner repo number w _ w'] by auto

lemma client_ListPRFiles_error_iff:
  "client_ListPRFiles api owner repo number w = Some (Inl err, w') \<longleftrightarrow>
     broken (files_fetch api owner repo number) 0 w err w'"
  using client_ListPRFiles_returned [of api owner repo number w "Inl err" w']
    list_files.broken_returns [of api owner repo number 0 w err w' "[]"]
  by (auto simp: client_ListPRFiles_def)

lemma client_ListPRFiles_None_iff:
  "client_ListPRFiles api owner repo number w = None \<longleftrightarrow>
     (\<nexists>chunks w'. served (files_fetch api owner repo number) 0 w chunks w')
     \<and> (\<nexists>err w'. broken (files_fetch api owner repo number) 0 w err w')"
  using list_files.returns_iff [of api owner repo number 0 "[]" w]
  by (auto simp: client_ListPRFiles_def simp del: not_None_eq simp: not_None_eq [symmetric])

text \<open>
  C33: Listing the files of a pull request returns exactly when the pagination ends, after a
  last page with all non-empty names of all pages in order, or after a failing page with
  that page's error; while every page names a next one it does not return.
\<close>

theorem client_ListPRFiles_correct:
  "(client_ListPRFiles api owner repo number w = Some (Inr files, w') \<longleftrightarrow>
     (\<exists>chunks. served (files_fetch api owner repo number) 0 w chunks w' \<and> files = concat chunks))
   \<and> (client_ListPRFiles api owner repo number w = Some (Inl err, w') \<longleftrightarrow>
     broken (files_fetch api owner repo number) 0 w err w')
   \<and> (client_ListPRFiles api owner repo number w = None \<longleftrightarrow>
     (\<nexists>chunks w'. served (files_fetch api owner repo number) 0 w chunks w')
     \<and> (\<nexists>err w'. broken (files_fetch api owner repo number) 0 w err w'))"
  by (intro conjI allI client_ListPRFiles_files_iff client_ListPRFiles_error_iff
      client_ListPRFiles_None_iff)

definition example_api :: "unit gogithub" where
  "example_api =
     \<lparr>Search_Issues = (\<lambda>query page perPage w. None),
      Get_Pull = (\<lambda>owner repo number w. None),
      List_Files = (\<lambda>owner repo number page perPage w. None),
      Get_Contents = (\<lambda>owner repo path ref w. None),
      Format_RFC3339 = (\<lambda>t. '''')\<rparr>"

definition example_snapshot :: snapshot where
  "example_snapshot =
     \<lparr>sn_pages = [[''x.go''], [''specs/in-progress/1.md'']],
      sn_tree = [darkFactoryConfigFile \<mapsto> '''', ''specs/in-progress/1.md'' \<mapsto> example_spec],
      sn_prompts = Some [''prompts/in-progress/1.md'']\<rparr>"

lemma spec_path_example [simp]:
  "is_spec_path ''specs/in-progress/1.md''" "\<not> is_spec_path ''x.go''"
  by (simp_all add: is_spec_path_def specDir_def has_suffix_def)

text \<open>
  C7: The verdict on a pull request that does not change is the specification's, through
  the real client and over every page of its files: an open draft with a configuration file
  is an error as soon as a touched spec in the tree is no YAML (the first one in the order of
  the diff), it is kept if a touched spec is approved and not completed, and skipped
  otherwise; a kept one lists those specs in the order of the diff and reports whether
  Markdown prompts are queued. Every other pull request is skipped, each with its reason.
\<close>

theorem candidate_verdict_correct:
  "\<exists>w'. Evaluate yaml_unmarshal (githubClient (snapshot_api api sn)) inp w
    = Some (candidate_spec yaml_unmarshal inp (sn_diff sn)
        (\<lambda>path. if path = promptsDir then None else sn_tree sn path) (sn_listing sn), w')"
  by (rule snapshot.evaluate_meets_spec [OF refl refl refl refl])

theorem candidate_verdict_correct_witness:
  "\<exists>w'. Evaluate example_yaml (githubClient (snapshot_api example_api example_snapshot)) example_input ()
    = Some (Inr \<lparr>Keep = True, Reason = '''', MatchedSpecs = [''specs/in-progress/1.md''],
                 PromptsQueued = True\<rparr>, w')"
proof -
  let ?tree = "\<lambda>path. if path = promptsDir then None else sn_tree example_snapshot path"
  have diff: "sn_diff example_snapshot = [''x.go'', ''specs/in-progress/1.md'']"
    by (simp add: sn_diff_def example_snapshot_def)
  have tree: "?tree ''specs/in-progress/1.md'' = Some example_spec" "?tree darkFactoryConfigFile = Some ''''"
    by (simp_all add: example_snapshot_def promptsDir_def darkFactoryConfigFile_def)
  have verdict: "candidate_spec example_yaml example_input (sn_diff example_snapshot) ?tree
      (sn_listing example_snapshot) = Inr \<lparr>Keep = True, Reason = '''',
        MatchedSpecs = [''specs/in-progress/1.md''], PromptsQueued = True\<rparr>"
    using tree example_spec_approved
    by (simp add: candidate_spec_def diff approved_at_def spec_errors_def example_input_def queued_at_def
        sn_listing_def, simp add: example_snapshot_def has_suffix_def)
  from candidate_verdict_correct [of example_yaml example_api example_snapshot
      example_input "()"] verdict
  show ?thesis by simp
qed

end
