(* ===== verification/Cursor.thy ===== *)
theory Cursor
  imports Json Github_Client "HOL-Library.Multiset"
begin

text \<open>
  \<open>pkg/cursor.go\<close>: the poll state and its file. The JSON text of a \<open>libtime.DateTime\<close>
  is made and read by its own methods, the parameters of a \<open>time_codec\<close>. The file system
  is a map from paths to contents; a call to it may fail for a reason of its own, which the
  faults of a run say.
\<close>

record time_codec =
  time_MarshalJSON :: "datetime \<Rightarrow> go_error + string"
  time_UnmarshalJSON :: "string \<Rightarrow> go_error + datetime"

record Cursor =
  LastUpdatedAt :: datetime
  HeadSHAs :: "(string, string) go_map"
  QueuedMarkers :: "(string, string) go_map"

definition newCursor :: "datetime \<Rightarrow> Cursor" where
  "newCursor startTime =
     \<lparr>LastUpdatedAt = startTime, HeadSHAs = make_map, QueuedMarkers = make_map\<rparr>"

subsection \<open>The document\<close>

text \<open>\<open>json.Marshal\<close> of a cursor; an empty map of markers is left out.\<close>

definition cursor_Marshal :: "time_codec \<Rightarrow> Cursor \<Rightarrow> go_error + string" where
  "cursor_Marshal codec c =
     (case time_MarshalJSON codec (LastUpdatedAt c) of
        Inl err \<Rightarrow> Inl err
      | Inr t \<Rightarrow>
          Inr (''{'' @ json_string ''last_updated_at'' @ '':'' @ t
               @ '','' @ json_string ''head_shas'' @ '':'' @ json_string_map (HeadSHAs c)
               @ (if map_keys (QueuedMarkers c) = [] then []
                  else '','' @ json_string ''queued_markers'' @ '':''
                       @ json_string_map (QueuedMarkers c))
               @ ''}''))"

text \<open>
  The field a key of the document names: names are compared under case folding, where
  \<open>U+017F\<close> folds to S and the Kelvin sign \<open>U+212A\<close> to K.
\<close>

definition fold_rune :: "nat \<Rightarrow> nat" where
  "fold_rune r =
     (if 97 \<le> r \<and> r \<le> 122 then r - 32 else if r = 0x17F then 83 else if r = 0x212A then 75 else r)"

definition names_field :: "string \<Rightarrow> string \<Rightarrow> bool" where
  "names_field key name \<longleftrightarrow> map fold_rune (runes key) = map fold_rune (runes name)"

text \<open>A \<open>null\<close> member of a map of strings stores the empty string.\<close>

fun decode_entries ::
  "(string \<times> string \<times> json) list \<Rightarrow> (string, string) go_map \<Rightarrow> (string, string) go_map option"
where
  "decode_entries [] m = Some m"
| "decode_entries ((k, raw, v) # ms) m =
     (case v of
        JString s \<Rightarrow> Option.bind (map_put k s m) (decode_entries ms)
      | JNull \<Rightarrow> Option.bind (map_put k '''' m) (decode_entries ms)
      | _ \<Rightarrow> None)"

definition decode_string_map ::
  "json \<Rightarrow> (string, string) go_map \<Rightarrow> (string, string) go_map option"
where
  "decode_string_map v m =
     (case v of
        JNull \<Rightarrow> Some None
      | JObject ms \<Rightarrow> decode_entries ms (if m = None then make_map else m)
      | _ \<Rightarrow> None)"

definition decode_member ::
  "time_codec \<Rightarrow> string \<times> string \<times> json \<Rightarrow> Cursor \<Rightarrow> Cursor option"
where
  "decode_member codec m c =
     (case m of
        (key, raw, v) \<Rightarrow>
          if names_field key ''last_updated_at'' then
            (case time_UnmarshalJSON codec raw of
               Inl _ \<Rightarrow> None
             | Inr t \<Rightarrow> Some (c\<lparr>LastUpdatedAt := t\<rparr>))
          else if names_field key ''head_shas'' then
            map_option (\<lambda>h. c\<lparr>HeadSHAs := h\<rparr>) (decode_string_map v (HeadSHAs c))
          else if names_field key ''queued_markers'' then
            map_option (\<lambda>q. c\<lparr>QueuedMarkers := q\<rparr>) (decode_string_map v (QueuedMarkers c))
          else Some c)"

fun decode_members ::
  "time_codec \<Rightarrow> (string \<times> string \<times> json) list \<Rightarrow> Cursor \<Rightarrow> Cursor option"
where
  "decode_members codec [] c = Some c"
| "decode_members codec (m # ms) c = Option.bind (decode_member codec m c) (decode_members codec ms)"

definition zero_cursor :: Cursor where
  "zero_cursor = \<lparr>LastUpdatedAt = zero_time, HeadSHAs = None, QueuedMarkers = None\<rparr>"

text \<open>\<open>json.Unmarshal\<close> into a zero cursor; \<open>None\<close> is any error.\<close>

definition cursor_Unmarshal :: "time_codec \<Rightarrow> string \<Rightarrow> Cursor option" where
  "cursor_Unmarshal codec data =
     (case json_parse data of
        None \<Rightarrow> None
      | Some JNull \<Rightarrow> Some zero_cursor
      | Some (JObject ms) \<Rightarrow> decode_members codec ms zero_cursor
      | Some _ \<Rightarrow> None)"

subsection \<open>The file\<close>

type_synonym files = "string \<rightharpoonup> string"

text \<open>
  What may go wrong besides a missing file: reading; writing the temporary file, after it
  was not even opened (\<open>None\<close>) or truncated and filled with the first bytes; renaming it.
\<close>

record disk_faults =
  read_fault :: "go_error option"
  write_fault :: "(nat option \<times> go_error) option"
  rename_fault :: "go_error option"

definition no_faults :: disk_faults where
  "no_faults = \<lparr>read_fault = None, write_fault = None, rename_fault = None\<rparr>"

definition fill :: "('k, 'v) go_map \<Rightarrow> ('k, 'v) go_map" where
  "fill m = (if m = None then make_map else m)"

definition LoadCursor ::
  "time_codec \<Rightarrow> disk_faults \<Rightarrow> files \<Rightarrow> string \<Rightarrow> datetime \<Rightarrow> go_error + Cursor"
where
  "LoadCursor codec faults files path startTime =
     (case read_fault faults of
        Some err \<Rightarrow> Inl (Wrapped ''read cursor file'' err)
      | None \<Rightarrow>
          (case files path of
             None \<Rightarrow> Inr (newCursor startTime)
           | Some data \<Rightarrow>
               (case cursor_Unmarshal codec data of
                  None \<Rightarrow> Inr (newCursor startTime)
                | Some state \<Rightarrow>
                    Inr (state\<lparr>HeadSHAs := fill (HeadSHAs state),
                               QueuedMarkers := fill (QueuedMarkers state)\<rparr>))))"

definition write_file ::
  "(nat option \<times> go_error) option \<Rightarrow> string \<Rightarrow> string \<Rightarrow> files \<Rightarrow> go_error option \<times> files"
where
  "write_file fault path data files =
     (case fault of
        None \<Rightarrow> (None, files(path \<mapsto> data))
      | Some (None, err) \<Rightarrow> (Some err, files)
      | Some (Some written, err) \<Rightarrow> (Some err, files(path \<mapsto> take written data)))"

definition rename_file ::
  "go_error option \<Rightarrow> string \<Rightarrow> string \<Rightarrow> files \<Rightarrow> go_error option \<times> files"
where
  "rename_file fault from to_path files =
     (case fault of
        Some err \<Rightarrow> (Some err, files)
      | None \<Rightarrow>
          (case files from of
             None \<Rightarrow> (Some (NewError ''rename: no such file''), files)
           | Some data \<Rightarrow> (None, files(from := None, to_path \<mapsto> data))))"

definition SaveCursor ::
  "time_codec \<Rightarrow> disk_faults \<Rightarrow> files \<Rightarrow> string \<Rightarrow> Cursor \<Rightarrow> go_error option \<times> files"
where
  "SaveCursor codec faults files path state =
     (case cursor_Marshal codec state of
        Inl err \<Rightarrow> (Some (Wrapped ''marshal cursor state'' err), files)
      | Inr data \<Rightarrow>
          (case write_file (write_fault faults) (path @ ''.tmp'') data files of
             (Some err, files1) \<Rightarrow> (Some (Wrapped ''write cursor file'' err), files1)
           | (None, files1) \<Rightarrow>
               (case rename_file (rename_fault faults) (path @ ''.tmp'') path files1 of
                  (Some err, files2) \<Rightarrow> (Some (Wrapped ''rename cursor file'' err), files2)
                | (None, files2) \<Rightarrow> (None, files2))))"

subsection \<open>The document read back\<close>

text \<open>
  A text that can stand as the value of a member: it starts with no white space and is read
  up to the comma or the brace after it.
\<close>

definition json_text :: "nat \<Rightarrow> string \<Rightarrow> bool" where
  "json_text d t \<longleftrightarrow> t \<noteq> [] \<and> \<not> is_json_space (hd t) \<and>
     (\<exists>v. \<forall>c rest. c \<in> {CHR '','', CHR ''}''} \<longrightarrow> parse_value d (t @ c # rest) = Some (v, c # rest))"

definition json_value_of :: "nat \<Rightarrow> string \<Rightarrow> json" where
  "json_value_of d t = (case parse_value d (t @ '','') of Some (v, _) \<Rightarrow> v | None \<Rightarrow> JNull)"

lemma json_textD:
  assumes "json_text d t" and "c \<in> {CHR '','', CHR ''}''}"
  shows "parse_value d (t @ c # rest) = Some (json_value_of d t, c # rest)"
    and "skip_ws (t @ c # rest) = t @ c # rest"
proof -
  from assms(1) obtain v where v: "\<And>c rest. c \<in> {CHR '','', CHR ''}''} \<Longrightarrow>
      parse_value d (t @ c # rest) = Some (v, c # rest)"
    by (auto simp: json_text_def)
  from v [of "CHR '',''" "[]"] have "json_value_of d t = v" by (simp add: json_value_of_def)
  with v [OF assms(2), of rest] show "parse_value d (t @ c # rest) = Some (json_value_of d t, c # rest)"
    by simp
  from assms(1) show "skip_ws (t @ c # rest) = t @ c # rest"
    by (cases t) (simp_all add: json_text_def)
qed

lemma json_text_string:
  assumes "valid_utf8 s"
  shows "json_text d (json_string s)" and "json_value_of d (json_string s) = JString s"
  using parse_value_string [OF assms, of d]
  by (auto simp: json_text_def json_value_of_def) (simp_all add: json_string_def is_json_space_def)

lemma json_text_string_map:
  assumes "map_valid_utf8 m"
  shows "json_text (Suc d) (json_string_map m)"
    and "json_value_of (Suc d) (json_string_map m) = json_of_map m"
proof -
  note p = parse_json_string_map [OF assms, of d]
  show "json_value_of (Suc d) (json_string_map m) = json_of_map m"
    by (simp add: json_value_of_def p del: parse_value.simps)
  have "json_string_map m \<noteq> [] \<and> \<not> is_json_space (hd (json_string_map m))"
    by (auto simp: json_string_map_def split: option.splits)
  then show "json_text (Suc d) (json_string_map m)"
    by (auto simp: json_text_def p simp del: parse_value.simps intro: exI [of _ "json_of_map m"])
qed

lemma parse_field:
  assumes "valid_utf8 k" and "json_text d t" and "c \<in> {CHR '','', CHR ''}''}"
  shows "parse_items (parse_member (parse_value d)) CHR ''}'' (Suc n)
      (json_string k @ '':'' @ t @ c # rest)
    = (if c = CHR ''}'' then Some ([(k, t, json_value_of d t)], rest)
       else map_option (apfst (\<lambda>ms. (k, t, json_value_of d t) # ms))
         (parse_items (parse_member (parse_value d)) CHR ''}'' n rest))"
  using assms(3) json_textD [OF assms(2,3), of rest]
  by (auto simp: parse_member_def json_string_not_space parse_json_string [OF assms(1)])

lemma field_names [simp]:
  "names_field ''last_updated_at'' ''last_updated_at''"
  "\<not> names_field ''head_shas'' ''last_updated_at''"
  "names_field ''head_shas'' ''head_shas''"
  "\<not> names_field ''queued_markers'' ''last_updated_at''"
  "\<not> names_field ''queued_markers'' ''head_shas''"
  "names_field ''queued_markers'' ''queued_markers''"
  by (simp_all add: names_field_def runes_ascii fold_rune_def)

lemma field_valid [simp]:
  "valid_utf8 ''last_updated_at''" "valid_utf8 ''head_shas''" "valid_utf8 ''queued_markers''"
  by (rule ascii_valid_utf8, simp)+

lemma decode_entries_members: "decode_entries (map member kvs) m = gm.put_all kvs m"
proof (induction kvs arbitrary: m)
  case Nil
  then show ?case by simp
next
  case (Cons kv kvs)
  have "decode_entries (map member kvs) = gm.put_all kvs" using Cons.IH by blast
  then show ?case by (simp add: member_def [of kv])
qed

definition same_map :: "('k, 'v) go_map \<Rightarrow> ('k, 'v) go_map \<Rightarrow> bool" where
  "same_map m m' \<longleftrightarrow> map_get m = map_get m'"

lemma map_of_sorted_rev:
  "distinct (map fst kvs) \<Longrightarrow> map_of (rev (sort_key fst kvs)) = map_of kvs"
proof -
  assume d: "distinct (map fst kvs)"
  have m: "mset (map fst (sort_key fst kvs)) = mset (map fst kvs)" by simp
  from d have "distinct (map fst (sort_key fst kvs))" using mset_eq_imp_distinct_iff [OF m] by simp
  then have "distinct (map fst (rev (sort_key fst kvs)))" by (simp add: rev_map [symmetric])
  with d show ?thesis by (subst map_of_inject_set) simp_all
qed

lemma put_all_wf: "map_wf m \<Longrightarrow> gm.put_all kvs m = Some m' \<Longrightarrow> map_wf m'"
proof (induction kvs arbitrary: m)
  case Nil
  then show ?case by simp
next
  case (Cons kv kvs)
  from Cons.prems(2) obtain m1 where m1: "map_put (fst kv) (snd kv) m = Some m1"
      and rest: "gm.put_all kvs m1 = Some m'"
    by auto
  show ?case by (rule Cons.IH [OF map_put_wf [OF Cons.prems(1) m1] rest])
qed

lemma get_make: "map_get make_map = Map.empty"
  by (rule ext) simp

lemma get_table: "map_get (Some al) = map_of al"
  by (rule ext) (simp add: map_get_def)

lemma decode_map_back:
  assumes "map_wf m"
  shows "\<exists>m'. decode_string_map (json_of_map m) None = Some m' \<and> map_get m' = map_get m \<and> map_wf m'"
proof (cases m)
  case None
  then show ?thesis by (simp add: decode_string_map_def json_of_map_def map_wf_def map_keys_def)
next
  case (Some al)
  with assms have d: "distinct (map fst al)" by (simp add: map_wf_def map_keys_def)
  from gm.put_all_defined [OF make_map_usable(1), of "sort_key fst al"] obtain m'
    where m': "gm.put_all (sort_key fst al) make_map = Some m'" by blast
  from gm.put_all_get [OF make_map_usable(1) m'] have "map_get m' = map_of al"
    unfolding map_of_sorted_rev [OF d] get_make by simp
  moreover have "map_wf m'" by (rule put_all_wf [OF make_map_usable(2) m'])
  ultimately show ?thesis
    using Some m' by (simp add: decode_string_map_def json_of_map_def decode_entries_members
        get_table)
qed

lemma map_get_no_keys: "map_keys m = [] \<Longrightarrow> map_get m = (\<lambda>k. None)"
  by (cases m) (auto simp: map_keys_def map_get_def)

text \<open>
  What a cursor says: the time and what its maps hold. A cursor is storable when the
  methods of its time agree with each other and its strings are UTF-8, as everything is
  that GitHub answers; its maps are well formed.
\<close>

definition cursor_view ::
  "Cursor \<Rightarrow> datetime \<times> (string \<rightharpoonup> string) \<times> (string \<rightharpoonup> string)"
where
  "cursor_view c = (LastUpdatedAt c, map_get (HeadSHAs c), map_get (QueuedMarkers c))"

definition codec_ok :: "time_codec \<Rightarrow> datetime \<Rightarrow> bool" where
  "codec_ok codec t \<longleftrightarrow> (\<exists>text. time_MarshalJSON codec t = Inr text
     \<and> json_text (max_nesting - 1) text \<and> time_UnmarshalJSON codec text = Inr t)"

definition storable :: "time_codec \<Rightarrow> Cursor \<Rightarrow> bool" where
  "storable codec c \<longleftrightarrow> codec_ok codec (LastUpdatedAt c)
     \<and> map_wf (HeadSHAs c) \<and> map_valid_utf8 (HeadSHAs c)
     \<and> map_wf (QueuedMarkers c) \<and> map_valid_utf8 (QueuedMarkers c)"

definition usable :: "Cursor \<Rightarrow> bool" where
  "usable c \<longleftrightarrow> HeadSHAs c \<noteq> None \<and> QueuedMarkers c \<noteq> None"

lemma depth_max: "\<exists>d. max_nesting = Suc (Suc d)"
  by (rule exI [of _ 9998]) (simp add: max_nesting_def)

lemma json_string_start: "\<exists>s. json_string k @ t = CHR 0x22 # s"
  by (simp add: json_string_def)

lemma parse_object:
  assumes "parse_items (parse_member (parse_value d)) CHR ''}'' (length (t @ tail)) (t @ tail) = Some (ms, tail)"
    and "t = json_string k @ u" and "max_nesting = Suc d"
  shows "parse_value max_nesting ((''{'' @ t) @ tail) = Some (JObject ms, tail)"
proof -
  from json_string_start [of k u] obtain s where s: "t = CHR 0x22 # s" using assms(2) by auto
  have "skip_ws (t @ tail) = t @ tail" unfolding s by (simp add: is_json_space_def)
  moreover have "\<not> has_prefix (t @ tail) ''}''" unfolding s by simp
  ultimately show ?thesis
    unfolding assms(3) using assms(1)
    by (simp del: parse_items.simps add: Let_def)
qed

lemma document_fields:
  assumes "storable codec c" and "time_MarshalJSON codec (LastUpdatedAt c) = Inr t"
    and "json_text (max_nesting - 1) t"
  obtains data tv where "cursor_Marshal codec c = Inr data"
    and "\<And>tail. parse_value max_nesting (data @ tail) = Some (JObject
      ((''last_updated_at'', t, tv)
       # (''head_shas'', json_string_map (HeadSHAs c), json_of_map (HeadSHAs c))
       # (if map_keys (QueuedMarkers c) = [] then []
          else [(''queued_markers'', json_string_map (QueuedMarkers c), json_of_map (QueuedMarkers c))])), tail)"
proof -
  obtain d where d: "max_nesting = Suc (Suc d)" using depth_max by blast
  let ?h = "json_string_map (HeadSHAs c)" and ?q = "json_string_map (QueuedMarkers c)"
  have t: "json_text (Suc d) t" using assms(3) unfolding d by simp
  have h: "json_text (Suc d) ?h" "json_value_of (Suc d) ?h = json_of_map (HeadSHAs c)"
    and q: "json_text (Suc d) ?q" "json_value_of (Suc d) ?q = json_of_map (QueuedMarkers c)"
    using assms(1) by (simp_all add: storable_def json_text_string_map)
  let ?tail = "if map_keys (QueuedMarkers c) = [] then ''}''
    else '','' @ json_string ''queued_markers'' @ '':'' @ ?q @ ''}''"
  let ?body = "json_string ''last_updated_at'' @ '':'' @ t @ '','' @ json_string ''head_shas'' @ '':'' @ ?h @ ?tail"
  let ?ms = "(''last_updated_at'', t, json_value_of (Suc d) t)
       # (''head_shas'', ?h, json_of_map (HeadSHAs c))
       # (if map_keys (QueuedMarkers c) = [] then []
          else [(''queued_markers'', ?q, json_of_map (QueuedMarkers c))])"
  have "parse_value max_nesting ((''{'' @ ?body) @ tail) = Some (JObject ?ms, tail)" for tail
  proof -
    obtain n where n: "length (?body @ tail) = Suc (Suc (Suc n))"
      by (simp add: json_string_def)
    have "parse_items (parse_member (parse_value (Suc d))) CHR ''}'' (length (?body @ tail)) (?body @ tail)
        = Some (?ms, tail)"
      unfolding n using parse_field [OF _ t, of "''last_updated_at''" "CHR '',''"]
        parse_field [OF _ h(1), of "''head_shas''"] parse_field [OF _ q(1), of "''queued_markers''" "CHR ''}''"]
      by (simp add: h q del: parse_items.simps)
    from parse_object [OF this refl d] show ?thesis .
  qed
  moreover have "cursor_Marshal codec c = Inr (''{'' @ ?body)"
    using assms(2) by (simp add: cursor_Marshal_def)
  ultimately show thesis by (rule that [rotated])
qed

lemma Marshal_shape:
  assumes "cursor_Marshal codec c = Inr data"
  shows "hd data = CHR ''{''" and "data \<noteq> []" and "last data = CHR ''}''"
  using assms by (auto simp: cursor_Marshal_def split: sum.splits)

text \<open>A document is read back whole; with more text after it the file is corrupt.\<close>

lemma json_parse_document:
  assumes "cursor_Marshal codec c = Inr data"
    and "\<And>tail. parse_value max_nesting (data @ tail) = Some (v, tail)"
  shows "json_parse data = Some v" and "skip_ws tail \<noteq> [] \<Longrightarrow> json_parse (data @ tail) = None"
proof -
  from Marshal_shape [OF assms(1)] obtain s where "data = CHR ''{'' # s" by (cases data) auto
  then have w: "skip_ws (data @ t) = data @ t" for t by (simp add: is_json_space_def)
  show "json_parse data = Some v"
    using assms(2) [of "[]"] w [of "[]"] by (simp add: json_parse_def skip_ws_def [of "[]"])
  show "skip_ws tail \<noteq> [] \<Longrightarrow> json_parse (data @ tail) = None"
    using assms(2) [of tail] w [of tail] by (simp add: json_parse_def)
qed

lemma corrupt_tail:
  assumes "storable codec c" and "cursor_Marshal codec c = Inr data" and "skip_ws tail \<noteq> []"
  shows "cursor_Unmarshal codec (data @ tail) = None"
proof -
  from assms(1) obtain t where t: "time_MarshalJSON codec (LastUpdatedAt c) = Inr t"
    "json_text (max_nesting - 1) t"
    by (auto simp: storable_def codec_ok_def)
  from document_fields [OF assms(1) t] obtain data' v where "cursor_Marshal codec c = Inr data'"
    and "\<And>tail. parse_value max_nesting (data' @ tail) = Some (v, tail)" by metis
  with assms(2) have "\<And>tail. parse_value max_nesting (data @ tail) = Some (v, tail)" by simp
  from json_parse_document(2) [OF assms(2) this assms(3)] show ?thesis by (simp add: cursor_Unmarshal_def)
qed

lemma skip_ws_last: "s \<noteq> [] \<Longrightarrow> \<not> is_json_space (last s) \<Longrightarrow> skip_ws s \<noteq> []"
  by (auto simp: skip_ws_def)

theorem Unmarshal_Marshal:
  assumes "storable codec c"
  obtains data c' where "cursor_Marshal codec c = Inr data"
    and "cursor_Unmarshal codec data = Some c'" and "cursor_view c' = cursor_view c"
    and "map_wf (HeadSHAs c')" and "map_wf (QueuedMarkers c')"
proof -
  from assms obtain t where t: "time_MarshalJSON codec (LastUpdatedAt c) = Inr t"
    "json_text (max_nesting - 1) t" "time_UnmarshalJSON codec t = Inr (LastUpdatedAt c)"
    by (auto simp: storable_def codec_ok_def)
  from decode_map_back [of "HeadSHAs c"] assms obtain h
    where h: "decode_string_map (json_of_map (HeadSHAs c)) None = Some h"
      "map_get h = map_get (HeadSHAs c)" "map_wf h"
    by (auto simp: storable_def)
  from decode_map_back [of "QueuedMarkers c"] assms obtain q
    where q: "decode_string_map (json_of_map (QueuedMarkers c)) None = Some q"
      "map_get q = map_get (QueuedMarkers c)" "map_wf q"
    by (auto simp: storable_def)
  let ?none = "map_keys (QueuedMarkers c) = []"
  let ?c = "\<lparr>LastUpdatedAt = LastUpdatedAt c, HeadSHAs = h, QueuedMarkers = if ?none then None else q\<rparr>"
  from document_fields [OF assms t(1,2)] obtain data tv where d: "cursor_Marshal codec c = Inr data"
    and pv: "\<And>tail. parse_value max_nesting (data @ tail) = Some (JObject
      ((''last_updated_at'', t, tv)
       # (''head_shas'', json_string_map (HeadSHAs c), json_of_map (HeadSHAs c))
       # (if ?none then []
          else [(''queued_markers'', json_string_map (QueuedMarkers c), json_of_map (QueuedMarkers c))])), tail)"
    by blast
  note p = json_parse_document(1) [OF d pv]
  have "cursor_Unmarshal codec data = Some ?c"
    using t(3) h(1) q(1) by (simp add: cursor_Unmarshal_def p decode_member_def zero_cursor_def)
  moreover have "cursor_view ?c = cursor_view c"
    using h(2) q(2) map_get_no_keys [of "QueuedMarkers c"] by (auto simp: cursor_view_def map_get_def)
  moreover have "map_wf (QueuedMarkers ?c)" using q(3) by (simp add: map_wf_def map_keys_def)
  ultimately show thesis using that [OF d] h(3) by simp
qed

subsection \<open>The store\<close>

text \<open>A run of saves: the cursor of the last one that succeeded, if any, and the state.\<close>

primrec saves ::
  "('f \<Rightarrow> 'c \<Rightarrow> 's \<Rightarrow> 'e option \<times> 's) \<Rightarrow> ('f \<times> 'c) list \<Rightarrow> 's \<Rightarrow> 'c option \<times> 's"
where
  "saves save [] s = (None, s)"
| "saves save (fc # fcs) s =
     (case save (fst fc) (snd fc) s of
        (Some e, s1) \<Rightarrow> saves save fcs s1
      | (None, s1) \<Rightarrow>
          (case saves save fcs s1 of
             (None, s2) \<Rightarrow> (Some (snd fc), s2)
           | (Some c, s2) \<Rightarrow> (Some c, s2)))"

text \<open>
  The contract of the cursor's file, which the watcher relies on: loading always gives a
  cursor that can be written to, a save that succeeds is what the next load sees, and a
  save that fails, at whatever point, leaves what a load sees.
\<close>

locale cursor_store =
  fixes load :: "'s \<Rightarrow> 'e + 'c"
    and save :: "'f \<Rightarrow> 'c \<Rightarrow> 's \<Rightarrow> 'e option \<times> 's"
    and view :: "'c \<Rightarrow> 'v"
    and ok :: "'c \<Rightarrow> bool" and ready :: "'c \<Rightarrow> bool"
  assumes load_total: "\<exists>c. load s = Inr c \<and> ready c"
    and save_succeeded: "ok c \<Longrightarrow> save f c s = (None, s') \<Longrightarrow> load s' = Inr c' \<Longrightarrow> view c' = view c"
    and save_failed: "save f c s = (Some e, s') \<Longrightarrow> load s' = load s"
begin

definition seen :: "'s \<Rightarrow> 'v" where
  "seen s = (case load s of Inr c \<Rightarrow> view c | Inl e \<Rightarrow> undefined)"

lemma load_seen: "load s = Inr c \<Longrightarrow> seen s = view c"
  by (simp add: seen_def)

lemma seen_after_save:
  "ok c \<Longrightarrow> save f c s = (None, s') \<Longrightarrow> seen s' = view c"
  using load_total [of s'] save_succeeded load_seen by metis

lemma seen_after_failure: "save f c s = (Some e, s') \<Longrightarrow> seen s' = seen s"
  by (simp add: seen_def save_failed)

lemma saves_seen:
  "list_all (\<lambda>fc. ok (snd fc)) fcs \<Longrightarrow> saves save fcs s = (final, s') \<Longrightarrow>
    seen s' = (case final of None \<Rightarrow> seen s | Some c \<Rightarrow> view c)"
proof (induction fcs arbitrary: s s' final)
  case Nil
  then show ?case by simp
next
  case (Cons fc fcs)
  obtain r s1 where s1: "save (fst fc) (snd fc) s = (r, s1)" by fastforce
  obtain l s2 where s2: "saves save fcs s1 = (l, s2)" by fastforce
  have IH: "seen s2 = (case l of None \<Rightarrow> seen s1 | Some c \<Rightarrow> view c)"
    by (rule Cons.IH [OF _ s2]) (use Cons.prems(1) in simp)
  have "seen s1 = (case r of None \<Rightarrow> view (snd fc) | Some e \<Rightarrow> seen s)"
    using s1 Cons.prems(1) seen_after_save seen_after_failure by (cases r) auto
  with IH Cons.prems(2) s1 s2 show ?case by (cases r; cases l) auto
qed

lemma load_after_saves:
  assumes "list_all (\<lambda>fc. ok (snd fc)) fcs" and "saves save fcs s = (final, s')"
    and "load s = Inr c0"
  obtains c' where "load s' = Inr c'" and "ready c'"
    and "view c' = (case final of None \<Rightarrow> view c0 | Some c \<Rightarrow> view c)"
proof -
  from load_total [of s'] obtain c' where c': "load s' = Inr c'" "ready c'" by blast
  with saves_seen [OF assms(1,2)] load_seen [OF assms(3)] load_seen [OF c'(1)] that show thesis
    by metis
qed

end

lemma fill_get [simp]: "map_get (fill m) = map_get m"
  by (rule ext) (auto simp: fill_def map_get_def make_map_def)

lemma fill_usable [simp]: "\<exists>al. fill m = Some al"
  by (cases m) (simp_all add: fill_def make_map_def)

lemma LoadCursor_usable: "LoadCursor codec faults files path start = Inr c \<Longrightarrow> usable c"
  by (auto simp: LoadCursor_def usable_def newCursor_def split: option.splits)

lemma LoadCursor_Inl_iff:
  "LoadCursor codec faults files path start = Inl err \<longleftrightarrow>
    (\<exists>e. read_fault faults = Some e \<and> err = Wrapped ''read cursor file'' e)"
  by (auto simp: LoadCursor_def split: option.splits)

lemma SaveCursor_cases:
  obtains (marshal) err where "cursor_Marshal codec c = Inl err"
      "SaveCursor codec faults files path c = (Some (Wrapped ''marshal cursor state'' err), files)"
  | (unwritten) data err files1 where "cursor_Marshal codec c = Inr data"
      "SaveCursor codec faults files path c = (Some (Wrapped ''write cursor file'' err), files1)"
      "files1 path = files path"
  | (unrenamed) data err files1 where "cursor_Marshal codec c = Inr data"
      "SaveCursor codec faults files path c = (Some (Wrapped ''rename cursor file'' err), files1)"
      "files1 path = files path"
  | (saved) data files1 where "cursor_Marshal codec c = Inr data"
      "SaveCursor codec faults files path c = (None, files1)" "files1 path = Some data"
proof (cases "cursor_Marshal codec c")
  case (Inl err)
  then show thesis by (intro marshal) (simp_all add: SaveCursor_def)
next
  case (Inr data)
  show thesis
  proof (cases "write_fault faults")
    case None
    show thesis
    proof (cases "rename_fault faults")
      case n: None
      with None Inr show thesis
        by (intro saved [of data "files(path @ ''.tmp'' := None, path \<mapsto> data)"])
           (simp_all add: SaveCursor_def write_file_def rename_file_def)
    next
      case (Some err)
      with None Inr show thesis
        by (intro unrenamed [of data err "files(path @ ''.tmp'' \<mapsto> data)"])
           (simp_all add: SaveCursor_def write_file_def rename_file_def)
    qed
  next
    case (Some we)
    obtain k err where we: "we = (k, err)" by (cases we)
    let ?files = "case k of None \<Rightarrow> files | Some n \<Rightarrow> files(path @ ''.tmp'' \<mapsto> take n data)"
    from Some Inr we show thesis
      by (intro unwritten [of data err ?files])
         (auto simp: SaveCursor_def write_file_def split: option.splits)
  qed
qed

lemma LoadCursor_reads_path:
  "files path = files' path \<Longrightarrow>
    LoadCursor codec faults files path start = LoadCursor codec faults files' path start"
  by (simp add: LoadCursor_def cong: option.case_cong)

lemma Load_after_Save:
  assumes "storable codec c" and "SaveCursor codec faults files path c = (None, files')"
    and "LoadCursor codec no_faults files' path start = Inr c'"
  shows "cursor_view c' = cursor_view c"
proof (cases rule: SaveCursor_cases [of codec c faults files path])
  case (saved data files1)
  from Unmarshal_Marshal [OF assms(1)] obtain data2 c2 where "cursor_Marshal codec c = Inr data2"
    "cursor_Unmarshal codec data2 = Some c2" and v: "cursor_view c2 = cursor_view c"
    by blast
  with saved assms(2,3) have "c' = c2\<lparr>HeadSHAs := fill (HeadSHAs c2), QueuedMarkers := fill (QueuedMarkers c2)\<rparr>"
    by (auto simp: LoadCursor_def no_faults_def)
  then show ?thesis using v by (simp add: cursor_view_def)
qed (use assms(2) in simp_all)

interpretation store: cursor_store
  "\<lambda>files. LoadCursor codec no_faults files path start"
  "\<lambda>faults c files. SaveCursor codec faults files path c"
  cursor_view "storable codec" usable
  for codec path start
proof
  show "\<exists>c. LoadCursor codec no_faults s path start = Inr c \<and> usable c" for s
    using LoadCursor_usable [of codec no_faults s path start]
    by (cases "LoadCursor codec no_faults s path start")
       (auto simp: LoadCursor_Inl_iff no_faults_def)
next
  fix c f s s' c'
  assume "storable codec c" and "SaveCursor codec f s path c = (None, s')"
    and "LoadCursor codec no_faults s' path start = Inr c'"
  then show "cursor_view c' = cursor_view c" by (rule Load_after_Save)
next
  fix f c s e s'
  assume "SaveCursor codec f s path c = (Some e, s')"
  then have "s' path = s path"
    by (cases rule: SaveCursor_cases [of codec c f s path]) simp_all
  then show "LoadCursor codec no_faults s' path start = LoadCursor codec no_faults s path start"
    by (rule LoadCursor_reads_path)
qed

subsection \<open>Properties\<close>

text \<open>A codec that knows one time, and a cursor at this time.\<close>

definition example_time :: datetime where
  "example_time = 1767225600000000000"

definition example_codec :: time_codec where
  "example_codec =
     \<lparr>time_MarshalJSON = (\<lambda>t. Inr (json_string ''2026-01-01T00:00:00Z'')),
      time_UnmarshalJSON = (\<lambda>text. Inr example_time)\<rparr>"

definition example_cursor :: Cursor where
  "example_cursor =
     \<lparr>LastUpdatedAt = example_time, HeadSHAs = Some [(''t2'', ''b''), (''t1'', ''a'')],
      QueuedMarkers = Some [(''bborbe/widget#42'', ''t1'')]\<rparr>"

lemma example_storable: "storable example_codec example_cursor"
proof -
  have v: "valid_utf8 s" if "s \<in> {''t1'', ''t2'', ''a'', ''b'', ''bborbe/widget#42'', ''2026-01-01T00:00:00Z''}"
    for s
    using that by (intro ascii_valid_utf8) auto
  have "json_text (max_nesting - 1) (json_string ''2026-01-01T00:00:00Z'')"
    by (rule json_text_string(1)) (simp add: v)
  then show ?thesis
    by (simp add: storable_def codec_ok_def example_codec_def example_cursor_def map_wf_def
        map_keys_def map_valid_utf8_def v)
qed

text \<open>A codec for every time: its nanoseconds, in decimal, as a string.\<close>

fun decimal_value :: "string \<Rightarrow> int" where
  "decimal_value [] = 0"
| "decimal_value (c # s) =
     (if c = CHR ''-'' then - int (digits_value s) else int (digits_value (c # s)))"

definition decimal_codec :: time_codec where
  "decimal_codec =
     \<lparr>time_MarshalJSON = (\<lambda>t. Inr (json_string (itoa t))),
      time_UnmarshalJSON = (\<lambda>text. Inr (decimal_value (unquote (butlast (tl text)))))\<rparr>"

lemma decimal_value_itoa: "decimal_value (itoa t) = t"
proof (cases "t < 0")
  case True
  then show ?thesis using digits_value_nat_digits [of "nat (- t)"] by (simp add: itoa_def)
next
  case False
  obtain c s where cs: "nat_digits (nat t) = c # s" by (cases "nat_digits (nat t)") auto
  with nat_digits_are_digits [of "nat t"] have "is_digit c" by simp
  then have "c \<noteq> CHR ''-''" by (auto simp: is_digit_def)
  then show ?thesis
    using False cs digits_value_nat_digits [of "nat t"] by (simp add: itoa_def del: digits_value.simps)
qed

lemma itoa_valid: "valid_utf8 (itoa n)"
proof (rule ascii_valid_utf8, unfold ascii_def, rule ballI)
  fix c
  assume "c \<in> set (itoa n)"
  then have "is_digit c \<or> c = CHR ''-''" using itoa_chars by blast
  then show "(of_char c :: nat) < 128" by (auto simp: is_digit_def)
qed

lemma decimal_codec_ok: "codec_ok decimal_codec t"
proof -
  have "json_text (max_nesting - 1) (json_string (itoa t))"
    by (rule json_text_string(1) [OF itoa_valid])
  moreover have "unquote (json_escape (itoa t)) = itoa t"
    using json_escape_back [OF itoa_valid] by blast
  ultimately show ?thesis
    by (simp add: codec_ok_def decimal_codec_def decimal_value_itoa json_string_def)
qed

text \<open>
  C4: The cursor file is durable and atomic: after any series of saves, each of which may
  fail while marshalling, while writing the temporary file (leaving any part of it) or
  while renaming it, the next load gives the cursor of the last save that reported success,
  and what it gave before when none did; its two maps can always be written to.
\<close>

theorem cursor_durable:
  assumes "list_all (\<lambda>fc. storable codec (snd fc)) fcs"
    and "saves (\<lambda>faults c files. SaveCursor codec faults files path c) fcs files = (final, files')"
    and "LoadCursor codec no_faults files path start = Inr c0"
  shows "\<exists>c. LoadCursor codec no_faults files' path start = Inr c \<and> usable c
    \<and> cursor_view c = (case final of None \<Rightarrow> cursor_view c0 | Some c1 \<Rightarrow> cursor_view c1)"
  by (rule store.load_after_saves [OF assms]) blast

theorem cursor_durable_witness:
  "\<exists>c. LoadCursor example_codec no_faults
      (snd (saves (\<lambda>faults c files. SaveCursor example_codec faults files ''c'' c)
        [(no_faults, example_cursor),
         (no_faults\<lparr>rename_fault := Some (NewError ''busy'')\<rparr>, newCursor 0)] Map.empty)) ''c'' 5 = Inr c
    \<and> cursor_view c = cursor_view example_cursor"
proof -
  let ?run' = "saves (\<lambda>faults c files. SaveCursor example_codec faults files ''c'' c)
    [(no_faults, example_cursor)] Map.empty"
  have first: "fst ?run' = Some example_cursor"
    by (simp add: SaveCursor_def cursor_Marshal_def example_codec_def no_faults_def
        write_file_def rename_file_def)
  have "LoadCursor example_codec no_faults Map.empty ''c'' 5 = Inr (newCursor 5)"
    by (simp add: LoadCursor_def no_faults_def)
  from cursor_durable [OF _ surjective_pairing this, of "[(no_faults, example_cursor)]"]
    example_storable first
  obtain c where c: "LoadCursor example_codec no_faults (snd ?run') ''c'' 5 = Inr c"
    and v: "cursor_view c = cursor_view example_cursor"
    by auto
  let ?run = "saves (\<lambda>faults c files. SaveCursor example_codec faults files ''c'' c)
        [(no_faults, example_cursor),
         (no_faults\<lparr>rename_fault := Some (NewError ''busy'')\<rparr>, newCursor 0)] Map.empty"
  have "snd ?run ''c'' = snd ?run' ''c''"
    by (simp add: SaveCursor_def cursor_Marshal_def example_codec_def no_faults_def
        write_file_def rename_file_def)
  from LoadCursor_reads_path [of "snd ?run" "''c''" "snd ?run'", OF this] c v show ?thesis by simp
qed

text \<open>
  Loading never fails because of what the file holds: it returns an error exactly when
  the file exists but cannot be read, starts cold at the configured time when the file is
  missing or is not a cursor document, and otherwise takes the time of the document and its
  maps, replacing an absent or null map by an empty one.
\<close>

lemma LoadCursor_outcomes:
  "(LoadCursor codec faults files path start = Inl err \<longleftrightarrow>
      (\<exists>e. read_fault faults = Some e \<and> err = Wrapped ''read cursor file'' e))
   \<and> (read_fault faults = None \<longrightarrow> Option.bind (files path) (cursor_Unmarshal codec) = None \<longrightarrow>
      LoadCursor codec faults files path start = Inr (newCursor start))
   \<and> (read_fault faults = None \<longrightarrow> Option.bind (files path) (cursor_Unmarshal codec) = Some c \<longrightarrow>
      (\<exists>c'. LoadCursor codec faults files path start = Inr c' \<and> usable c' \<and> cursor_view c' = cursor_view c))"
proof -
  have "read_fault faults = None \<Longrightarrow> Option.bind (files path) (cursor_Unmarshal codec) = Some c \<Longrightarrow>
      \<exists>c'. LoadCursor codec faults files path start = Inr c' \<and> usable c' \<and> cursor_view c' = cursor_view c"
    by (cases "files path") (auto simp: LoadCursor_def usable_def cursor_view_def)
  then show ?thesis
    by (auto simp: LoadCursor_Inl_iff) (auto simp: LoadCursor_def split: option.splits)
qed

lemma not_json_corrupt: "cursor_Unmarshal codec ''not-valid-json{'' = None"
proof -
  obtain d where d: "max_nesting = Suc (Suc d)" using depth_max by blast
  have "json_parse ''not-valid-json{'' = None"
    unfolding json_parse_def d
    by (simp add: parse_scalar_def parse_number_def scan_int_def scan_digits_def trim_prefix_def
        is_digit_def is_json_space_def)
  then show ?thesis by (simp add: cursor_Unmarshal_def)
qed

lemma LoadCursor_outcomes_witness:
  "LoadCursor example_codec no_faults [''c'' \<mapsto> ''not-valid-json{''] ''c'' 5 = Inr (newCursor 5)"
  using LoadCursor_outcomes [of example_codec no_faults "[''c'' \<mapsto> ''not-valid-json{'']" "''c''" 5
      "NewError ''e''" "newCursor 5", THEN conjunct2, THEN conjunct1]
  by (simp add: no_faults_def not_json_corrupt)

text \<open>
  A document that is not corrupt but says nothing, as \<open>null\<close>, does not start cold at
  the configured time: it loads with the zero time, from which the next search starts.
\<close>

lemma LoadCursor_null_document:
  assumes "read_fault faults = None" and "files path = Some ''null''"
  shows "LoadCursor codec faults files path start = Inr (newCursor zero_time)"
proof -
  obtain d where d: "max_nesting = Suc (Suc d)" using depth_max by blast
  have "json_parse ''null'' = Some JNull"
    unfolding json_parse_def d by (simp add: parse_scalar_def skip_ws_def is_json_space_def)
  then show ?thesis
    using assms by (simp add: LoadCursor_def cursor_Unmarshal_def zero_cursor_def newCursor_def fill_def)
qed

lemma LoadCursor_null_document_witness:
  "LoadCursor example_codec no_faults [''c'' \<mapsto> ''null''] ''c'' 5 = Inr (newCursor zero_time)"
  by (rule LoadCursor_null_document) (simp_all add: no_faults_def)

end
