(* ===== verification/Filename.thy ===== *)
theory Filename
  imports Go_Text
begin

text \<open>
  \<open>pkg/filename.go\<close>: the slug of a pull request title and the vault file name of a task.
  Slicing a string with a negative bound panics in Go; both functions therefore return an
  \<open>option\<close>, with \<open>None\<close> for the panic.
\<close>

definition DefaultMaxTitleLen :: int where
  "DefaultMaxTitleLen = 200"

definition DefaultMaxSlugLen :: int where
  "DefaultMaxSlugLen = 80"

definition filenamePrefix :: string where
  "filenamePrefix = ''Dark Factory Implement''"

subsection \<open>The slug\<close>

text \<open>The runes the slug keeps: \<open>[a-z0-9]\<close>.\<close>

definition slug_rune :: "nat \<Rightarrow> bool" where
  "slug_rune r \<longleftrightarrow> 97 \<le> r \<and> r \<le> 122 \<or> 48 \<le> r \<and> r \<le> 57"

text \<open>The loop over the lower-cased title; the flag is \<open>prevHyphen\<close>.\<close>

fun slug_loop :: "nat list \<Rightarrow> bool \<Rightarrow> string" where
  "slug_loop [] prevHyphen = []"
| "slug_loop (r # rs) prevHyphen =
     (if slug_rune r then encode_rune r @ slug_loop rs False
      else if \<not> prevHyphen then CHR ''-'' # slug_loop rs True
      else slug_loop rs prevHyphen)"

definition slugifyTitle :: "string \<Rightarrow> int \<Rightarrow> string option" where
  "slugifyTitle title maxSlug =
     (let lower = strings_to_lower title;
          result = trim_char CHR ''-'' (slug_loop (runes lower) False)
      in if int (length result) > maxSlug then
           (if maxSlug < 0 then None
            else Some (trim_right_char CHR ''-'' (take (nat maxSlug) result)))
         else Some result)"

subsection \<open>The file name\<close>

definition base_filename :: "string \<Rightarrow> string \<Rightarrow> string \<Rightarrow> int \<Rightarrow> string \<Rightarrow> string" where
  "base_filename provider owner repo number sha =
     filenamePrefix @ '' '' @ provider @ '' - '' @ owner @ ''-'' @ repo @ '' - ''
       @ itoa number @ '' - '' @ take 8 sha"

definition suffix_part :: "string \<Rightarrow> string" where
  "suffix_part taskSuffix = (if taskSuffix \<noteq> '''' then '' - '' @ taskSuffix else '''')"

definition computeTaskFilename ::
  "string \<Rightarrow> string \<Rightarrow> string \<Rightarrow> int \<Rightarrow> string \<Rightarrow> string \<Rightarrow> int \<Rightarrow> int \<Rightarrow> string \<Rightarrow> string option"
where
  "computeTaskFilename provider owner repo number sha prTitle maxSlug maxTitle taskSuffix =
     (let base = base_filename provider owner repo number sha
      in do {
        slug \<leftarrow> slugifyTitle prTitle maxSlug;
        let t = (if slug \<noteq> '''' then base @ '' - '' @ slug else base);
        let suffixPart = suffix_part taskSuffix;
        let t = (if int (length t) + int (length suffixPart) > maxTitle then
                   (let budget = max 0 (maxTitle - int (length suffixPart))
                    in if int (length t) > budget then take (nat budget) t else t)
                 else t);
        Some (t @ suffixPart)
      })"

subsection \<open>Facts about the loop\<close>

definition slug_char :: "char \<Rightarrow> bool" where
  "slug_char c \<longleftrightarrow> slug_rune (of_char c)"

lemma slug_rune_encode: "slug_rune r \<Longrightarrow> encode_rune r = [char_of r]"
  by (auto simp: slug_rune_def encode_rune_ascii)

lemma slug_char_of: "slug_rune r \<Longrightarrow> slug_char (char_of r)"
  by (auto simp: slug_char_def slug_rune_def)

lemma hyphen_not_slug [simp]: "\<not> slug_char CHR ''-''"
  by (simp add: slug_char_def slug_rune_def)

lemma slug_loop_chars: "c \<in> set (slug_loop rs p) \<Longrightarrow> slug_char c \<or> c = CHR ''-''"
  by (induction rs p rule: slug_loop.induct)
     (auto simp: slug_rune_encode slug_char_of split: if_splits)

text \<open>No two hyphens in a row.\<close>

fun no_double_hyphen :: "string \<Rightarrow> bool" where
  "no_double_hyphen (a # b # s) \<longleftrightarrow> \<not> (a = CHR ''-'' \<and> b = CHR ''-'') \<and> no_double_hyphen (b # s)"
| "no_double_hyphen s \<longleftrightarrow> True"

lemma no_double_hyphen_Cons:
  "no_double_hyphen (c # s) \<longleftrightarrow>
    \<not> (c = CHR ''-'' \<and> s \<noteq> [] \<and> hd s = CHR ''-'') \<and> no_double_hyphen s"
  by (cases s) auto

lemma no_double_hyphen_append:
  "no_double_hyphen (s @ t) \<Longrightarrow> no_double_hyphen s \<and> no_double_hyphen t"
  by (induction s) (auto simp: no_double_hyphen_Cons)

lemma slug_loop_no_double:
  "no_double_hyphen (slug_loop rs p)
    \<and> (p \<longrightarrow> slug_loop rs p = [] \<or> hd (slug_loop rs p) \<noteq> CHR ''-'')"
proof (induction rs p rule: slug_loop.induct)
  case (2 r rs p)
  have "char_of r \<noteq> CHR ''-''" if "slug_rune r"
    using slug_char_of [OF that] by auto
  with 2 show ?case
    by (auto simp: no_double_hyphen_Cons slug_rune_encode)
qed simp

lemma trim_char_infix: "\<exists>u v. s = u @ trim_char c s @ v"
proof -
  obtain n where "dropWhile (\<lambda>x. x = c) s = trim_char c s @ replicate n c"
    using trim_right_char_prefix unfolding trim_char_def by blast
  then have "s = takeWhile (\<lambda>x. x = c) s @ trim_char c s @ replicate n c"
    by (metis takeWhile_dropWhile_id)
  then show ?thesis by blast
qed

lemma trim_right_char_nd: "no_double_hyphen s \<Longrightarrow> no_double_hyphen (trim_right_char c s)"
  using trim_right_char_prefix [of s c] no_double_hyphen_append by metis

text \<open>A well-formed slug: kept characters and single, inner hyphens.\<close>

definition slug_ok :: "string \<Rightarrow> bool" where
  "slug_ok s \<longleftrightarrow> (\<forall>c \<in> set s. slug_char c \<or> c = CHR ''-'') \<and> no_double_hyphen s
     \<and> (s \<noteq> [] \<longrightarrow> hd s \<noteq> CHR ''-'' \<and> last s \<noteq> CHR ''-'')"

definition full_slug :: "string \<Rightarrow> string" where
  "full_slug title = trim_char CHR ''-'' (slug_loop (runes (strings_to_lower title)) False)"

lemma full_slug_ok: "slug_ok (full_slug title)"
proof -
  let ?l = "slug_loop (runes (strings_to_lower title)) False"
  obtain u v where "?l = u @ full_slug title @ v"
    using trim_char_infix unfolding full_slug_def by blast
  moreover have "no_double_hyphen ?l" using slug_loop_no_double by blast
  ultimately have "no_double_hyphen (full_slug title)"
    using no_double_hyphen_append by metis
  moreover have "\<forall>c \<in> set (full_slug title). slug_char c \<or> c = CHR ''-''"
    using set_trim_char slug_loop_chars unfolding full_slug_def by blast
  moreover have "full_slug title \<noteq> [] \<Longrightarrow>
      hd (full_slug title) \<noteq> CHR ''-'' \<and> last (full_slug title) \<noteq> CHR ''-''"
    unfolding full_slug_def using trim_char_hd trim_char_last by blast
  ultimately show ?thesis by (auto simp: slug_ok_def)
qed

lemma slug_ok_truncate:
  assumes "slug_ok s"
  shows "slug_ok (trim_right_char CHR ''-'' (take n s))"
proof -
  let ?t = "trim_right_char CHR ''-'' (take n s)"
  have nd: "no_double_hyphen ?t"
    using assms no_double_hyphen_append [of "take n s" "drop n s"]
    by (simp add: slug_ok_def trim_right_char_nd)
  have chars: "\<forall>c \<in> set ?t. slug_char c \<or> c = CHR ''-''"
    using assms set_trim_right_char set_takeD unfolding slug_ok_def by fastforce
  have "hd ?t \<noteq> CHR ''-''" if "?t \<noteq> []"
  proof -
    have "take n s \<noteq> []"
    proof
      assume "take n s = []"
      with that show False by (metis dropWhile.simps(1) rev.simps(1) trim_right_char_def)
    qed
    then have "hd (take n s) = hd s" "s \<noteq> []" by (cases s; cases n; simp)+
    with assms trim_right_char_hd [OF that] show ?thesis by (simp add: slug_ok_def)
  qed
  with nd chars trim_right_char_last show ?thesis unfolding slug_ok_def by blast
qed

lemma slugifyTitle_eq:
  "slugifyTitle title maxSlug =
     (if int (length (full_slug title)) \<le> maxSlug then Some (full_slug title)
      else if maxSlug < 0 then None
      else Some (trim_right_char CHR ''-'' (take (nat maxSlug) (full_slug title))))"
  by (simp add: slugifyTitle_def full_slug_def Let_def)

lemma slugifyTitle_Some_ok: "slugifyTitle title maxSlug = Some s \<Longrightarrow> slug_ok s"
  by (auto simp: slugifyTitle_eq full_slug_ok slug_ok_truncate split: if_splits)

lemma slugifyTitle_length:
  "slugifyTitle title maxSlug = Some s \<Longrightarrow> int (length s) \<le> maxSlug"
  using trim_right_char_length [of "CHR ''-''" "take (nat maxSlug) (full_slug title)"]
  by (auto simp: slugifyTitle_eq split: if_splits)

lemma slugifyTitle_defined: "0 \<le> maxSlug \<Longrightarrow> \<exists>s. slugifyTitle title maxSlug = Some s"
  by (simp add: slugifyTitle_eq)

subsection \<open>The slug as joined words\<close>

text \<open>
  The specification of the slug: the maximal runs of kept characters of the lower-cased
  title, joined by single hyphens.
\<close>

function slug_words :: "nat list \<Rightarrow> string list" where
  "slug_words [] = []"
| "slug_words (r # rs) =
     (if slug_rune r then
        map char_of (r # takeWhile slug_rune rs) # slug_words (dropWhile slug_rune rs)
      else slug_words rs)"
  by pat_completeness auto
termination
  by (relation "measure length") (auto simp: le_imp_less_Suc length_dropWhile_le)

definition slug_spec :: "string \<Rightarrow> string" where
  "slug_spec title = join_with ''-'' (slug_words (runes (strings_to_lower title)))"

lemma slug_loop_word:
  "\<forall>r \<in> set ws. slug_rune r \<Longrightarrow> ws \<noteq> [] \<Longrightarrow>
    slug_loop (ws @ rs) p = map char_of ws @ slug_loop rs False"
proof (induction ws arbitrary: p)
  case (Cons w ws)
  then show ?case by (cases "ws = []") (auto simp: slug_rune_encode)
qed simp

lemma slug_words_ne: "w \<in> set (slug_words rs) \<Longrightarrow> w \<noteq> []"
  by (induction rs rule: slug_words.induct) (auto split: if_splits)

lemma join_words_eq_Nil: "join_with sep (slug_words rs) = [] \<longleftrightarrow> slug_words rs = []"
  using slug_words_ne [of _ rs] by (cases "slug_words rs") (auto simp: join_with_Cons)

lemma trim_right_snoc_part:
  "trim_right_char c (u @ x # t) =
    (if trim_right_char c t = [] \<and> x = c then trim_right_char c u
     else u @ x # trim_right_char c t)"
proof -
  have all: "trim_right_char c t = [] \<longleftrightarrow> (\<forall>y \<in> set t. y = c)"
    by (simp add: trim_right_char_def)
  show ?thesis
  proof (cases "\<forall>y \<in> set t. y = c")
    case True
    then show ?thesis
      using all by (simp add: trim_right_char_def dropWhile_append)
  next
    case False
    then obtain y where "y \<in> set (rev t)" and "y \<noteq> c" by auto
    then have "dropWhile (\<lambda>x. x = c) (rev t @ x # rev u)
        = dropWhile (\<lambda>x. x = c) (rev t) @ x # rev u"
      by (rule dropWhile_append1)
    moreover have "trim_right_char c t \<noteq> []" using all False by blast
    ultimately show ?thesis by (auto simp: trim_right_char_def)
  qed
qed

lemma slug_words_skip:
  "rs = [] \<or> \<not> slug_rune (hd rs) \<Longrightarrow>
    slug_words rs = slug_words (tl rs) \<and> slug_loop rs True = slug_loop (tl rs) True
    \<and> slug_loop rs False = (if rs = [] then [] else CHR ''-'' # slug_loop (tl rs) True)"
  by (cases rs) auto

lemma trim_slug_loop_True:
  "trim_right_char CHR ''-'' (slug_loop rs True) = join_with ''-'' (slug_words rs)"
proof (induction rs rule: slug_words.induct)
  case 1
  show ?case by (simp add: trim_right_char_def)
next
  case (2 r rs)
  show ?case
  proof (cases "slug_rune r")
    case False
    with 2 show ?thesis by simp
  next
    case True
    define w :: string where "w = map char_of (r # takeWhile slug_rune rs)"
    define rest where "rest = dropWhile slug_rune rs"
    let ?X = "slug_loop rest True"
    have IH: "trim_right_char CHR ''-'' ?X = join_with ''-'' (slug_words rest)"
      using 2 True unfolding rest_def by simp
    have skip: "rest = [] \<or> \<not> slug_rune (hd rest)"
      unfolding rest_def using dropWhile_last [of slug_rune rs] by blast
    have "slug_loop (r # rs) True = slug_loop ((r # takeWhile slug_rune rs) @ rest) True"
      by (simp add: rest_def)
    also have "\<dots> = w @ slug_loop rest False"
      unfolding w_def using True by (intro slug_loop_word) (auto dest: set_takeWhileD)
    finally have loop: "slug_loop (r # rs) True = w @ slug_loop rest False" .
    have "\<forall>c \<in> set w. slug_char c"
      using True unfolding w_def by (auto simp: slug_char_of dest!: set_takeWhileD)
    then have "\<forall>c \<in> set w. c \<noteq> CHR ''-''" by auto
    then have w: "trim_right_char CHR ''-'' w = w"
      by (intro trim_right_char_id) (metis last_in_set)
    have words: "slug_words (r # rs) = w # slug_words rest"
      using True by (simp add: w_def rest_def)
    show ?thesis
    proof (cases "rest = []")
      case True
      with loop w words show ?thesis by simp
    next
      case False
      with skip have "slug_loop rest False = CHR ''-'' # slug_loop (tl rest) True"
        and X: "slug_loop (tl rest) True = ?X"
        using slug_words_skip by auto
      with loop have "slug_loop (r # rs) True = w @ CHR ''-'' # ?X" by simp
      with IH w words show ?thesis
        by (auto simp: trim_right_snoc_part join_with_Cons join_words_eq_Nil)
    qed
  qed
qed

lemma join_words_hd: "slug_words rs \<noteq> [] \<Longrightarrow> hd (join_with ''-'' (slug_words rs)) \<noteq> CHR ''-''"
proof (induction rs rule: slug_words.induct)
  case (2 r rs)
  have "char_of r \<noteq> CHR ''-''" if "slug_rune r"
    using slug_char_of [OF that] by auto
  with 2 show ?case by (auto simp: join_with_Cons)
qed simp

lemma slug_loop_False:
  "slug_loop rs False = slug_loop rs True \<or> slug_loop rs False = CHR ''-'' # slug_loop rs True"
  by (cases rs) auto

lemma slug_loop_True_hd:
  "slug_loop rs True = [] \<or> hd (slug_loop rs True) \<noteq> CHR ''-''"
  using slug_loop_no_double [of rs True] by simp

lemma full_slug_spec: "full_slug title = slug_spec title"
proof -
  let ?rs = "runes (strings_to_lower title)"
  have "dropWhile (\<lambda>x. x = CHR ''-'') (slug_loop ?rs False) = slug_loop ?rs True"
  proof -
    have "dropWhile (\<lambda>x. x = CHR ''-'') (slug_loop ?rs True) = slug_loop ?rs True"
      using slug_loop_True_hd [of ?rs] by (cases "slug_loop ?rs True") auto
    then show ?thesis using slug_loop_False [of ?rs] by auto
  qed
  then show ?thesis
    by (simp add: full_slug_def slug_spec_def trim_char_def trim_slug_loop_True)
qed

subsection \<open>Facts about the file name\<close>

definition unclipped :: "string \<Rightarrow> string \<Rightarrow> string" where
  "unclipped base slug = (if slug \<noteq> '''' then base @ '' - '' @ slug else base)"

lemma computeTaskFilename_SomeD:
  assumes "computeTaskFilename provider owner repo number sha prTitle maxSlug maxTitle suffix = Some t"
  obtains slug n where "slugifyTitle prTitle maxSlug = Some slug"
    and "t = take n (unclipped (base_filename provider owner repo number sha) slug)
           @ suffix_part suffix"
    and "int (length t) \<le> max maxTitle (int (length (suffix_part suffix)))"
    and "int (length (unclipped (base_filename provider owner repo number sha) slug))
           + int (length (suffix_part suffix)) \<le> maxTitle \<Longrightarrow>
         t = unclipped (base_filename provider owner repo number sha) slug @ suffix_part suffix"
proof -
  let ?S = "suffix_part suffix"
  from assms obtain slug where slug: "slugifyTitle prTitle maxSlug = Some slug"
    by (auto simp: computeTaskFilename_def Let_def)
  define u where "u = unclipped (base_filename provider owner repo number sha) slug"
  define b where "b = max 0 (maxTitle - int (length ?S))"
  have t: "t = (if int (length u) + int (length ?S) > maxTitle then
      (if int (length u) > b then take (nat b) u else u) else u) @ ?S"
    using assms [symmetric] unfolding u_def b_def unclipped_def
    by (simp only: computeTaskFilename_def Let_def slug Option.bind.bind_lunit option.inject)
  then obtain n where n: "t = take n u @ ?S" by (metis order_refl take_all)
  have "int (length t) \<le> max maxTitle (int (length ?S))"
    using t by (auto simp: b_def)
  then show ?thesis
    using that [OF slug n [unfolded u_def]] t u_def by simp
qed

lemma computeTaskFilename_defined:
  "computeTaskFilename provider owner repo number sha prTitle maxSlug maxTitle suffix \<noteq> None \<longleftrightarrow>
    slugifyTitle prTitle maxSlug \<noteq> None"
  by (auto simp: computeTaskFilename_def Let_def)

lemma slugifyTitle_no_panic: "0 \<le> maxSlug \<Longrightarrow> slugifyTitle title maxSlug \<noteq> None"
  by (simp add: slugifyTitle_eq)

text \<open>The characters a vault file name must not hold.\<close>

definition fs_unsafe :: "char \<Rightarrow> bool" where
  "fs_unsafe c \<longleftrightarrow> c = CHR ''/'' \<or> c = CHR '':'' \<or> c = CHR ''#''"

definition fs_safe :: "string \<Rightarrow> bool" where
  "fs_safe s \<longleftrightarrow> (\<forall>c \<in> set s. \<not> fs_unsafe c)"

lemma fs_safe_append [simp]: "fs_safe (s @ t) \<longleftrightarrow> fs_safe s \<and> fs_safe t"
  by (auto simp: fs_safe_def)

lemma fs_safe_simps [simp]: "fs_safe []" "fs_safe (c # s) \<longleftrightarrow> \<not> fs_unsafe c \<and> fs_safe s"
  by (auto simp: fs_safe_def)

lemma fs_safe_take: "fs_safe s \<Longrightarrow> fs_safe (take n s)"
  by (auto simp: fs_safe_def dest: set_takeD)

lemma fs_safe_itoa [simp]: "fs_safe (itoa n)"
  using itoa_no_separators by (auto simp: fs_safe_def fs_unsafe_def)

lemma slug_char_safe: "slug_char c \<Longrightarrow> \<not> fs_unsafe c"
  by (auto simp: slug_char_def slug_rune_def fs_unsafe_def)

lemma slug_ok_safe: "slug_ok s \<Longrightarrow> fs_safe s"
proof -
  assume "slug_ok s"
  then have "\<forall>c \<in> set s. slug_char c \<or> c = CHR ''-''" by (simp add: slug_ok_def)
  moreover have "\<not> fs_unsafe CHR ''-''" by (simp add: fs_unsafe_def)
  ultimately show ?thesis using slug_char_safe unfolding fs_safe_def by blast
qed

lemma base_filename_safe:
  "fs_safe provider \<Longrightarrow> fs_safe owner \<Longrightarrow> fs_safe repo \<Longrightarrow> fs_safe sha \<Longrightarrow>
    fs_safe (base_filename provider owner repo number sha)"
  by (simp add: base_filename_def filenamePrefix_def fs_safe_take fs_unsafe_def)

subsection \<open>Properties\<close>

text \<open>
  C26: The slug of a title is the maximal runs of lower-case letters and digits of the
  lower-cased title joined by single hyphens; when that is longer than the cap it is cut
  to the cap and a hyphen left at the end is removed. It never exceeds the cap, holds only
  \<open>[a-z0-9-]\<close>, and neither starts nor ends with a hyphen nor holds two in a row.
\<close>

theorem slugifyTitle_correct:
  assumes "0 \<le> maxSlug"
  shows "\<exists>s. slugifyTitle title maxSlug = Some s
    \<and> s = (if int (length (slug_spec title)) \<le> maxSlug then slug_spec title
           else trim_right_char CHR ''-'' (take (nat maxSlug) (slug_spec title)))
    \<and> int (length s) \<le> maxSlug \<and> slug_ok s"
proof -
  obtain s where s: "slugifyTitle title maxSlug = Some s"
    using slugifyTitle_defined [OF assms] by blast
  from s assms have "s = (if int (length (slug_spec title)) \<le> maxSlug then slug_spec title
      else trim_right_char CHR ''-'' (take (nat maxSlug) (slug_spec title)))"
    by (simp add: slugifyTitle_eq full_slug_spec split: if_splits)
  with s show ?thesis
    using slugifyTitle_length slugifyTitle_Some_ok by blast
qed

lemma slug_example: "slugifyTitle ''Fix Bug!'' 80 = Some ''fix-bug''"
  by (simp add: slugifyTitle_eq full_slug_def strings_to_lower_def runes_ascii
      to_lower_rune_def encode_rune_ascii trim_char_def trim_right_char_def slug_rune_def
      char_of_eq_iff)

theorem slugifyTitle_correct_witness:
  "slugifyTitle ''Fix Bug!'' 80 = Some ''fix-bug'' \<and> slug_ok ''fix-bug''"
  using slugifyTitle_correct [of 80 "''Fix Bug!''"] slug_example
  by (metis option.inject zero_le_numeral)

text \<open>
  C27: The task file name always ends with the configured suffix, and it is no longer than
  the configured maximum unless the suffix part alone is; as long as everything fits,
  nothing is cut.
\<close>

theorem computeTaskFilename_bounds:
  assumes "computeTaskFilename provider owner repo number sha prTitle maxSlug maxTitle suffix = Some t"
  shows "has_suffix t (suffix_part suffix)
    \<and> int (length t) \<le> max maxTitle (int (length (suffix_part suffix)))
    \<and> (\<exists>slug. slugifyTitle prTitle maxSlug = Some slug \<and>
         (int (length (unclipped (base_filename provider owner repo number sha) slug))
            + int (length (suffix_part suffix)) \<le> maxTitle \<longrightarrow>
          t = unclipped (base_filename provider owner repo number sha) slug @ suffix_part suffix))"
  using assms by (rule computeTaskFilename_SomeD) (auto simp: has_suffix_iff)

theorem computeTaskFilename_bounds_witness:
  "computeTaskFilename ''github'' ''bborbe'' ''repo'' 1 ''abc'' '''' 80 20 ''dev''
     = Some ''Dark Factory I - dev''
   \<and> int (length ''Dark Factory I - dev'') \<le> 20"
proof -
  have t: "computeTaskFilename ''github'' ''bborbe'' ''repo'' 1 ''abc'' '''' 80 20 ''dev''
      = Some ''Dark Factory I - dev''"
    by (simp add: computeTaskFilename_def slugifyTitle_eq full_slug_def strings_to_lower_def
        trim_char_def trim_right_char_def base_filename_def filenamePrefix_def suffix_part_def
        itoa_def nat_digits.simps digit_char_def)
  with computeTaskFilename_bounds [OF t] show ?thesis by (simp add: suffix_part_def)
qed

text \<open>
  C28: The file name holds no slash, colon or hash sign when the provider, owner,
  repository, commit and configured suffix hold none: the title, which the author of the
  pull request chooses freely, cannot introduce one.
\<close>

theorem computeTaskFilename_safe:
  assumes "computeTaskFilename provider owner repo number sha prTitle maxSlug maxTitle suffix = Some t"
    and "fs_safe provider" and "fs_safe owner" and "fs_safe repo" and "fs_safe sha"
    and "fs_safe suffix"
  shows "fs_safe t"
proof -
  obtain slug n where slug: "slugifyTitle prTitle maxSlug = Some slug"
    and t: "t = take n (unclipped (base_filename provider owner repo number sha) slug)
      @ suffix_part suffix"
    using assms(1) by (rule computeTaskFilename_SomeD)
  have "fs_safe slug" using slugifyTitle_Some_ok [OF slug] by (rule slug_ok_safe)
  with base_filename_safe [OF assms(2-5)]
  have "fs_safe (unclipped (base_filename provider owner repo number sha) slug)"
    by (simp add: unclipped_def fs_unsafe_def)
  moreover have "fs_safe (suffix_part suffix)"
    using assms(6) by (simp add: suffix_part_def fs_unsafe_def)
  ultimately show ?thesis using t by (simp add: fs_safe_take)
qed

theorem computeTaskFilename_safe_witness:
  "\<exists>t. computeTaskFilename ''github'' ''bborbe'' ''x'' 7 ''abc'' ''fix/auth: #1'' 80 200 ''dev'' = Some t
     \<and> fs_safe t"
proof -
  have "computeTaskFilename ''github'' ''bborbe'' ''x'' 7 ''abc'' ''fix/auth: #1'' 80 200 ''dev'' \<noteq> None"
    by (subst computeTaskFilename_defined) (simp add: slugifyTitle_no_panic)
  then obtain t where t:
    "computeTaskFilename ''github'' ''bborbe'' ''x'' 7 ''abc'' ''fix/auth: #1'' 80 200 ''dev'' = Some t"
    by blast
  with computeTaskFilename_safe [OF t] show ?thesis
    by (simp add: fs_unsafe_def)
qed

end
