(* ===== verification/Task_Id.thy ===== *)
theory Task_Id
  imports Go_Strings
begin

text \<open>
  \<open>pkg/taskid.go\<close>: the task identifiers. A version 5 UUID of the google/uuid library is
  the parameter \<open>uuid5\<close>: \<open>uuid5 ns data\<close> is the canonical text of
  \<open>uuid.NewSHA1(ns, data)\<close>. What the code relies on, that different keys get different
  identifiers, is a hypothesis about the keys at hand wherever it is needed.
\<close>

type_synonym uuid_fun = "string \<Rightarrow> string \<Rightarrow> string"

definition darkFactoryWatcherNamespace :: string where
  "darkFactoryWatcherNamespace = ''b1f4c2a9-7e63-4d81-9a05-3c8e0f5a6d24''"

text \<open>\<open>owner/repo#number\<close>, the part every key starts with.\<close>

definition pr_ref :: "string \<Rightarrow> string \<Rightarrow> int \<Rightarrow> string" where
  "pr_ref owner repo number = owner @ ''/'' @ repo @ ''#'' @ itoa number"

definition task_key :: "string \<Rightarrow> string \<Rightarrow> int \<Rightarrow> string \<Rightarrow> bool \<Rightarrow> string" where
  "task_key owner repo number sha promptsQueued =
     (if promptsQueued then pr_ref owner repo number @ ''@queued''
      else pr_ref owner repo number @ ''@'' @ sha)"

definition DeriveTaskID ::
  "uuid_fun \<Rightarrow> string \<Rightarrow> string \<Rightarrow> int \<Rightarrow> string \<Rightarrow> bool \<Rightarrow> string" where
  "DeriveTaskID uuid5 owner repo number sha promptsQueued =
     uuid5 darkFactoryWatcherNamespace (task_key owner repo number sha promptsQueued)"

definition task_key_force :: "string \<Rightarrow> string \<Rightarrow> int \<Rightarrow> string \<Rightarrow> string \<Rightarrow> string" where
  "task_key_force owner repo number sha nonce =
     pr_ref owner repo number @ ''@'' @ sha @ ''!'' @ nonce"

definition DeriveTaskIDForce ::
  "uuid_fun \<Rightarrow> string \<Rightarrow> string \<Rightarrow> int \<Rightarrow> string \<Rightarrow> string \<Rightarrow> string" where
  "DeriveTaskIDForce uuid5 owner repo number sha nonce =
     uuid5 darkFactoryWatcherNamespace (task_key_force owner repo number sha nonce)"

subsection \<open>Keys determine their parts\<close>

text \<open>
  GitHub owner names hold no slash and repository names no hash sign. Then a key can be
  taken apart again: the owner ends at the first slash, the repository at the next hash
  sign, the number at the next at sign.
\<close>

definition plain_names :: "string \<Rightarrow> string \<Rightarrow> bool" where
  "plain_names owner repo \<longleftrightarrow> CHR ''/'' \<notin> set owner \<and> CHR ''#'' \<notin> set repo"

lemma pr_ref_inj:
  assumes "pr_ref o1 r1 n1 @ CHR ''@'' # s1 = pr_ref o2 r2 n2 @ CHR ''@'' # s2"
    and "plain_names o1 r1" and "plain_names o2 r2"
  shows "o1 = o2 \<and> r1 = r2 \<and> n1 = n2 \<and> s1 = s2"
proof -
  let ?t1 = "r1 @ CHR ''#'' # itoa n1 @ CHR ''@'' # s1"
  let ?t2 = "r2 @ CHR ''#'' # itoa n2 @ CHR ''@'' # s2"
  have "o1 @ CHR ''/'' # ?t1 = o2 @ CHR ''/'' # ?t2"
    using assms(1) by (simp add: pr_ref_def)
  then have o: "o1 = o2" and t: "?t1 = ?t2"
    using assms(2,3) by (auto simp: plain_names_def dest: take_append_unique)
  from t have r: "r1 = r2" and u: "itoa n1 @ CHR ''@'' # s1 = itoa n2 @ CHR ''@'' # s2"
    using assms(2,3) by (auto simp: plain_names_def dest: take_append_unique)
  from u have "itoa n1 = itoa n2 \<and> s1 = s2"
    by (rule take_append_unique) simp_all
  with o r show ?thesis by (auto dest: itoa_inj)
qed

lemma pr_ref_inj_end:
  assumes "pr_ref o1 r1 n1 = pr_ref o2 r2 n2"
    and "plain_names o1 r1" and "plain_names o2 r2"
  shows "o1 = o2 \<and> r1 = r2 \<and> n1 = n2"
  using pr_ref_inj [of o1 r1 n1 "[]" o2 r2 n2 "[]"] assms by simp

text \<open>Every key is the reference, an at sign and a revision part.\<close>

lemma task_key_shape:
  "task_key owner repo number sha q
    = pr_ref owner repo number @ CHR ''@'' # (if q then ''queued'' else sha)"
  by (simp add: task_key_def)

lemma task_key_force_shape:
  "task_key_force owner repo number sha nonce
    = pr_ref owner repo number @ CHR ''@'' # sha @ CHR ''!'' # nonce"
  by (simp add: task_key_force_def)

lemma task_key_inj:
  assumes "task_key o1 r1 n1 s1 q1 = task_key o2 r2 n2 s2 q2"
    and "plain_names o1 r1" and "plain_names o2 r2"
  shows "o1 = o2 \<and> r1 = r2 \<and> n1 = n2
    \<and> (if q1 then ''queued'' else s1) = (if q2 then ''queued'' else s2)"
  using pr_ref_inj [OF assms(1) [unfolded task_key_shape] assms(2,3)] .

lemma task_key_force_inj:
  assumes "task_key_force o1 r1 n1 s1 c1 = task_key_force o2 r2 n2 s2 c2"
    and "plain_names o1 r1" and "plain_names o2 r2"
    and "CHR ''!'' \<notin> set s1" and "CHR ''!'' \<notin> set s2"
  shows "o1 = o2 \<and> r1 = r2 \<and> n1 = n2 \<and> s1 = s2 \<and> c1 = c2"
  using pr_ref_inj [OF assms(1) [unfolded task_key_force_shape] assms(2,3)]
    take_append_unique [OF _ assms(4,5)] by blast

lemma task_key_force_not_task_key:
  assumes "plain_names o1 r1" and "plain_names o2 r2" and "CHR ''!'' \<notin> set s2"
  shows "task_key_force o1 r1 n1 s1 c1 \<noteq> task_key o2 r2 n2 s2 q2"
proof
  assume "task_key_force o1 r1 n1 s1 c1 = task_key o2 r2 n2 s2 q2"
  then have "s1 @ CHR ''!'' # c1 = (if q2 then ''queued'' else s2)"
    unfolding task_key_shape task_key_force_shape
    using pr_ref_inj assms(1,2) by blast
  moreover have "CHR ''!'' \<in> set (s1 @ CHR ''!'' # c1)" by simp
  ultimately show False using assms(3) by (auto split: if_splits)
qed

subsection \<open>Properties\<close>

text \<open>A set of keys on which the UUID function has no collision.\<close>

definition collision_free :: "uuid_fun \<Rightarrow> string set \<Rightarrow> bool" where
  "collision_free uuid5 K \<longleftrightarrow> inj_on (uuid5 darkFactoryWatcherNamespace) K"

lemma collision_freeD:
  "collision_free uuid5 K \<Longrightarrow> j \<in> K \<Longrightarrow> k \<in> K \<Longrightarrow>
    uuid5 darkFactoryWatcherNamespace j = uuid5 darkFactoryWatcherNamespace k \<Longrightarrow> j = k"
  by (auto simp: collision_free_def inj_on_def)

lemma DeriveTaskID_queued_ignores_sha:
  "DeriveTaskID uuid5 owner repo number sha True = DeriveTaskID uuid5 owner repo number sha' True"
  by (simp add: DeriveTaskID_def task_key_def)

text \<open>
  C24: Two ordinary identifiers coincide only for the same pull request in the same queue
  state and, outside the queued phase, the same head commit. So different pull requests,
  different commits, and the queued and the drained phase of one pull request never share
  a task (unless a commit were named \<open>queued\<close>), while every commit of a queued phase
  does.
\<close>

theorem DeriveTaskID_identifies:
  assumes "plain_names o1 r1" and "plain_names o2 r2"
    and "s1 \<noteq> ''queued''" and "s2 \<noteq> ''queued''"
    and "collision_free uuid5 {task_key o1 r1 n1 s1 q1, task_key o2 r2 n2 s2 q2}"
  shows "DeriveTaskID uuid5 o1 r1 n1 s1 q1 = DeriveTaskID uuid5 o2 r2 n2 s2 q2 \<longleftrightarrow>
    o1 = o2 \<and> r1 = r2 \<and> n1 = n2 \<and> q1 = q2 \<and> (q1 \<or> s1 = s2)"
proof
  assume "DeriveTaskID uuid5 o1 r1 n1 s1 q1 = DeriveTaskID uuid5 o2 r2 n2 s2 q2"
  then have "task_key o1 r1 n1 s1 q1 = task_key o2 r2 n2 s2 q2"
    using assms(5) by (auto simp: DeriveTaskID_def dest: collision_freeD)
  from task_key_inj [OF this assms(1,2)]
  show "o1 = o2 \<and> r1 = r2 \<and> n1 = n2 \<and> q1 = q2 \<and> (q1 \<or> s1 = s2)"
    using assms(3,4) by (auto split: if_splits)
next
  assume "o1 = o2 \<and> r1 = r2 \<and> n1 = n2 \<and> q1 = q2 \<and> (q1 \<or> s1 = s2)"
  then show "DeriveTaskID uuid5 o1 r1 n1 s1 q1 = DeriveTaskID uuid5 o2 r2 n2 s2 q2"
    by (auto simp: DeriveTaskID_def task_key_def)
qed

theorem DeriveTaskID_identifies_witness:
  "DeriveTaskID (\<lambda>ns k. k) ''bborbe'' ''widget'' 42 ''abc123'' True
     = DeriveTaskID (\<lambda>ns k. k) ''bborbe'' ''widget'' 42 ''def456'' True
   \<and> DeriveTaskID (\<lambda>ns k. k) ''bborbe'' ''widget'' 42 ''abc123'' False
     \<noteq> DeriveTaskID (\<lambda>ns k. k) ''bborbe'' ''widget'' 42 ''def456'' False"
  using DeriveTaskID_identifies
      [of "''bborbe''" "''widget''" "''bborbe''" "''widget''" "''abc123''" "''def456''" "\<lambda>ns k. k" 42 True 42 True]
    DeriveTaskID_identifies
      [of "''bborbe''" "''widget''" "''bborbe''" "''widget''" "''abc123''" "''def456''" "\<lambda>ns k. k" 42 False 42 False]
  by (simp add: plain_names_def collision_free_def inj_on_def)

text \<open>
  C25: A forced identifier is told apart by everything it is made from: it differs from every
  ordinary identifier, queued or not, of any pull request, and two forced ones are the same
  exactly when they are for the same pull request, the same commit and the same nonce. The
  nonce being the microsecond of the trigger, two triggers of one pull request in the same
  microsecond share an identifier, and no others do.
\<close>

theorem DeriveTaskIDForce_fresh:
  assumes "plain_names o1 r1" and "plain_names o2 r2"
    and "CHR ''!'' \<notin> set s1" and "CHR ''!'' \<notin> set s2"
    and "collision_free uuid5 {task_key_force o1 r1 n1 s1 c1, task_key o2 r2 n2 s2 q2,
      task_key_force o2 r2 n2 s2 c2}"
  shows "DeriveTaskIDForce uuid5 o1 r1 n1 s1 c1 \<noteq> DeriveTaskID uuid5 o2 r2 n2 s2 q2
    \<and> (DeriveTaskIDForce uuid5 o1 r1 n1 s1 c1 = DeriveTaskIDForce uuid5 o2 r2 n2 s2 c2 \<longleftrightarrow>
        o1 = o2 \<and> r1 = r2 \<and> n1 = n2 \<and> s1 = s2 \<and> c1 = c2)"
proof -
  have "task_key_force o1 r1 n1 s1 c1 \<noteq> task_key o2 r2 n2 s2 q2"
    using assms by (intro task_key_force_not_task_key)
  moreover have "o1 = o2 \<and> r1 = r2 \<and> n1 = n2 \<and> s1 = s2 \<and> c1 = c2"
    if "task_key_force o1 r1 n1 s1 c1 = task_key_force o2 r2 n2 s2 c2"
    using task_key_force_inj [OF that assms(1-4)] .
  ultimately show ?thesis
    using assms(5) by (auto simp: DeriveTaskID_def DeriveTaskIDForce_def dest: collision_freeD)
qed

theorem DeriveTaskIDForce_fresh_witness:
  "DeriveTaskIDForce (\<lambda>ns k. k) ''bborbe'' ''widget'' 42 ''abc123'' ''1000''
     \<noteq> DeriveTaskID (\<lambda>ns k. k) ''bborbe'' ''widget'' 42 ''abc123'' False
   \<and> DeriveTaskIDForce (\<lambda>ns k. k) ''bborbe'' ''widget'' 42 ''abc123'' ''1000''
     \<noteq> DeriveTaskIDForce (\<lambda>ns k. k) ''bborbe'' ''widget'' 42 ''abc123'' ''1001''"
  using DeriveTaskIDForce_fresh
      [of "''bborbe''" "''widget''" "''bborbe''" "''widget''" "''abc123''" "''abc123''" "\<lambda>ns k. k" 42
        "''1000''" 42 False "''1001''"]
  by (simp add: plain_names_def collision_free_def inj_on_def)

end
