(* ===== verification/Vault_Map.thy ===== *)
theory Vault_Map
  imports Go_Text
begin

text \<open>
  \<open>pkg/vaultmap/vaultmap.go\<close>: the map from repositories to vaults. The matcher
  \<open>repoallowlist.IsAllowed\<close> and the shape check \<open>repoallowlist.Validate\<close> of the
  maintainer module are the parameters \<open>is_allowed\<close> and \<open>validate\<close>.
\<close>

type_synonym validate_fun = "string list \<Rightarrow> go_error option"

definition DefaultVault :: string where
  "DefaultVault = ''openclaw''"

text \<open>The regular expression \<open>^[a-z][a-z0-9-]*$\<close>.\<close>

definition lower_char :: "char \<Rightarrow> bool" where
  "lower_char c \<longleftrightarrow> 97 \<le> (of_char c :: nat) \<and> (of_char c :: nat) \<le> 122"

fun vault_slug_match :: "string \<Rightarrow> bool" where
  "vault_slug_match [] = False"
| "vault_slug_match (c # s) =
     (lower_char c \<and> list_all (\<lambda>d. lower_char d \<or> is_digit d \<or> d = CHR ''-'') s)"

record vault_entry =
  glob :: string
  vault :: string

text \<open>One part of the value; \<open>None\<close> is a blank part, which the loop skips.\<close>

definition parse_entry :: "string \<Rightarrow> go_error + vault_entry option" where
  "parse_entry part =
     (let part = trim_space part
      in if part = '''' then Inr None
         else case cut_on CHR ''='' part of
           (g, v, found) \<Rightarrow>
             (let g = trim_space g; v = trim_space v
              in if \<not> found \<or> g = '''' \<or> v = '''' then
                   Inl (Wrapped ''repo-vault-map entry %q must be repo-glob=vault''
                     (Sentinel ValidationError))
                 else if has_prefix g ''!'' then
                   Inl (Wrapped ''repo-vault-map entry %q: negation is not supported''
                     (Sentinel ValidationError))
                 else if \<not> vault_slug_match v then
                   Inl (Wrapped ''repo-vault-map entry %q: vault %q must match %s''
                     (Sentinel ValidationError))
                 else Inr (Some \<lparr>glob = g, vault = v\<rparr>)))"

fun parse_entries :: "string list \<Rightarrow> vault_entry list \<Rightarrow> go_error + vault_entry list" where
  "parse_entries [] entries = Inr entries"
| "parse_entries (part # parts) entries =
     (case parse_entry part of
        Inl err \<Rightarrow> Inl err
      | Inr None \<Rightarrow> parse_entries parts entries
      | Inr (Some e) \<Rightarrow> parse_entries parts (entries @ [e]))"

text \<open>\<open>Parse\<close>; a nil resolver is \<open>None\<close>.\<close>

definition Parse :: "validate_fun \<Rightarrow> string \<Rightarrow> go_error + vault_entry list option" where
  "Parse validate raw =
     (case parse_entries (split_on CHR '','' raw) [] of
        Inl err \<Rightarrow> Inl err
      | Inr entries \<Rightarrow>
          if entries = [] then Inr None
          else (case validate (map glob entries) of
                  Some err \<Rightarrow> Inl (Wrapped ''validate repo-vault-map globs'' err)
                | None \<Rightarrow> Inr (Some entries)))"

text \<open>\<open>resolver.VaultFor\<close>.\<close>

fun VaultFor :: "allow_fun \<Rightarrow> vault_entry list \<Rightarrow> string \<Rightarrow> string" where
  "VaultFor is_allowed [] repoKey = DefaultVault"
| "VaultFor is_allowed (e # es) repoKey =
     (if is_allowed [glob e] repoKey then vault e else VaultFor is_allowed es repoKey)"

subsection \<open>The contract of a resolver\<close>

text \<open>
  What the command builder relies on: a resolver answers every repository, known or not,
  with a slug that a controller can have as its \<open>VAULT_NAME\<close>.
\<close>

locale vault_resolver =
  fixes vault_for :: "string \<Rightarrow> string"
  assumes slug: "vault_slug_match (vault_for key)"
begin

lemma not_empty: "vault_for key \<noteq> ''''"
  using slug [of key] by auto

lemma first_lower: "\<exists>c s. vault_for key = c # s \<and> lower_char c"
  using slug [of key] by (cases "vault_for key") auto

lemma slug_chars:
  "c \<in> set (vault_for key) \<Longrightarrow> lower_char c \<or> is_digit c \<or> c = CHR ''-''"
  using slug [of key] by (cases "vault_for key") (auto simp: list_all_iff)

end

subsection \<open>Facts\<close>

lemma DefaultVault_slug: "vault_slug_match DefaultVault"
  by (simp add: DefaultVault_def lower_char_def)

definition entry_ok :: "vault_entry \<Rightarrow> bool" where
  "entry_ok e \<longleftrightarrow> glob e \<noteq> '''' \<and> \<not> has_prefix (glob e) ''!'' \<and> trim_space (glob e) = glob e
     \<and> vault_slug_match (vault e)"

lemma parse_entry_ok: "parse_entry part = Inr (Some e) \<Longrightarrow> entry_ok e"
  by (auto simp: parse_entry_def entry_ok_def Let_def split: prod.splits if_splits)

lemma parse_entry_error:
  "parse_entry part = Inl err \<Longrightarrow> errors_is err ValidationError"
  by (auto simp: parse_entry_def Let_def split: prod.splits if_splits)

lemma parse_entries_ok:
  "parse_entries parts entries = Inr es \<Longrightarrow> list_all entry_ok entries \<Longrightarrow> list_all entry_ok es"
proof (induction parts arbitrary: entries)
  case (Cons part parts)
  then show ?case
    by (auto split: sum.splits option.splits dest: parse_entry_ok)
qed simp

lemma parse_entries_error:
  "parse_entries parts entries = Inl err \<Longrightarrow> errors_is err ValidationError"
proof (induction parts arbitrary: entries)
  case (Cons part parts)
  then show ?case
    by (auto split: sum.splits option.splits dest: parse_entry_error)
qed simp

lemma Parse_entries_ok: "Parse validate raw = Inr (Some es) \<Longrightarrow> es \<noteq> [] \<and> list_all entry_ok es"
  using parse_entries_ok by (fastforce simp: Parse_def split: sum.splits option.splits if_splits)

lemma VaultFor_slug: "list_all entry_ok es \<Longrightarrow> vault_slug_match (VaultFor is_allowed es key)"
  by (induction es) (auto simp: entry_ok_def DefaultVault_slug)

text \<open>Every resolver \<open>Parse\<close> returns honours the contract.\<close>

definition parsed_vault_for :: "allow_fun \<Rightarrow> validate_fun \<Rightarrow> string \<Rightarrow> string \<Rightarrow> string" where
  "parsed_vault_for is_allowed validate raw key =
     (case Parse validate raw of
        Inr (Some es) \<Rightarrow> VaultFor is_allowed es key
      | _ \<Rightarrow> DefaultVault)"

interpretation parsed: vault_resolver "parsed_vault_for is_allowed validate raw"
  for is_allowed validate raw
  by unfold_locales
     (auto simp: parsed_vault_for_def DefaultVault_slug VaultFor_slug dest!: Parse_entries_ok
       split: sum.splits option.splits)

lemma VaultFor_find:
  "VaultFor is_allowed es key =
    (case find (\<lambda>e. is_allowed [glob e] key) es of None \<Rightarrow> DefaultVault | Some e \<Rightarrow> vault e)"
  by (induction es) auto

subsection \<open>Properties\<close>

text \<open>
  C29: A parsed map sends a repository to the vault of the first entry whose glob matches it
  and an unmapped repository to the default vault; so an entry after one that covers the
  same repository is never consulted. Whatever the map, the answer is a well-formed,
  non-empty vault slug.
\<close>

theorem VaultFor_first_match:
  assumes "Parse validate raw = Inr (Some es)"
  shows "VaultFor is_allowed es key =
      (case find (\<lambda>e. is_allowed [glob e] key) es of None \<Rightarrow> ''openclaw'' | Some e \<Rightarrow> vault e)
    \<and> vault_slug_match (VaultFor is_allowed es key)
    \<and> VaultFor is_allowed es key \<noteq> ''''"
proof -
  have "VaultFor is_allowed es key = parsed_vault_for is_allowed validate raw key"
    using assms by (simp add: parsed_vault_for_def)
  then show ?thesis
    using parsed.slug [of is_allowed validate raw key] parsed.not_empty [of is_allowed validate raw key]
      VaultFor_find [of is_allowed es key]
    by (simp add: DefaultVault_def split: option.splits)
qed

lemma Parse_example:
  "Parse (\<lambda>_. None) ''a/x=v1,a=v2''
    = Inr (Some [\<lparr>glob = ''a/x'', vault = ''v1''\<rparr>, \<lparr>glob = ''a'', vault = ''v2''\<rparr>])"
proof -
  have "trim_space ''a/x=v1'' = ''a/x=v1''" "trim_space ''a=v2'' = ''a=v2''"
    "trim_space ''a/x'' = ''a/x''" "trim_space ''a'' = ''a''" "trim_space ''v1'' = ''v1''"
    "trim_space ''v2'' = ''v2''"
    by (rule trim_plain; simp add: space_eval)+
  then show ?thesis
    by (simp add: Parse_def parse_entry_def lower_char_def is_digit_def)
qed

theorem VaultFor_first_match_witness:
  "VaultFor (\<lambda>gs k. \<exists>g \<in> set gs. has_prefix k g)
     [\<lparr>glob = ''a/x'', vault = ''v1''\<rparr>, \<lparr>glob = ''a'', vault = ''v2''\<rparr>] ''a/x/1'' = ''v1''"
  using VaultFor_first_match [OF Parse_example, of "\<lambda>gs k. \<exists>g \<in> set gs. has_prefix k g" "''a/x/1''"]
  by simp

text \<open>
  Parsing rejects at startup, as a validation error, exactly the values with an entry
  that is no \<open>repo-glob=vault\<close> pair, negates, or names an impossible vault: every error
  that does not come from the glob check is a validation error, every accepted entry is
  well formed, and a value of separators only disables the map.
\<close>

lemma Parse_validates:
  "(\<forall>err. parse_entries (split_on CHR '','' raw) [] = Inl err \<longrightarrow>
      Parse validate raw = Inl err \<and> errors_is err ValidationError)
   \<and> (\<forall>es. Parse validate raw = Inr (Some es) \<longrightarrow>
      es \<noteq> [] \<and> list_all entry_ok es \<and> validate (map glob es) = None)
   \<and> ((\<forall>p \<in> set (split_on CHR '','' raw). trim_space p = '''') \<longrightarrow> Parse validate raw = Inr None)"
proof (intro conjI allI impI)
  fix err
  assume "parse_entries (split_on CHR '','' raw) [] = Inl err"
  then show "Parse validate raw = Inl err" "errors_is err ValidationError"
    by (auto simp: Parse_def dest: parse_entries_error)
next
  fix es
  assume p: "Parse validate raw = Inr (Some es)"
  from Parse_entries_ok [OF p] show "es \<noteq> []" "list_all entry_ok es" by auto
  from p show "validate (map glob es) = None"
    by (auto simp: Parse_def split: sum.splits option.splits if_splits)
next
  assume blank: "\<forall>p \<in> set (split_on CHR '','' raw). trim_space p = ''''"
  have "(\<forall>p \<in> set ps. trim_space p = '''') \<Longrightarrow> parse_entries ps [] = Inr []" for ps
    by (induction ps) (auto simp: parse_entry_def)
  with blank show "Parse validate raw = Inr None" by (simp add: Parse_def)
qed

lemma Parse_validates_witness:
  "Parse (\<lambda>_. None) '','' = Inr None"
  using Parse_validates [of "'',''" "\<lambda>_. None"] by simp

end
