(* ===== verification/Task_Command.thy ===== *)
theory Task_Command
  imports Filename Task_Id Vault_Map Github_Client
begin

text \<open>
  The command builder of \<open>pkg/watcher.go\<close>: from a pull request and its details to the
  \<open>CreateCommand\<close> of the agent library, of which the record below has the fields the
  program fills. A nil \<open>VaultResolver\<close> is \<open>None\<close>; another one is its method
  \<open>VaultFor\<close>.
\<close>

datatype fm_value = FmString string | FmInt int

record CreateCommand =
  cmd_Title :: string
  cmd_TargetVault :: string
  cmd_TaskIdentifier :: string
  cmd_Frontmatter :: "(string, fm_value) go_map"
  cmd_Body :: string

record TaskConfig =
  cfg_Stage :: string
  cfg_MaxSlugLen :: int
  cfg_MaxTitleLen :: int
  cfg_TaskSuffix :: string
  cfg_TargetVault :: string
  cfg_VaultResolver :: "(string \<Rightarrow> string) option"

definition repoKeyOf :: "PullRequest \<Rightarrow> string" where
  "repoKeyOf pr = ''github.com/'' @ Owner pr @ ''/'' @ Repo pr"

definition targetVault :: "PullRequest \<Rightarrow> TaskConfig \<Rightarrow> string" where
  "targetVault pr cfg =
     (case cfg_VaultResolver cfg of
        Some vaultFor \<Rightarrow> vaultFor (repoKeyOf pr)
      | None \<Rightarrow> cfg_TargetVault cfg)"

definition shortSHA :: "string \<Rightarrow> string" where
  "shortSHA sha = (if length sha > 7 then take 7 sha else sha)"

definition buildFrontmatter ::
  "PullRequest \<Rightarrow> PRDetails \<Rightarrow> string \<Rightarrow> string \<Rightarrow> (string, fm_value) go_map"
where
  "buildFrontmatter pr details taskIDStr stage =
     (let repo = Owner pr @ ''/'' @ Repo pr
      in Some [
        (''task_type'', FmString ''dark-factory-implement''),
        (''assignee'', FmString ''github-dark-factory-agent''),
        (''phase'', FmString ''planning''),
        (''status'', FmString ''in_progress''),
        (''stage'', FmString stage),
        (''task_identifier'', FmString taskIDStr),
        (''title'', FmString (''Implement '' @ repo @ '' PR #'' @ itoa (Number pr) @ '' at ''
                              @ shortSHA (d_HeadSHA details))),
        (''repo'', FmString repo),
        (''clone_url'', FmString (''https://github.com/'' @ repo @ ''.git'')),
        (''ref'', FmString (d_HeadSHA details)),
        (''pr_number'', FmInt (Number pr)),
        (''branch'', FmString (d_Branch details))])"

definition buildTaskBody :: "PullRequest \<Rightarrow> PRDetails \<Rightarrow> string list \<Rightarrow> string" where
  "buildTaskBody pr details matchedSpecs =
     (let nl = [CHR 0x0A]
      in ''# Dark-Factory Implement: '' @ Owner pr @ ''/'' @ Repo pr @ '' PR #'' @ itoa (Number pr) @ nl @ nl
         @ HTMLURL pr @ nl @ nl
         @ ''Draft PR carrying an approved-not-completed dark-factory spec.'' @ nl @ nl
         @ ''- **Branch:** '' @ d_Branch details @ nl
         @ ''- **HEAD:** '' @ shortSHA (d_HeadSHA details) @ nl
         @ ''- **Approved specs in diff:** '' @ itoa (int (length matchedSpecs)) @ nl)"

definition BuildCreateCommand ::
  "PullRequest \<Rightarrow> PRDetails \<Rightarrow> string \<Rightarrow> TaskConfig \<Rightarrow> string list \<Rightarrow> CreateCommand option"
where
  "BuildCreateCommand pr details taskIDStr cfg matchedSpecs =
     do {
       title \<leftarrow> computeTaskFilename ''github'' (Owner pr) (Repo pr) (Number pr) (d_HeadSHA details)
                 (d_Title details) (cfg_MaxSlugLen cfg) (cfg_MaxTitleLen cfg) (cfg_TaskSuffix cfg);
       Some \<lparr>cmd_Title = title,
             cmd_TargetVault = targetVault pr cfg,
             cmd_TaskIdentifier = taskIDStr,
             cmd_Frontmatter = buildFrontmatter pr details taskIDStr (cfg_Stage cfg),
             cmd_Body = buildTaskBody pr details matchedSpecs\<rparr>
     }"

subsection \<open>Facts\<close>

lemma BuildCreateCommand_defined:
  "0 \<le> cfg_MaxSlugLen cfg \<Longrightarrow> \<exists>cmd. BuildCreateCommand pr details tid cfg specs = Some cmd"
  using computeTaskFilename_defined [of "''github''" "Owner pr" "Repo pr" "Number pr"
      "d_HeadSHA details" "d_Title details" "cfg_MaxSlugLen cfg" "cfg_MaxTitleLen cfg" "cfg_TaskSuffix cfg"]
    slugifyTitle_no_panic [of "cfg_MaxSlugLen cfg" "d_Title details"]
  by (auto simp: BuildCreateCommand_def)

lemma BuildCreateCommand_SomeD:
  assumes "BuildCreateCommand pr details tid cfg specs = Some cmd"
  shows "cmd_TaskIdentifier cmd = tid" and "cmd_TargetVault cmd = targetVault pr cfg"
    and "cmd_Frontmatter cmd = buildFrontmatter pr details tid (cfg_Stage cfg)"
    and "cmd_Body cmd = buildTaskBody pr details specs"
    and "computeTaskFilename ''github'' (Owner pr) (Repo pr) (Number pr) (d_HeadSHA details)
      (d_Title details) (cfg_MaxSlugLen cfg) (cfg_MaxTitleLen cfg) (cfg_TaskSuffix cfg)
      = Some (cmd_Title cmd)"
  using assms by (auto simp: BuildCreateCommand_def)

lemma frontmatter_entries:
  "map_get (buildFrontmatter pr details tid stage) ''task_identifier'' = Some (FmString tid)"
  "map_get (buildFrontmatter pr details tid stage) ''ref'' = Some (FmString (d_HeadSHA details))"
  "map_get (buildFrontmatter pr details tid stage) ''pr_number'' = Some (FmInt (Number pr))"
  "map_get (buildFrontmatter pr details tid stage) ''branch'' = Some (FmString (d_Branch details))"
  "map_get (buildFrontmatter pr details tid stage) ''stage'' = Some (FmString stage)"
  "map_get (buildFrontmatter pr details tid stage) ''repo''
    = Some (FmString (Owner pr @ ''/'' @ Repo pr))"
  by (simp_all add: buildFrontmatter_def Let_def map_get_def)

lemma frontmatter_wf: "map_wf (buildFrontmatter pr details tid stage)"
  by (simp add: buildFrontmatter_def Let_def map_wf_def map_keys_def)

lemma shortSHA_prefix: "has_prefix sha (shortSHA sha) \<and> length (shortSHA sha) \<le> 7"
  by (auto simp: shortSHA_def has_prefix_def)

lemma repoKeyOf_no_mix:
  "repoKeyOf pr = repoKeyOf pr' \<Longrightarrow> CHR ''/'' \<notin> set (Owner pr) \<Longrightarrow> CHR ''/'' \<notin> set (Owner pr') \<Longrightarrow>
    Owner pr = Owner pr' \<and> Repo pr = Repo pr'"
  by (auto simp: repoKeyOf_def dest: take_append_unique)

text \<open>A pull request to try the properties on.\<close>

definition example_pr :: PullRequest where
  "example_pr =
     \<lparr>GlobalID = 7, Number = 42, Owner = ''bborbe'', Repo = ''widget'', Title = ''Fix Bug!'',
      HTMLURL = ''https://github.com/bborbe/widget/pull/42'', IsDraft = True, UpdatedAt = 100\<rparr>"

definition example_details :: PRDetails where
  "example_details =
     \<lparr>d_HeadSHA = ''abc1234567'', d_CloneURL = ''https://github.com/bborbe/widget.git'',
      d_Branch = ''feature'', d_State = ''open'', d_IsDraft = True, d_Title = ''Fix Bug!'',
      d_UpdatedAt = 100\<rparr>"

definition example_cfg :: TaskConfig where
  "example_cfg =
     \<lparr>cfg_Stage = ''dev'', cfg_MaxSlugLen = 80, cfg_MaxTitleLen = 200, cfg_TaskSuffix = ''dev'',
      cfg_TargetVault = '''', cfg_VaultResolver = None\<rparr>"

text \<open>
  The parts of a command agree with what was asked for. The title ends with the suffix, and
  is no longer than the limit unless the suffix alone is.
\<close>

lemma BuildCreateCommand_contract:
  assumes "0 \<le> cfg_MaxSlugLen cfg"
  shows "\<exists>cmd. BuildCreateCommand pr details tid cfg specs = Some cmd
    \<and> cmd_TaskIdentifier cmd = tid
    \<and> map_wf (cmd_Frontmatter cmd)
    \<and> map_get (cmd_Frontmatter cmd) ''task_identifier'' = Some (FmString tid)
    \<and> map_get (cmd_Frontmatter cmd) ''ref'' = Some (FmString (d_HeadSHA details))
    \<and> map_get (cmd_Frontmatter cmd) ''branch'' = Some (FmString (d_Branch details))
    \<and> map_get (cmd_Frontmatter cmd) ''pr_number'' = Some (FmInt (Number pr))
    \<and> map_get (cmd_Frontmatter cmd) ''repo'' = Some (FmString (Owner pr @ ''/'' @ Repo pr))
    \<and> map_get (cmd_Frontmatter cmd) ''stage'' = Some (FmString (cfg_Stage cfg))
    \<and> has_suffix (cmd_Title cmd) (suffix_part (cfg_TaskSuffix cfg))
    \<and> int (length (cmd_Title cmd))
        \<le> max (cfg_MaxTitleLen cfg) (int (length (suffix_part (cfg_TaskSuffix cfg))))"
proof -
  from BuildCreateCommand_defined [OF assms] obtain cmd
    where cmd: "BuildCreateCommand pr details tid cfg specs = Some cmd" by blast
  from BuildCreateCommand_SomeD(5) [OF cmd]
  have "has_suffix (cmd_Title cmd) (suffix_part (cfg_TaskSuffix cfg))
    \<and> int (length (cmd_Title cmd))
        \<le> max (cfg_MaxTitleLen cfg) (int (length (suffix_part (cfg_TaskSuffix cfg))))"
    by (rule computeTaskFilename_SomeD) (auto simp: has_suffix_iff)
  with cmd BuildCreateCommand_SomeD [OF cmd] show ?thesis
    by (simp add: frontmatter_entries frontmatter_wf)
qed

text \<open>A resolver parsed from a map names a vault for every repository, that of the first entry that
  matches.\<close>

lemma targetVault_routes:
  assumes "Parse validate raw = Inr resolver"
  shows "targetVault pr (cfg\<lparr>cfg_VaultResolver := map_option (VaultFor is_allowed) resolver\<rparr>)
    = (case resolver of
         None \<Rightarrow> cfg_TargetVault cfg
       | Some es \<Rightarrow>
           (case find (\<lambda>e. is_allowed [glob e] (repoKeyOf pr)) es of
              None \<Rightarrow> DefaultVault
            | Some e \<Rightarrow> vault e))
    \<and> (resolver \<noteq> None \<longrightarrow> vault_slug_match
         (targetVault pr (cfg\<lparr>cfg_VaultResolver := map_option (VaultFor is_allowed) resolver\<rparr>)))"
proof (cases resolver)
  case None
  then show ?thesis by (simp add: targetVault_def)
next
  case (Some es)
  with assms Parse_entries_ok have "list_all entry_ok es" by blast
  from VaultFor_slug [OF this] Some show ?thesis
    by (simp add: targetVault_def VaultFor_find split: option.splits)
qed

end
