(* ===== verification/Metrics.thy ===== *)
theory Metrics
  imports Go_Strings "HOL-Library.Option_ord"
begin

text \<open>
  \<open>pkg/metrics.go\<close>: the counters of the watcher. A counter vector maps the label values
  it has seen to their counts; \<open>WithLabelValues\<close> makes a label with the count 0 when it is
  new. The registries of the process are a store of the names registered in each, with the
  default registerer at the address 0.
\<close>

type_synonym counter_vec = "string \<rightharpoonup> nat"

definition count :: "counter_vec \<Rightarrow> string \<Rightarrow> nat" where
  "count c l = (case c l of None \<Rightarrow> 0 | Some n \<Rightarrow> n)"

definition counter_Add :: "nat \<Rightarrow> string \<Rightarrow> counter_vec \<Rightarrow> counter_vec" where
  "counter_Add n l c = c(l \<mapsto> count c l + n)"

record prometheusMetrics =
  pollCyclesTotal :: counter_vec
  publishedTotal :: counter_vec
  reposScannedTotal :: nat
  filterSkippedTotal :: counter_vec

definition IncPollCycle :: "string \<Rightarrow> prometheusMetrics \<Rightarrow> prometheusMetrics" where
  "IncPollCycle result m = m\<lparr>pollCyclesTotal := counter_Add 1 result (pollCyclesTotal m)\<rparr>"

definition IncPublished :: "string \<Rightarrow> prometheusMetrics \<Rightarrow> prometheusMetrics" where
  "IncPublished status m = m\<lparr>publishedTotal := counter_Add 1 status (publishedTotal m)\<rparr>"

definition IncReposScanned :: "prometheusMetrics \<Rightarrow> prometheusMetrics" where
  "IncReposScanned m = m\<lparr>reposScannedTotal := Suc (reposScannedTotal m)\<rparr>"

definition IncFilterSkipped :: "string \<Rightarrow> prometheusMetrics \<Rightarrow> prometheusMetrics" where
  "IncFilterSkipped reason m =
     m\<lparr>filterSkippedTotal := counter_Add 1 reason (filterSkippedTotal m)\<rparr>"

subsection \<open>Construction\<close>

definition metricsNamespace :: string where
  "metricsNamespace = ''github_dark_factory_watcher''"

definition collector_names :: "string list" where
  "collector_names = map (\<lambda>name. metricsNamespace @ ''_'' @ name)
     [''poll_cycles_total'', ''published_total'', ''repos_scanned_total'', ''filter_skipped_total'']"

type_synonym registries = "nat \<Rightarrow> string list"

definition DefaultRegisterer :: nat where
  "DefaultRegisterer = 0"

text \<open>\<open>MustRegister\<close> registers one collector after the other and panics on a duplicate.\<close>

fun MustRegister :: "string list \<Rightarrow> string list \<Rightarrow> string list option" where
  "MustRegister [] registered = Some registered"
| "MustRegister (name # names) registered =
     (if name \<in> set registered then None else MustRegister names (name # registered))"

definition poll_results :: "string list" where
  "poll_results = [''success'', ''rate_limited'', ''github_error'']"

definition published_statuses :: "string list" where
  "published_statuses = [''create'', ''create_queued'', ''skipped'', ''error'']"

definition skip_reasons :: "string list" where
  "skip_reasons = [''out_of_scope'', ''details_error'', ''empty_sha'', ''not_draft'', ''not_open'',
     ''no_dark_factory_yaml'', ''no_spec_in_diff'', ''evaluate_error'', ''queued_marker'']"

definition NewMetrics ::
  "nat option \<Rightarrow> registries \<Rightarrow> (prometheusMetrics \<times> registries) option"
where
  "NewMetrics registerer regs =
     (let r = (case registerer of None \<Rightarrow> DefaultRegisterer | Some r \<Rightarrow> r)
      in case MustRegister collector_names (regs r) of
           None \<Rightarrow> None
         | Some registered \<Rightarrow>
             Some (\<lparr>pollCyclesTotal = fold (counter_Add 0) poll_results Map.empty,
                    publishedTotal = fold (counter_Add 0) published_statuses Map.empty,
                    reposScannedTotal = 0,
                    filterSkippedTotal = fold (counter_Add 0) skip_reasons Map.empty\<rparr>,
                   regs(r := registered)))"

subsection \<open>Facts\<close>

lemma count_empty [simp]: "count Map.empty l = 0"
  by (simp add: count_def)

lemma count_Add [simp]:
  "count (counter_Add n l c) k = (if k = l then count c k + n else count c k)"
  by (simp add: counter_Add_def count_def)

lemma dom_Add [simp]: "dom (counter_Add n l c) = insert l (dom c)"
  by (simp add: counter_Add_def)

lemma dom_fold_Add: "dom (fold (counter_Add n) ls c) = set ls \<union> dom c"
  by (induction ls arbitrary: c) auto

lemma count_fold_Add0: "count (fold (counter_Add 0) ls c) k = count c k"
  by (induction ls arbitrary: c) auto

lemma Inc_simps [simp]:
  "pollCyclesTotal (IncPublished s m) = pollCyclesTotal m"
  "pollCyclesTotal (IncReposScanned m) = pollCyclesTotal m"
  "pollCyclesTotal (IncFilterSkipped r m) = pollCyclesTotal m"
  "publishedTotal (IncPollCycle c m) = publishedTotal m"
  "publishedTotal (IncReposScanned m) = publishedTotal m"
  "publishedTotal (IncFilterSkipped r m) = publishedTotal m"
  "reposScannedTotal (IncPollCycle c m) = reposScannedTotal m"
  "reposScannedTotal (IncPublished s m) = reposScannedTotal m"
  "reposScannedTotal (IncFilterSkipped r m) = reposScannedTotal m"
  "filterSkippedTotal (IncPollCycle c m) = filterSkippedTotal m"
  "filterSkippedTotal (IncPublished s m) = filterSkippedTotal m"
  "filterSkippedTotal (IncReposScanned m) = filterSkippedTotal m"
  "pollCyclesTotal (IncPollCycle c m) = counter_Add 1 c (pollCyclesTotal m)"
  "publishedTotal (IncPublished s m) = counter_Add 1 s (publishedTotal m)"
  "reposScannedTotal (IncReposScanned m) = Suc (reposScannedTotal m)"
  "filterSkippedTotal (IncFilterSkipped r m) = counter_Add 1 r (filterSkippedTotal m)"
  by (simp_all add: IncPollCycle_def IncPublished_def IncReposScanned_def IncFilterSkipped_def)

lemma MustRegister_Some:
  "MustRegister names registered = Some out \<longleftrightarrow>
     distinct names \<and> set names \<inter> set registered = {} \<and> out = rev names @ registered"
  by (induction names arbitrary: registered) auto

lemma NewMetrics_labels:
  assumes "NewMetrics r regs = Some (m, regs')"
  shows "dom (pollCyclesTotal m) = set poll_results" and "dom (publishedTotal m) = set published_statuses"
    and "dom (filterSkippedTotal m) = set skip_reasons"
proof -
  from assms have "m = \<lparr>pollCyclesTotal = fold (counter_Add 0) poll_results Map.empty,
      publishedTotal = fold (counter_Add 0) published_statuses Map.empty, reposScannedTotal = 0,
      filterSkippedTotal = fold (counter_Add 0) skip_reasons Map.empty\<rparr>"
    by (auto simp: NewMetrics_def Let_def split: option.splits)
  then show "dom (pollCyclesTotal m) = set poll_results" "dom (publishedTotal m) = set published_statuses"
    "dom (filterSkippedTotal m) = set skip_reasons"
    by (simp_all add: dom_fold_Add)
qed

lemma distinct_collectors: "distinct collector_names"
  by (simp add: collector_names_def metricsNamespace_def)

subsection \<open>Counters only go up\<close>

text \<open>
  Metrics are ordered by what they have counted: in greater metrics every label exposed
  before is still exposed and no count is lower. Absent labels are least, so that the order
  of a counter vector is the pointwise one of the library.
\<close>

instantiation prometheusMetrics_ext :: (order) order
begin

definition less_eq_prometheusMetrics_ext ::
  "'a prometheusMetrics_scheme \<Rightarrow> 'a prometheusMetrics_scheme \<Rightarrow> bool"
where
  "m \<le> n \<longleftrightarrow> pollCyclesTotal m \<le> pollCyclesTotal n \<and> publishedTotal m \<le> publishedTotal n
     \<and> reposScannedTotal m \<le> reposScannedTotal n \<and> filterSkippedTotal m \<le> filterSkippedTotal n
     \<and> prometheusMetrics.more m \<le> prometheusMetrics.more n"

definition less_prometheusMetrics_ext ::
  "'a prometheusMetrics_scheme \<Rightarrow> 'a prometheusMetrics_scheme \<Rightarrow> bool"
where
  "m < n \<longleftrightarrow> m \<le> n \<and> \<not> (n :: 'a prometheusMetrics_scheme) \<le> m"

instance
proof (standard, goal_cases)
  case 1
  show ?case by (simp add: less_prometheusMetrics_ext_def)
next
  case 2
  show ?case by (simp add: less_eq_prometheusMetrics_ext_def)
next
  case 3
  then show ?case unfolding less_eq_prometheusMetrics_ext_def by (blast intro: order_trans)
next
  case (4 m n)
  then show ?case unfolding less_eq_prometheusMetrics_ext_def
    by (intro prometheusMetrics.equality) (blast intro: order_antisym)+
qed

end

lemma counter_le_iff:
  "(c :: counter_vec) \<le> d \<longleftrightarrow> dom c \<subseteq> dom d \<and> (\<forall>l. count c l \<le> count d l)"
proof
  assume "c \<le> d"
  then have "c l \<le> d l" for l by (simp add: le_fun_def)
  then have "l \<in> dom c \<longrightarrow> l \<in> dom d" and "count c l \<le> count d l" for l
    by (cases "c l"; cases "d l"; simp add: count_def domIff; metis less_eq_option_Some less_eq_option_Some_None)+
  then show "dom c \<subseteq> dom d \<and> (\<forall>l. count c l \<le> count d l)" by blast
next
  assume a: "dom c \<subseteq> dom d \<and> (\<forall>l. count c l \<le> count d l)"
  show "c \<le> d"
  proof (rule le_funI)
    fix l
    from a have "count c l \<le> count d l" and "l \<in> dom c \<longrightarrow> l \<in> dom d" by auto
    then show "c l \<le> d l" by (cases "c l"; cases "d l") (auto simp: count_def)
  qed
qed

lemma counter_Add_le: "c \<le> counter_Add n l c"
  unfolding counter_le_iff by auto

lemma metrics_le_iff:
  "(m :: prometheusMetrics) \<le> n \<longleftrightarrow> pollCyclesTotal m \<le> pollCyclesTotal n \<and> publishedTotal m \<le> publishedTotal n
     \<and> reposScannedTotal m \<le> reposScannedTotal n \<and> filterSkippedTotal m \<le> filterSkippedTotal n"
  by (simp add: less_eq_prometheusMetrics_ext_def)

lemma Inc_le [simp, intro]:
  "m \<le> IncPollCycle l m" "m \<le> IncPublished l m" "m \<le> IncReposScanned m" "m \<le> IncFilterSkipped l m"
  by (simp_all add: metrics_le_iff counter_Add_le)

text \<open>The number of events a counter vector has counted for some labels.\<close>

definition total :: "string list \<Rightarrow> counter_vec \<Rightarrow> nat" where
  "total ls c = sum_list (map (count c) ls)"

lemma total_Add_in:
  "distinct ls \<Longrightarrow> l \<in> set ls \<Longrightarrow> total ls (counter_Add n l c) = total ls c + n"
proof (induction ls)
  case Nil
  then show ?case by simp
next
  case (Cons k ls)
  show ?case
  proof (cases "k = l")
    case True
    with Cons.prems have "l \<notin> set ls" by simp
    then have ms: "map (count (counter_Add n l c)) ls = map (count c) ls"
      by (intro map_cong refl) auto
    from ms True show ?thesis by (simp only: total_def list.map sum_list.Cons) simp
  next
    case False
    with Cons show ?thesis by (simp add: total_def)
  qed
qed

text \<open>
  A registry takes the metrics of the watcher exactly once: the first construction on a
  registry without these names gives counters at 0 that already expose every documented
  label, and a second construction on the same registry panics.
\<close>

lemma NewMetrics_correct:
  assumes "set collector_names \<inter> set (regs (case r of None \<Rightarrow> DefaultRegisterer | Some a \<Rightarrow> a)) = {}"
  shows "\<exists>m regs'. NewMetrics r regs = Some (m, regs') \<and> NewMetrics r regs' = None
    \<and> dom (pollCyclesTotal m) = set poll_results
    \<and> dom (publishedTotal m) = set published_statuses
    \<and> dom (filterSkippedTotal m) = set skip_reasons
    \<and> (\<forall>l. count (pollCyclesTotal m) l + count (publishedTotal m) l + count (filterSkippedTotal m) l
           + reposScannedTotal m = 0)"
proof -
  let ?a = "case r of None \<Rightarrow> DefaultRegisterer | Some a \<Rightarrow> a"
  have ok: "MustRegister collector_names (regs ?a) = Some (rev collector_names @ regs ?a)"
    using assms distinct_collectors by (simp add: MustRegister_Some)
  have "MustRegister collector_names (rev collector_names @ regs ?a) = None"
    by (simp add: collector_names_def)
  with ok show ?thesis
    by (simp add: NewMetrics_def Let_def dom_fold_Add count_fold_Add0)
qed

lemma NewMetrics_correct_witness:
  "\<exists>m regs'. NewMetrics None (\<lambda>_. []) = Some (m, regs')
    \<and> NewMetrics None regs' = None \<and> dom (pollCyclesTotal m) = set poll_results"
  using NewMetrics_correct [of "\<lambda>_. []" None] by auto

end
