(* ===== verification/Repo_Filter.thy ===== *)
theory Repo_Filter
  imports Go_Text
begin

text \<open>
  \<open>pkg/filter\<close>: the scope filter. The allowlist matcher
  \<open>repoallowlist.IsAllowed\<close> of the maintainer module is the parameter \<open>is_allowed\<close>.
  A \<open>TaskCreationFilter\<close>, an interface with the one method \<open>Skip\<close>, is a function from a pull
  request to "skip it?".
\<close>

record filter_PR =
  RepoKey :: string

type_synonym TaskCreationFilter = "filter_PR \<Rightarrow> bool"

text \<open>A function as a filter.\<close>

definition filterFunc_Skip :: "(filter_PR \<Rightarrow> bool) \<Rightarrow> TaskCreationFilter" where
  "filterFunc_Skip f pr = f pr"

text \<open>\<open>TaskCreationFilters.Skip\<close>: the loop that returns at the first member that skips.\<close>

fun filters_Skip :: "TaskCreationFilter list \<Rightarrow> TaskCreationFilter" where
  "filters_Skip [] pr = False"
| "filters_Skip (f # fs) pr = (if f pr then True else filters_Skip fs pr)"

definition repoAllowlistFilter_Skip :: "allow_fun \<Rightarrow> string list \<Rightarrow> TaskCreationFilter" where
  "repoAllowlistFilter_Skip is_allowed allowlist pr = (\<not> is_allowed allowlist (RepoKey pr))"

definition NewRepoAllowlistFilter :: "allow_fun \<Rightarrow> string list \<Rightarrow> TaskCreationFilter" where
  "NewRepoAllowlistFilter is_allowed allowlist = repoAllowlistFilter_Skip is_allowed allowlist"

text \<open>The loop of \<open>ParseRepoAllowlist\<close> over the comma-separated parts; its error is always nil.\<close>

fun allowlist_entries :: "string list \<Rightarrow> string list" where
  "allowlist_entries [] = []"
| "allowlist_entries (p # ps) =
     (let e = trim_space p
      in if e \<noteq> '''' then e # allowlist_entries ps else allowlist_entries ps)"

definition ParseRepoAllowlist :: "string \<Rightarrow> string list" where
  "ParseRepoAllowlist raw =
     (if raw = '''' then [] else allowlist_entries (split_on CHR '','' raw))"

subsection \<open>The contract of a filter chain\<close>

text \<open>
  What the watcher relies on when it is handed a filter: a chain skips exactly what some
  member skips, so adding a member can only narrow the scope.
\<close>

locale filter_chain =
  fixes skip :: "'p \<Rightarrow> bool"
    and members :: "('p \<Rightarrow> bool) list"
  assumes skip_iff: "skip p \<longleftrightarrow> (\<exists>f \<in> set members. f p)"
begin

lemma member_skips: "f \<in> set members \<Longrightarrow> f p \<Longrightarrow> skip p"
  using skip_iff by blast

lemma in_scope: "\<not> skip p \<Longrightarrow> f \<in> set members \<Longrightarrow> \<not> f p"
  using skip_iff by blast

lemma no_members: "members = [] \<Longrightarrow> \<not> skip p"
  by (simp add: skip_iff)

lemma single_member: "members = [f] \<Longrightarrow> skip p = f p"
  by (simp add: skip_iff)

end

lemma filters_Skip_iff: "filters_Skip fs pr \<longleftrightarrow> (\<exists>f \<in> set fs. f pr)"
  by (induction fs) auto

interpretation chain: filter_chain "filters_Skip fs" fs for fs
  by unfold_locales (rule filters_Skip_iff)

lemma allowlist_entries_eq:
  "allowlist_entries ps = filter (\<lambda>e. e \<noteq> '''') (map trim_space ps)"
  by (induction ps) (auto simp: Let_def)

lemma ParseRepoAllowlist_eq:
  "ParseRepoAllowlist raw = filter (\<lambda>e. e \<noteq> '''') (map trim_space (split_on CHR '','' raw))"
  by (simp add: ParseRepoAllowlist_def allowlist_entries_eq)

lemma ParseRepoAllowlist_entry:
  assumes "e \<in> set (ParseRepoAllowlist raw)"
  shows "e \<noteq> '''' \<and> CHR '','' \<notin> set e \<and> trim_space e = e"
proof -
  from assms obtain p where e: "e = trim_space p" "e \<noteq> ''''"
    and p: "p \<in> set (split_on CHR '','' raw)"
    unfolding ParseRepoAllowlist_eq by auto
  have "CHR '','' \<notin> set e"
    using split_on_no_sep [OF p] set_trim_space [of p] e(1) by blast
  with e show ?thesis by simp
qed

subsection \<open>Properties\<close>

text \<open>
  The scope filter of the program, the chain with the one allowlist member, skips a
  repository exactly when the allowlist built from \<open>REPO_ALLOWLIST\<close> does not admit it;
  the list holds the comma-separated entries, trimmed, without the blank ones.
\<close>

lemma scope_filter_correct:
  "filters_Skip [NewRepoAllowlistFilter is_allowed (ParseRepoAllowlist raw)] \<lparr>RepoKey = key\<rparr>
     = (\<not> is_allowed (ParseRepoAllowlist raw) key)
   \<and> ParseRepoAllowlist raw
     = filter (\<lambda>e. e \<noteq> '''') (map trim_space (split_on CHR '','' raw))
   \<and> (\<forall>e. e \<in> set (ParseRepoAllowlist raw) \<longrightarrow>
        e \<noteq> '''' \<and> CHR '','' \<notin> set e \<and> trim_space e = e)"
proof (intro conjI)
  show "filters_Skip [NewRepoAllowlistFilter is_allowed (ParseRepoAllowlist raw)] \<lparr>RepoKey = key\<rparr>
      = (\<not> is_allowed (ParseRepoAllowlist raw) key)"
    by (subst chain.single_member [OF refl])
       (simp add: NewRepoAllowlistFilter_def repoAllowlistFilter_Skip_def)
qed (use ParseRepoAllowlist_entry in \<open>blast intro: ParseRepoAllowlist_eq\<close>)+

lemma scope_filter_correct_witness:
  "ParseRepoAllowlist ''a,b'' = [''a'', ''b'']
   \<and> filters_Skip [NewRepoAllowlistFilter (\<lambda>l k. k \<in> set l) [''a'', ''b'']] \<lparr>RepoKey = ''c''\<rparr>"
proof -
  have tr: "trim_space ''a'' = ''a''" "trim_space ''b'' = ''b''"
    by (rule trim_plain; simp add: space_eval)+
  note c = scope_filter_correct [of "\<lambda>l k. k \<in> set l" "''a,b''" "''c''"]
  have "ParseRepoAllowlist ''a,b''
      = filter (\<lambda>e. e \<noteq> '''') (map trim_space (split_on CHR '','' ''a,b''))"
    using c by blast
  then have l: "ParseRepoAllowlist ''a,b'' = [''a'', ''b'']" using tr by simp
  with conjunct1 [OF c] show ?thesis by simp
qed

end
