(* ===== verification/Watcher.thy ===== *)
theory Watcher
  imports Cursor Task_Command Metrics Repo_Filter
begin

text \<open>
  \<open>pkg/watcher.go\<close>: one poll of the watcher. The struct \<open>watcher\<close> is the record below,
  with the library calls it reaches as further fields: the cancellation of the context
  (\<open>ctx_Done\<close>, asked at every \<open>select\<close>), the outcome of the accesses to the disk, the
  version 5 UUIDs, the YAML decoder and the JSON text of a time. The state of a poll is the
  world, the counters and the files; while it processes pull requests also the cursor it
  updates in place and the map \<open>newHeadSHAs\<close> it fills. The history variable \<open>sent\<close> lists
  the commands the sender accepted.
\<close>

record 'w watcher =
  ghClient :: "'w GitHubClient"
  SendCommand :: "CreateCommand \<Rightarrow> ('w, go_error option) call"
  cursorPath :: string
  startTime :: datetime
  w_scope :: string
  scopeFilter :: TaskCreationFilter
  w_cfg :: TaskConfig
  ctx_Done :: "'w \<Rightarrow> bool \<times> 'w"
  Disk :: "'w \<Rightarrow> disk_faults \<times> 'w"
  uuid5 :: uuid_fun
  yaml_unmarshal :: yaml_fun
  codec :: time_codec

record 'w wstate =
  world :: 'w
  metrics :: prometheusMetrics
  disk :: files
  sent :: "CreateCommand list"

record 'w pstate = "'w wstate" +
  cursor :: Cursor
  newHeadSHAs :: "(string, string) go_map"

definition ReasonQueuedMarker :: string where
  "ReasonQueuedMarker = ''queued_marker''"

definition queuedMarkerKey :: "PullRequest \<Rightarrow> string" where
  "queuedMarkerKey pr = Owner pr @ ''/'' @ Repo pr @ ''#'' @ itoa (Number pr)"

definition taskIDsFor :: "uuid_fun \<Rightarrow> PullRequest \<Rightarrow> string \<Rightarrow> bool \<Rightarrow> string \<times> string" where
  "taskIDsFor uuid pr headSHA promptsQueued =
     (let queuedKey = DeriveTaskID uuid (Owner pr) (Repo pr) (Number pr) headSHA True;
          taskIDStr = DeriveTaskID uuid (Owner pr) (Repo pr) (Number pr) headSHA promptsQueued
      in (taskIDStr, queuedKey))"

definition publishedStatus :: "bool \<Rightarrow> string" where
  "publishedStatus promptsQueued = (if promptsQueued then ''create_queued'' else ''create'')"

subsection \<open>Processing a pull request\<close>

definition publish ::
  "'w watcher \<Rightarrow> PullRequest \<Rightarrow> PRDetails \<Rightarrow> string \<Rightarrow> string list \<Rightarrow> bool \<Rightarrow> ('w pstate, bool) call"
where
  "publish w pr details taskIDStr matchedSpecs promptsQueued s =
     do {
       cmd \<leftarrow> BuildCreateCommand pr details taskIDStr (w_cfg w) matchedSpecs;
       (err, wd) \<leftarrow> SendCommand w cmd (world s);
       let s = s\<lparr>world := wd\<rparr>;
       if err \<noteq> None then Some (False, s\<lparr>metrics := IncPublished ''error'' (metrics s)\<rparr>)
       else Some (True, s\<lparr>metrics := IncPublished (publishedStatus promptsQueued) (metrics s),
                          sent := sent s @ [cmd]\<rparr>)
     }"

text \<open>A skipped pull request: counted with its reason, and it does not advance the cursor.\<close>

definition skipped :: "string \<Rightarrow> 'w pstate \<Rightarrow> ((datetime \<times> bool) \<times> 'w pstate) option" where
  "skipped reason s =
     Some ((zero_time, False), s\<lparr>metrics := IncFilterSkipped reason (metrics s)\<rparr>)"

text \<open>A store into the map \<open>newHeadSHAs\<close>, which panics when it is nil.\<close>

definition keep_head :: "string \<Rightarrow> string \<Rightarrow> 'w pstate \<Rightarrow> 'w pstate option" where
  "keep_head taskIDStr sha s =
     map_option (\<lambda>m. s\<lparr>newHeadSHAs := m\<rparr>) (map_put taskIDStr sha (newHeadSHAs s))"

definition set_head :: "string \<Rightarrow> string \<Rightarrow> 'w pstate \<Rightarrow> 'w pstate option" where
  "set_head taskIDStr sha s =
     map_option (\<lambda>m. s\<lparr>cursor := (cursor s)\<lparr>HeadSHAs := m\<rparr>\<rparr>) (map_put taskIDStr sha (HeadSHAs (cursor s)))"

definition set_marker :: "string \<Rightarrow> string \<Rightarrow> 'w pstate \<Rightarrow> 'w pstate option" where
  "set_marker key queuedKey s =
     map_option (\<lambda>m. s\<lparr>cursor := (cursor s)\<lparr>QueuedMarkers := m\<rparr>\<rparr>)
       (map_put key queuedKey (QueuedMarkers (cursor s)))"

definition clear_marker :: "string \<Rightarrow> 'w pstate \<Rightarrow> 'w pstate" where
  "clear_marker key s =
     s\<lparr>cursor := (cursor s)\<lparr>QueuedMarkers := map_delete key (QueuedMarkers (cursor s))\<rparr>\<rparr>"

text \<open>The part of \<open>processPR\<close> for a candidate: deduplication, marker, publication.\<close>

definition handle_candidate ::
  "'w watcher \<Rightarrow> PullRequest \<Rightarrow> PRDetails \<Rightarrow> Result \<Rightarrow> ('w pstate, datetime \<times> bool) call"
where
  "handle_candidate w pr details result s =
     (let (taskIDStr, queuedKey) = taskIDsFor (uuid5 w) pr (d_HeadSHA details) (PromptsQueued result)
      in if map_get (HeadSHAs (cursor s)) taskIDStr \<noteq> None then
           do {
             s \<leftarrow> keep_head taskIDStr (d_HeadSHA details) s;
             Some ((UpdatedAt pr, True), s)
           }
         else if map_get (QueuedMarkers (cursor s)) (queuedMarkerKey pr) \<noteq> None then
           do {
             let s = s\<lparr>metrics := IncFilterSkipped ReasonQueuedMarker (metrics s)\<rparr>;
             s \<leftarrow> keep_head taskIDStr (d_HeadSHA details) s;
             Some ((UpdatedAt pr, True), s)
           }
         else
           do {
             (ok, s) \<leftarrow> publish w pr details taskIDStr (MatchedSpecs result) (PromptsQueued result) s;
             if \<not> ok then Some ((zero_time, False), s)
             else
               do {
                 s \<leftarrow> set_head taskIDStr (d_HeadSHA details) s;
                 s \<leftarrow> keep_head taskIDStr (d_HeadSHA details) s;
                 s \<leftarrow> (if PromptsQueued result then set_marker (queuedMarkerKey pr) queuedKey s else Some s);
                 Some ((UpdatedAt pr, True), s)
               }
           })"

definition eval_input :: "PullRequest \<Rightarrow> PRDetails \<Rightarrow> Input" where
  "eval_input pr details =
     \<lparr>in_Owner = Owner pr, in_Repo = Repo pr, in_Number = Number pr, in_HeadSHA = d_HeadSHA details,
      in_IsDraft = d_IsDraft details, in_State = d_State details\<rparr>"

definition processPR :: "'w watcher \<Rightarrow> PullRequest \<Rightarrow> ('w pstate, datetime \<times> bool) call" where
  "processPR w pr s =
     (let s = s\<lparr>metrics := IncReposScanned (metrics s)\<rparr>
      in if scopeFilter w \<lparr>RepoKey = repoKeyOf pr\<rparr> then skipped ''out_of_scope'' s
         else
           do {
             (details, wd) \<leftarrow> GetPRDetails (ghClient w) (Owner pr) (Repo pr) (Number pr) (world s);
             let s = s\<lparr>world := wd\<rparr>;
             case details of
               Inl _ \<Rightarrow> skipped ''details_error'' s
             | Inr details \<Rightarrow>
                 if d_HeadSHA details = '''' then skipped ''empty_sha'' s
                 else
                   do {
                     (result, wd) \<leftarrow>
                       Evaluate (yaml_unmarshal w) (ghClient w) (eval_input pr details) (world s);
                     let s = s\<lparr>world := wd\<rparr>;
                     case result of
                       Inl _ \<Rightarrow> skipped ''evaluate_error'' s
                     | Inr result \<Rightarrow>
                         if \<not> Keep result then
                           (let s = (if Reason result = ReasonNoSpecInDiff \<or> Reason result = ReasonNotOpen
                                     then clear_marker (queuedMarkerKey pr) s else s)
                            in skipped (Reason result) s)
                         else handle_candidate w pr details result s
                   }
           })"

text \<open>The loop of \<open>processPRs\<close>.\<close>

definition commit_heads :: "'w pstate \<Rightarrow> 'w pstate" where
  "commit_heads s = s\<lparr>cursor := (cursor s)\<lparr>HeadSHAs := newHeadSHAs s\<rparr>\<rparr>"

fun process_loop :: "'w watcher \<Rightarrow> PullRequest list \<Rightarrow> datetime \<Rightarrow> ('w pstate, datetime) call" where
  "process_loop w [] maxUpdatedAt s = Some (maxUpdatedAt, commit_heads s)"
| "process_loop w (pr # prs) maxUpdatedAt s =
     (case ctx_Done w (world s) of
        (done, wd) \<Rightarrow>
          (let s = s\<lparr>world := wd\<rparr>
           in if done then Some (maxUpdatedAt, commit_heads s)
              else
                do {
                  ((updatedAt, ok), s) \<leftarrow> processPR w pr s;
                  process_loop w prs
                    (if ok \<and> updatedAt > maxUpdatedAt then updatedAt else maxUpdatedAt) s
                }))"

definition processPRs :: "'w watcher \<Rightarrow> PullRequest list \<Rightarrow> ('w pstate, datetime) call" where
  "processPRs w allPRs s =
     process_loop w allPRs (LastUpdatedAt (cursor s)) (s\<lparr>newHeadSHAs := make_map\<rparr>)"

subsection \<open>Fetching the pull requests\<close>

text \<open>The result is the list and the reason to abort, empty when there is none.\<close>

partial_function (option) fetch_loop ::
  "'w watcher \<Rightarrow> datetime \<Rightarrow> int \<Rightarrow> PullRequest list \<Rightarrow> 'w
    \<Rightarrow> ((PullRequest list \<times> string) \<times> 'w) option"
where
  "fetch_loop w since page allPRs wd =
     (case ctx_Done w wd of
        (done, wd) \<Rightarrow>
          if done then Some (([], ''''), wd)
          else
            do {
              (result, wd) \<leftarrow> SearchPRs (ghClient w) (w_scope w) since page wd;
              case result of
                Inl _ \<Rightarrow> Some (([], ''github_error''), wd)
              | Inr result \<Rightarrow>
                  if \<not> HasNextPage result then Some ((allPRs @ PullRequests result, ''''), wd)
                  else fetch_loop w since (NextPage result) (allPRs @ PullRequests result) wd
            })"

definition fetchAllPRs :: "'w watcher \<Rightarrow> datetime \<Rightarrow> ('w, PullRequest list \<times> string) call" where
  "fetchAllPRs w since = fetch_loop w since 1 []"

subsection \<open>A poll\<close>

definition begin_batch :: "Cursor \<Rightarrow> 'w wstate \<Rightarrow> 'w pstate" where
  "begin_batch c s =
     \<lparr>world = world s, metrics = metrics s, disk = disk s, sent = sent s, cursor = c,
      newHeadSHAs = None\<rparr>"

definition Poll :: "'w watcher \<Rightarrow> ('w wstate, go_error option) call" where
  "Poll w s =
     (let (faults, wd) = Disk w (world s); s = s\<lparr>world := wd\<rparr>
      in case LoadCursor (codec w) faults (disk s) (cursorPath w) (startTime w) of
           Inl err \<Rightarrow> Some (Some (Wrapped ''load cursor'' err), s)
         | Inr cursorState \<Rightarrow>
             do {
               ((allPRs, abortReason), wd) \<leftarrow> fetchAllPRs w (LastUpdatedAt cursorState) (world s);
               let s = s\<lparr>world := wd\<rparr>;
               if abortReason \<noteq> '''' then
                 Some (None, s\<lparr>metrics := IncPollCycle abortReason (metrics s)\<rparr>)
               else
                 (let (done, wd) = ctx_Done w (world s); s = s\<lparr>world := wd\<rparr>
                  in if done then Some (None, s)
                     else
                       do {
                         (maxUpdatedAt, p) \<leftarrow> processPRs w allPRs (begin_batch cursorState s);
                         let cursorState =
                           (if maxUpdatedAt > LastUpdatedAt (cursor p)
                            then (cursor p)\<lparr>LastUpdatedAt := maxUpdatedAt\<rparr> else cursor p);
                         let (faults, wd) = Disk w (world p);
                         let (_, files) = SaveCursor (codec w) faults (disk p) (cursorPath w) cursorState;
                         Some (None, \<lparr>world = wd, metrics = IncPollCycle ''success'' (metrics p),
                                      disk = files, sent = sent p\<rparr>)
                       })
             })"

end
