(* ===== verification/Watcher_Steps.thy ===== *)
theory Watcher_Steps
  imports Watcher
begin

text \<open>
  One step of the watcher, seen from outside: what \<open>processPR\<close> observes and what it does,
  as an elimination rule, and its refinement of an abstract machine over three sets, the
  task identifiers known from the last poll, those of this poll, and the marked pull
  requests.
\<close>

subsection \<open>What is observed\<close>

text \<open>The pull request was found to be a candidate, with these details and verdict.\<close>

definition candidate ::
  "'w watcher \<Rightarrow> PullRequest \<Rightarrow> 'w \<Rightarrow> PRDetails \<Rightarrow> Result \<Rightarrow> 'w \<Rightarrow> bool"
where
  "candidate w pr wd0 details result wd \<longleftrightarrow>
     \<not> scopeFilter w \<lparr>RepoKey = repoKeyOf pr\<rparr>
     \<and> (\<exists>wd1. GetPRDetails (ghClient w) (Owner pr) (Repo pr) (Number pr) wd0 = Some (Inr details, wd1)
         \<and> d_HeadSHA details \<noteq> ''''
         \<and> Evaluate (yaml_unmarshal w) (ghClient w) (eval_input pr details) wd1 = Some (Inr result, wd))
     \<and> Keep result"

text \<open>The pull request was skipped for a reason, with the world after it.\<close>

inductive skip_reason :: "'w watcher \<Rightarrow> PullRequest \<Rightarrow> 'w \<Rightarrow> string \<Rightarrow> 'w \<Rightarrow> bool"
  for w pr wd0 where
  out_of_scope: "scopeFilter w \<lparr>RepoKey = repoKeyOf pr\<rparr> \<Longrightarrow> skip_reason w pr wd0 ''out_of_scope'' wd0"
| details_error: "\<not> scopeFilter w \<lparr>RepoKey = repoKeyOf pr\<rparr> \<Longrightarrow>
    GetPRDetails (ghClient w) (Owner pr) (Repo pr) (Number pr) wd0 = Some (Inl err, wd1) \<Longrightarrow>
    skip_reason w pr wd0 ''details_error'' wd1"
| empty_sha: "\<not> scopeFilter w \<lparr>RepoKey = repoKeyOf pr\<rparr> \<Longrightarrow>
    GetPRDetails (ghClient w) (Owner pr) (Repo pr) (Number pr) wd0 = Some (Inr details, wd1) \<Longrightarrow>
    d_HeadSHA details = '''' \<Longrightarrow> skip_reason w pr wd0 ''empty_sha'' wd1"
| evaluate_error: "\<not> scopeFilter w \<lparr>RepoKey = repoKeyOf pr\<rparr> \<Longrightarrow>
    GetPRDetails (ghClient w) (Owner pr) (Repo pr) (Number pr) wd0 = Some (Inr details, wd1) \<Longrightarrow>
    d_HeadSHA details \<noteq> '''' \<Longrightarrow>
    Evaluate (yaml_unmarshal w) (ghClient w) (eval_input pr details) wd1 = Some (Inl err, wd2) \<Longrightarrow>
    skip_reason w pr wd0 ''evaluate_error'' wd2"
| verdict: "\<not> scopeFilter w \<lparr>RepoKey = repoKeyOf pr\<rparr> \<Longrightarrow>
    GetPRDetails (ghClient w) (Owner pr) (Repo pr) (Number pr) wd0 = Some (Inr details, wd1) \<Longrightarrow>
    d_HeadSHA details \<noteq> '''' \<Longrightarrow>
    Evaluate (yaml_unmarshal w) (ghClient w) (eval_input pr details) wd1 = Some (Inr result, wd2) \<Longrightarrow>
    \<not> Keep result \<Longrightarrow> reason = Reason result \<Longrightarrow> skip_reason w pr wd0 reason wd2"

text \<open>The reasons after which a marker is dropped.\<close>

definition clears :: "string \<Rightarrow> bool" where
  "clears reason \<longleftrightarrow> reason = ReasonNoSpecInDiff \<or> reason = ReasonNotOpen"

lemma not_clears [simp]:
  "\<not> clears ''out_of_scope''" "\<not> clears ''details_error''" "\<not> clears ''empty_sha''"
  "\<not> clears ''evaluate_error''" "clears ''no_spec_in_diff''" "clears ''not_open''"
  "\<not> clears ''not_draft''" "\<not> clears ''no_dark_factory_yaml''"
  by (simp_all add: clears_def reason_defs)

lemma verdict_reasons:
  assumes "Evaluate y rd inp wd = Some (Inr result, wd')" and "\<not> Keep result"
  shows "Reason result \<in> {''not_draft'', ''not_open'', ''no_dark_factory_yaml'', ''no_spec_in_diff''}"
  using assms(1)
  by (cases rule: Evaluate_cases) (use assms(2) in \<open>auto simp: skip_def reason_defs\<close>)

lemma skip_reason_label:
  "skip_reason w pr wd0 reason wd \<Longrightarrow> reason \<in> set skip_reasons \<and> reason \<noteq> ''queued_marker''"
  by (cases rule: skip_reason.cases, assumption)
     (auto simp: skip_reasons_def dest!: verdict_reasons)

definition task_id_of :: "'w watcher \<Rightarrow> PullRequest \<Rightarrow> PRDetails \<Rightarrow> Result \<Rightarrow> string" where
  "task_id_of w pr details result = fst (taskIDsFor (uuid5 w) pr (d_HeadSHA details) (PromptsQueued result))"

definition queued_key_of :: "'w watcher \<Rightarrow> PullRequest \<Rightarrow> PRDetails \<Rightarrow> string" where
  "queued_key_of w pr details = DeriveTaskID (uuid5 w) (Owner pr) (Repo pr) (Number pr) (d_HeadSHA details) True"

lemma taskIDsFor_eq:
  "taskIDsFor (uuid5 w) pr (d_HeadSHA details) (PromptsQueued result)
    = (task_id_of w pr details result, queued_key_of w pr details)"
  by (simp add: task_id_of_def queued_key_of_def taskIDsFor_def)

subsection \<open>The branches of a candidate\<close>

lemma publish_cases:
  assumes "publish w pr details tid specs queued s = Some (ok, s')"
  obtains (failed) cmd err wd where "BuildCreateCommand pr details tid (w_cfg w) specs = Some cmd"
      "SendCommand w cmd (world s) = Some (Some err, wd)" "\<not> ok"
      "s' = s\<lparr>world := wd, metrics := IncPublished ''error'' (metrics s)\<rparr>"
    | (sent) cmd wd where "BuildCreateCommand pr details tid (w_cfg w) specs = Some cmd"
      "SendCommand w cmd (world s) = Some (None, wd)" "ok"
      "s' = s\<lparr>world := wd, metrics := IncPublished (publishedStatus queued) (metrics s), sent := sent s @ [cmd]\<rparr>"
proof -
  from assms obtain cmd err wd where c: "BuildCreateCommand pr details tid (w_cfg w) specs = Some cmd"
    and s: "SendCommand w cmd (world s) = Some (err, wd)"
    by (auto simp: publish_def)
  show thesis
  proof (cases err)
    case None
    with assms c s show thesis by (intro that(2) [of cmd wd]) (simp_all add: publish_def)
  next
    case (Some e)
    with assms c s show thesis by (intro that(1) [of cmd e wd]) (simp_all add: publish_def)
  qed
qed

lemma handle_candidate_cases:
  fixes s :: "'w pstate"
  defines "heads \<equiv> HeadSHAs (cursor s)" and "marks \<equiv> QueuedMarkers (cursor s)"
  assumes "handle_candidate w pr details result s = Some ((t, ok), s')"
    and tid: "tid = task_id_of w pr details result" and sha: "sha = d_HeadSHA details"
  obtains (known) new where "map_get heads tid \<noteq> None" "map_put tid sha (newHeadSHAs s) = Some new"
      "t = UpdatedAt pr" "ok" "s' = s\<lparr>newHeadSHAs := new\<rparr>"
    | (marked) new where "map_get heads tid = None" "map_get marks (queuedMarkerKey pr) \<noteq> None"
      "map_put tid sha (newHeadSHAs s) = Some new" "t = UpdatedAt pr" "ok"
      "s' = s\<lparr>metrics := IncFilterSkipped ''queued_marker'' (metrics s), newHeadSHAs := new\<rparr>"
    | (failed) cmd err wd where "map_get heads tid = None" "map_get marks (queuedMarkerKey pr) = None"
      "BuildCreateCommand pr details tid (w_cfg w) (MatchedSpecs result) = Some cmd"
      "SendCommand w cmd (world s) = Some (Some err, wd)" "t = zero_time" "\<not> ok"
      "s' = s\<lparr>world := wd, metrics := IncPublished ''error'' (metrics s)\<rparr>"
    | (sent) cmd wd h new q where "map_get heads tid = None" "map_get marks (queuedMarkerKey pr) = None"
      "BuildCreateCommand pr details tid (w_cfg w) (MatchedSpecs result) = Some cmd"
      "SendCommand w cmd (world s) = Some (None, wd)" "t = UpdatedAt pr" "ok"
      "map_put tid sha heads = Some h" "map_put tid sha (newHeadSHAs s) = Some new"
      "(if PromptsQueued result then map_put (queuedMarkerKey pr) (queued_key_of w pr details) marks
        else Some marks) = Some q"
      "s' = s\<lparr>world := wd, metrics := IncPublished (publishedStatus (PromptsQueued result)) (metrics s),
              sent := sent s @ [cmd],
              cursor := (cursor s)\<lparr>HeadSHAs := h, QueuedMarkers := q\<rparr>, newHeadSHAs := new\<rparr>"
proof -
  note h = assms(3) [unfolded handle_candidate_def Let_def taskIDsFor_eq split_conv,
      folded tid sha heads_def marks_def]
  consider "map_get heads tid \<noteq> None"
    | "map_get heads tid = None" "map_get marks (queuedMarkerKey pr) \<noteq> None"
    | "map_get heads tid = None" "map_get marks (queuedMarkerKey pr) = None" by blast
  then show thesis
  proof cases
    case 1
    with h obtain new where "map_put tid sha (newHeadSHAs s) = Some new" "t = UpdatedAt pr" "ok"
        "s' = s\<lparr>newHeadSHAs := new\<rparr>"
      by (auto simp: keep_head_def)
    with 1 show thesis by (rule known)
  next
    case 2
    with h obtain new where "map_put tid sha (newHeadSHAs s) = Some new" "t = UpdatedAt pr" "ok"
        "s' = s\<lparr>metrics := IncFilterSkipped ''queued_marker'' (metrics s), newHeadSHAs := new\<rparr>"
      by (auto simp: keep_head_def ReasonQueuedMarker_def)
    with 2 show thesis by (rule marked)
  next
    case 3
    with h obtain ok1 s1 where p: "publish w pr details tid (MatchedSpecs result) (PromptsQueued result) s
        = Some (ok1, s1)" by auto
    from p show thesis
    proof (cases rule: publish_cases)
      case (failed cmd err wd)
      with h 3 p that(3) show thesis by simp
    next
      case (sent cmd wd)
      with h 3 p obtain h new where hn: "map_put tid sha heads = Some h"
          "map_put tid sha (newHeadSHAs s) = Some new"
        by (auto simp: keep_head_def set_head_def heads_def)
      with h 3 p sent obtain q where q: "(if PromptsQueued result
            then map_put (queuedMarkerKey pr) (queued_key_of w pr details) marks else Some marks) = Some q"
        by (cases "PromptsQueued result")
           (auto simp: keep_head_def set_head_def set_marker_def heads_def marks_def)
      with h 3 p sent hn have "t = UpdatedAt pr \<and> ok \<and> s' = s\<lparr>world := wd,
            metrics := IncPublished (publishedStatus (PromptsQueued result)) (metrics s), sent := sent s @ [cmd],
            cursor := (cursor s)\<lparr>HeadSHAs := h, QueuedMarkers := q\<rparr>, newHeadSHAs := new\<rparr>"
        by (cases "PromptsQueued result")
           (auto simp: keep_head_def set_head_def set_marker_def heads_def marks_def)
      then show thesis by (intro that(4) [OF 3 sent(1,2) _ _ hn q]) simp_all
    qed
  qed
qed

subsection \<open>The branches of a pull request\<close>

definition after_skip :: "string \<Rightarrow> string \<Rightarrow> 'w \<Rightarrow> 'w pstate \<Rightarrow> 'w pstate" where
  "after_skip key reason wd s =
     (let s1 = s\<lparr>world := wd, metrics := IncFilterSkipped reason (IncReposScanned (metrics s))\<rparr>
      in if clears reason then clear_marker key s1 else s1)"

definition scanned :: "'w \<Rightarrow> 'w pstate \<Rightarrow> 'w pstate" where
  "scanned wd s = s\<lparr>metrics := IncReposScanned (metrics s), world := wd\<rparr>"

lemma processPR_cases:
  assumes "processPR w pr s = Some ((t, ok), s')"
  obtains (skip) reason wd where "skip_reason w pr (world s) reason wd" "t = zero_time" "\<not> ok"
      "s' = after_skip (queuedMarkerKey pr) reason wd s"
    | (candidate) details result wd where "candidate w pr (world s) details result wd"
      "handle_candidate w pr details result (scanned wd s) = Some ((t, ok), s')"
proof (cases "scopeFilter w \<lparr>RepoKey = repoKeyOf pr\<rparr>")
  case True
  with assms out_of_scope [OF True] show thesis
    by (intro skip [of "''out_of_scope''" "world s"])
       (auto simp: processPR_def skipped_def after_skip_def)
next
  case scope: False
  let ?m = "IncReposScanned (metrics s)"
  note p = assms [unfolded processPR_def Let_def]
  from p scope obtain det wd1
    where d: "GetPRDetails (ghClient w) (Owner pr) (Repo pr) (Number pr) (world s) = Some (det, wd1)"
    by auto
  show thesis
  proof (cases det)
    case (Inl err)
    with p scope d details_error [OF scope, of "world s" err wd1] show thesis
      by (intro skip [of "''details_error''" wd1]) (auto simp: skipped_def after_skip_def)
  next
    case (Inr details)
    show thesis
    proof (cases "d_HeadSHA details = ''''")
      case True
      with p scope d Inr empty_sha [OF scope, of "world s" details wd1] show thesis
        by (intro skip [of "''empty_sha''" wd1]) (auto simp: skipped_def after_skip_def)
    next
      case sha: False
      from p scope d Inr sha obtain res wd2
        where e: "Evaluate (yaml_unmarshal w) (ghClient w) (eval_input pr details) wd1 = Some (res, wd2)"
        by auto
      note d' = d [unfolded Inr]
      show thesis
      proof (cases res)
        case err: (Inl err)
        from evaluate_error [OF scope d' sha e [unfolded err]] p scope d' sha e err Inr show thesis
          by (intro skip [of "''evaluate_error''" wd2]) (auto simp: skipped_def after_skip_def)
      next
        case res: (Inr result)
        show thesis
        proof (cases "Keep result")
          case False
          from verdict [OF scope d' sha e [unfolded res] False refl] p scope d' sha e res Inr False
          show thesis
            by (intro skip [of "Reason result" wd2])
               (auto simp: skipped_def after_skip_def clears_def clear_marker_def Let_def)
        next
          case True
          with scope d' sha e res have "candidate w pr (world s) details result wd2"
            by (auto simp: candidate_def)
          moreover from p scope d' sha e res Inr True
          have "handle_candidate w pr details result (scanned wd2 s) = Some ((t, ok), s')"
            by (simp add: scanned_def)
          ultimately show thesis by (rule candidate)
        qed
      qed
    qed
  qed
qed

subsection \<open>The abstract machine\<close>

text \<open>
  What one pull request did: it was skipped for a reason, found unchanged since the last
  poll, suppressed by its marker, sent in vain, or sent, as a queued trigger or not.
\<close>

datatype label =
    Skip string
  | Unchanged string
  | Suppressed string
  | Failed string
  | Sent string bool

record amachine =
  known :: "string set"
  fresh :: "string set"
  marked :: "string set"

inductive astep :: "amachine \<Rightarrow> string \<Rightarrow> label \<Rightarrow> amachine \<Rightarrow> bool" where
  skip: "astep a k (Skip r) (if clears r then a\<lparr>marked := marked a - {k}\<rparr> else a)"
| unchanged: "i \<in> known a \<Longrightarrow> astep a k (Unchanged i) (a\<lparr>fresh := insert i (fresh a)\<rparr>)"
| suppressed: "i \<notin> known a \<Longrightarrow> k \<in> marked a \<Longrightarrow>
    astep a k (Suppressed i) (a\<lparr>fresh := insert i (fresh a)\<rparr>)"
| failed: "i \<notin> known a \<Longrightarrow> k \<notin> marked a \<Longrightarrow> astep a k (Failed i) a"
| sent: "i \<notin> known a \<Longrightarrow> k \<notin> marked a \<Longrightarrow>
    astep a k (Sent i queued)
      (a\<lparr>known := insert i (known a), fresh := insert i (fresh a),
         marked := (if queued then insert k (marked a) else marked a)\<rparr>)"

inductive_simps astep_simps [simp]:
  "astep a k (Skip r) a'" "astep a k (Unchanged i) a'" "astep a k (Suppressed i) a'"
  "astep a k (Failed i) a'" "astep a k (Sent i queued) a'"

definition abs :: "'w pstate \<Rightarrow> amachine" where
  "abs s = \<lparr>known = dom (map_get (HeadSHAs (cursor s))), fresh = dom (map_get (newHeadSHAs s)),
            marked = dom (map_get (QueuedMarkers (cursor s)))\<rparr>"

text \<open>What a label means for the counters, the sender and the result.\<close>

definition count_label :: "label \<Rightarrow> prometheusMetrics \<Rightarrow> prometheusMetrics" where
  "count_label l m =
     (case l of
        Skip r \<Rightarrow> IncFilterSkipped r (IncReposScanned m)
      | Unchanged i \<Rightarrow> IncReposScanned m
      | Suppressed i \<Rightarrow> IncFilterSkipped ''queued_marker'' (IncReposScanned m)
      | Failed i \<Rightarrow> IncPublished ''error'' (IncReposScanned m)
      | Sent i queued \<Rightarrow> IncPublished (publishedStatus queued) (IncReposScanned m))"

definition advances :: "label \<Rightarrow> bool" where
  "advances l \<longleftrightarrow> (case l of Skip r \<Rightarrow> False | Failed i \<Rightarrow> False | _ \<Rightarrow> True)"

definition sent_ids :: "label \<Rightarrow> string list" where
  "sent_ids l = (case l of Sent i queued \<Rightarrow> [i] | _ \<Rightarrow> [])"

text \<open>
  The observation behind a label: a reason that was met, or a candidate whose identifier
  and queued flag the label carries and, when it was sent, the command.
\<close>

definition observed ::
  "'w watcher \<Rightarrow> PullRequest \<Rightarrow> 'w \<Rightarrow> label \<Rightarrow> CreateCommand list \<Rightarrow> bool"
where
  "observed w pr wd0 l cmds \<longleftrightarrow>
     (case l of
        Skip r \<Rightarrow> (\<exists>wd. skip_reason w pr wd0 r wd) \<and> cmds = []
      | Sent i queued \<Rightarrow>
          (\<exists>details result wd cmd. candidate w pr wd0 details result wd
             \<and> i = task_id_of w pr details result \<and> queued = PromptsQueued result
             \<and> BuildCreateCommand pr details i (w_cfg w) (MatchedSpecs result) = Some cmd
             \<and> cmds = [cmd])
      | Unchanged i \<Rightarrow>
          (\<exists>details result wd. candidate w pr wd0 details result wd \<and> i = task_id_of w pr details result)
          \<and> cmds = []
      | Suppressed i \<Rightarrow>
          (\<exists>details result wd. candidate w pr wd0 details result wd \<and> i = task_id_of w pr details result)
          \<and> cmds = []
      | Failed i \<Rightarrow>
          (\<exists>details result wd. candidate w pr wd0 details result wd \<and> i = task_id_of w pr details result)
          \<and> cmds = [])"

lemma dom_put: "map_put k v m = Some m' \<Longrightarrow> dom (map_get m') = insert k (dom (map_get m))"
  by (rule map_put_dom)

lemma dom_delete: "dom (map_get (map_delete k m)) = dom (map_get m) - {k}"
  by (auto simp: map_get_delete dom_def)

lemma not_None_dom: "map_get m k \<noteq> None \<longleftrightarrow> k \<in> dom (map_get m)"
  by (simp add: dom_def)

subsection \<open>The refinement\<close>

text \<open>
  The abstract machine and everything else one pull request changes, given the label, the
  commands sent and the result.
\<close>

definition refines ::
  "'w watcher \<Rightarrow> PullRequest \<Rightarrow> 'w pstate \<Rightarrow> label \<Rightarrow> CreateCommand list \<Rightarrow> datetime \<times> bool \<Rightarrow> 'w pstate \<Rightarrow> bool"
where
  "refines w pr s l cmds r s' \<longleftrightarrow>
     astep (abs s) (queuedMarkerKey pr) l (abs s')
     \<and> observed w pr (world s) l cmds
     \<and> metrics s' = count_label l (metrics s)
     \<and> sent s' = sent s @ cmds
     \<and> disk s' = disk s
     \<and> LastUpdatedAt (cursor s') = LastUpdatedAt (cursor s)
     \<and> r = (if advances l then (UpdatedAt pr, True) else (zero_time, False))"

lemma abs_skip:
  "abs (after_skip k r wd s) = (if clears r then (abs s)\<lparr>marked := marked (abs s) - {k}\<rparr> else abs s)"
  by (simp add: abs_def after_skip_def clear_marker_def Let_def dom_delete)

lemma skip_refines:
  assumes "skip_reason w pr (world s) reason wd"
  shows "refines w pr s (Skip reason) [] (zero_time, False) (after_skip (queuedMarkerKey pr) reason wd s)"
proof -
  have "astep (abs s) (queuedMarkerKey pr) (Skip reason) (abs (after_skip (queuedMarkerKey pr) reason wd s))"
    by (simp add: abs_skip)
  moreover have "observed w pr (world s) (Skip reason) []" using assms by (auto simp: observed_def)
  ultimately show ?thesis
    by (simp add: refines_def advances_def after_skip_def clear_marker_def count_label_def Let_def)
qed

lemma candidate_refines:
  assumes c: "candidate w pr (world s) details result wd"
    and h: "handle_candidate w pr details result (scanned wd s) = Some ((t, ok), s')"
  shows "\<exists>l cmds. refines w pr s l cmds (t, ok) s'"
proof -
  let ?i = "task_id_of w pr details result"
  let ?s = "scanned wd s"
  have [simp]: "cursor ?s = cursor s" "newHeadSHAs ?s = newHeadSHAs s" "sent ?s = sent s"
      "metrics ?s = IncReposScanned (metrics s)" "disk ?s = disk s"
    by (simp_all add: scanned_def)
  from h refl [of ?i] refl [of "d_HeadSHA details"] show ?thesis
  proof (cases rule: handle_candidate_cases)
    case (known new)
    with c have "refines w pr s (Unchanged ?i) [] (t, ok) s'"
      using dom_put [OF known(2)]
      by (auto simp: refines_def abs_def advances_def observed_def count_label_def)
    then show ?thesis by blast
  next
    case (marked new)
    with c have "refines w pr s (Suppressed ?i) [] (t, ok) s'"
      using dom_put [OF marked(3)]
      by (auto simp: refines_def abs_def advances_def observed_def count_label_def)
    then show ?thesis by blast
  next
    case (failed cmd err wd')
    with c have "refines w pr s (Failed ?i) [] (t, ok) s'"
      by (auto simp: refines_def abs_def advances_def observed_def count_label_def)
    then show ?thesis by blast
  next
    case (sent cmd wd' hd new q)
    let ?l = "Sent ?i (PromptsQueued result)"
    have d: "dom (map_get q) = (if PromptsQueued result
        then insert (queuedMarkerKey pr) (dom (map_get (QueuedMarkers (cursor s))))
        else dom (map_get (QueuedMarkers (cursor s))))"
      using sent(9) dom_put [of "queuedMarkerKey pr" _ "QueuedMarkers (cursor s)" q]
      by (auto split: if_splits)
    have "astep (abs s) (queuedMarkerKey pr) ?l (abs s')"
      using sent(1,2,10) dom_put [OF sent(7)] dom_put [OF sent(8)] d
      by (simp add: abs_def domIff)
    moreover have "observed w pr (world s) ?l [cmd]"
      using c sent(3) by (auto simp: observed_def)
    ultimately have "refines w pr s ?l [cmd] (t, ok) s'"
      using sent by (simp add: refines_def advances_def count_label_def)
    then show ?thesis by blast
  qed
qed

theorem processPR_refines:
  assumes "processPR w pr s = Some (r, s')"
  obtains l cmds where "refines w pr s l cmds r s'"
proof -
  obtain t ok where r: "r = (t, ok)" by (cases r)
  from assms [unfolded r] show thesis
  proof (cases rule: processPR_cases)
    case (skip reason wd)
    with skip_refines [OF skip(1)] r that show thesis by auto
  next
    case (candidate details result wd)
    with candidate_refines [OF candidate(1,2)] r that show thesis by blast
  qed
qed

end
