(* ===== verification/Watcher_Batch.thy ===== *)
theory Watcher_Batch
  imports Watcher_Steps
begin

text \<open>
  The batch of one poll: the traces of the abstract machine and their invariants, and the
  proof that \<open>processPRs\<close> runs such a trace over the pull requests it was given.
\<close>

subsection \<open>Traces of the abstract machine\<close>

inductive atrace :: "amachine \<Rightarrow> (string \<times> label) list \<Rightarrow> amachine \<Rightarrow> bool" where
  atrace_Nil: "atrace a [] a"
| atrace_Cons: "astep a k l a1 \<Longrightarrow> atrace a1 es a2 \<Longrightarrow> atrace a ((k, l) # es) a2"

inductive_simps atrace_simps [simp]: "atrace a [] a'" "atrace a ((k, l) # es) a'"

lemma atrace_append:
  "atrace a (es @ fs) a' \<longleftrightarrow> (\<exists>a1. atrace a es a1 \<and> atrace a1 fs a')"
proof (induction es arbitrary: a)
  case Nil
  show ?case by simp
next
  case (Cons e es)
  obtain k l where "e = (k, l)" by (cases e)
  with Cons.IH show ?case by simp blast
qed

definition ids_sent :: "(string \<times> label) list \<Rightarrow> string list" where
  "ids_sent es = concat (map (\<lambda>e. sent_ids (snd e)) es)"

definition label_id :: "label \<Rightarrow> string option" where
  "label_id l =
     (case l of Skip r \<Rightarrow> None | Unchanged i \<Rightarrow> Some i | Suppressed i \<Rightarrow> Some i | Failed i \<Rightarrow> None
      | Sent i queued \<Rightarrow> Some i)"

lemma ids_sent_simps [simp]:
  "ids_sent [] = []" "ids_sent ((k, l) # es) = sent_ids l @ ids_sent es"
  "ids_sent (es @ fs) = ids_sent es @ ids_sent fs"
  by (simp_all add: ids_sent_def)

lemma astep_known: "astep a k l a' \<Longrightarrow> known a' = known a \<union> set (sent_ids l)"
  by (cases l) (auto simp: sent_ids_def)

lemma astep_fresh: "astep a k l a' \<Longrightarrow> fresh a' = fresh a \<union> set_option (label_id l)"
  by (cases l) (auto simp: label_id_def)

lemma astep_sent_new: "astep a k l a' \<Longrightarrow> set (sent_ids l) \<inter> known a = {}"
  by (cases l) (auto simp: sent_ids_def)

text \<open>An identifier is sent at most once, and never one that was known before.\<close>

lemma atrace_ids_distinct:
  "atrace a es a' \<Longrightarrow> distinct (ids_sent es) \<and> set (ids_sent es) \<inter> known a = {}
    \<and> known a' = known a \<union> set (ids_sent es)"
proof (induction rule: atrace.induct)
  case (atrace_Nil a)
  then show ?case by simp
next
  case (atrace_Cons a k l a1 es a2)
  from astep_known [OF atrace_Cons.hyps(1)] astep_sent_new [OF atrace_Cons.hyps(1)] atrace_Cons.IH
  show ?case by (cases l) (auto simp: sent_ids_def)
qed

lemma atrace_fresh:
  "atrace a es a' \<Longrightarrow> fresh a' = fresh a \<union> {i. \<exists>e \<in> set es. label_id (snd e) = Some i}"
  by (induction rule: atrace.induct) (auto dest!: astep_fresh)

text \<open>
  Markers. A marked pull request is not sent to anyone before a skip that clears it, and
  stays marked as long as there is none; a queued trigger marks.
\<close>

definition cleared_in :: "string \<Rightarrow> (string \<times> label) list \<Rightarrow> bool" where
  "cleared_in k es \<longleftrightarrow> (\<exists>r. (k, Skip r) \<in> set es \<and> clears r)"

definition sent_in :: "string \<Rightarrow> (string \<times> label) list \<Rightarrow> bool" where
  "sent_in k es \<longleftrightarrow> (\<exists>i q. (k, Sent i q) \<in> set es)"

lemma cleared_in_simps [simp]:
  "\<not> cleared_in k []"
  "cleared_in k (es @ fs) \<longleftrightarrow> cleared_in k es \<or> cleared_in k fs"
  "cleared_in k ((j, l) # es) \<longleftrightarrow> (j = k \<and> (\<exists>r. l = Skip r \<and> clears r)) \<or> cleared_in k es"
  by (auto simp: cleared_in_def)

lemma sent_in_simps [simp]:
  "\<not> sent_in k []"
  "sent_in k (es @ fs) \<longleftrightarrow> sent_in k es \<or> sent_in k fs"
  "sent_in k ((j, l) # es) \<longleftrightarrow> (j = k \<and> (\<exists>i q. l = Sent i q)) \<or> sent_in k es"
  by (auto simp: sent_in_def)

lemma astep_marked:
  "astep a j l a' \<Longrightarrow> k \<in> marked a \<Longrightarrow> \<not> (j = k \<and> (\<exists>r. l = Skip r \<and> clears r)) \<Longrightarrow>
    k \<in> marked a' \<and> \<not> (j = k \<and> (\<exists>i q. l = Sent i q))"
  by (cases l) (auto split: if_splits)

lemma astep_marks: "astep a k (Sent i True) a' \<Longrightarrow> k \<in> marked a'"
  by simp

lemma atrace_marked:
  "atrace a es a' \<Longrightarrow> k \<in> marked a \<Longrightarrow> \<not> cleared_in k es \<Longrightarrow> k \<in> marked a' \<and> \<not> sent_in k es"
proof (induction rule: atrace.induct)
  case (atrace_Nil a)
  then show ?case by simp
next
  case (atrace_Cons a j l a1 es a2)
  then have m: "k \<in> marked a1 \<and> \<not> (j = k \<and> (\<exists>i q. l = Sent i q))"
    using astep_marked [OF atrace_Cons.hyps(1)] by simp
  with atrace_Cons show ?case by auto
qed

lemma atrace_unmarked:
  "atrace a es a' \<Longrightarrow> k \<notin> marked a \<Longrightarrow> k \<in> marked a' \<Longrightarrow> \<exists>i. (k, Sent i True) \<in> set es"
proof (induction rule: atrace.induct)
  case (atrace_Nil a)
  then show ?case by simp
next
  case (atrace_Cons a j l a1 es a2)
  show ?case
  proof (cases "k \<in> marked a1")
    case True
    with atrace_Cons.hyps(1) atrace_Cons.prems(1) have "\<exists>i. (j, l) = (k, Sent i True)"
      by (cases l) (auto split: if_splits)
    then show ?thesis by auto
  next
    case False
    with atrace_Cons show ?thesis by auto
  qed
qed

subsection \<open>The batch is a trace\<close>

text \<open>What a batch did: per pull request its label and the commands sent for it.\<close>

type_synonym entry = "PullRequest \<times> label \<times> CreateCommand list"

definition trace_of :: "entry list \<Rightarrow> (string \<times> label) list" where
  "trace_of ls = map (\<lambda>(pr, l, cmds). (queuedMarkerKey pr, l)) ls"

definition commands_of :: "entry list \<Rightarrow> CreateCommand list" where
  "commands_of ls = concat (map (\<lambda>(pr, l, cmds). cmds) ls)"

definition counted :: "entry list \<Rightarrow> prometheusMetrics \<Rightarrow> prometheusMetrics" where
  "counted ls m = fold (\<lambda>(pr, l, cmds). count_label l) ls m"

definition high_water :: "datetime \<Rightarrow> entry list \<Rightarrow> datetime" where
  "high_water mx ls =
     fold (\<lambda>(pr, l, cmds) m. if advances l \<and> UpdatedAt pr > m then UpdatedAt pr else m) ls mx"

lemma entry_simps [simp]:
  "trace_of [] = []" "trace_of ((pr, l, cmds) # ls) = (queuedMarkerKey pr, l) # trace_of ls"
  "commands_of [] = []" "commands_of ((pr, l, cmds) # ls) = cmds @ commands_of ls"
  "counted [] m = m" "counted ((pr, l, cmds) # ls) m = counted ls (count_label l m)"
  "high_water mx [] = mx"
  "high_water mx ((pr, l, cmds) # ls)
    = high_water (if advances l \<and> UpdatedAt pr > mx then UpdatedAt pr else mx) ls"
  by (simp_all add: trace_of_def commands_of_def counted_def high_water_def)

definition cancelled :: "'w watcher \<Rightarrow> bool" where
  "cancelled w \<longleftrightarrow> (\<exists>wd. fst (ctx_Done w wd))"

definition batch_refines ::
  "'w watcher \<Rightarrow> PullRequest list \<Rightarrow> datetime \<Rightarrow> 'w pstate \<Rightarrow> entry list \<Rightarrow> datetime \<Rightarrow> 'w pstate \<Rightarrow> bool"
where
  "batch_refines w prs mx s ls mx' s' \<longleftrightarrow>
     (\<exists>rest. prs = map fst ls @ rest \<and> (rest \<noteq> [] \<longrightarrow> cancelled w))
     \<and> (\<exists>a. atrace (abs s) (trace_of ls) a \<and> abs s' = a\<lparr>known := fresh a\<rparr>)
     \<and> metrics s' = counted ls (metrics s)
     \<and> sent s' = sent s @ commands_of ls
     \<and> disk s' = disk s
     \<and> LastUpdatedAt (cursor s') = LastUpdatedAt (cursor s)
     \<and> mx' = high_water mx ls
     \<and> (\<forall>(pr, l, cmds) \<in> set ls. \<exists>wd. observed w pr wd l cmds)"

lemma abs_world [simp]: "abs (s\<lparr>world := wd\<rparr>) = abs s"
  by (simp add: abs_def)

lemma abs_commit: "abs (commit_heads s) = (abs s)\<lparr>known := fresh (abs s)\<rparr>"
  by (simp add: abs_def commit_heads_def)

lemma commit_simps [simp]:
  "metrics (commit_heads s) = metrics s" "sent (commit_heads s) = sent s"
  "disk (commit_heads s) = disk s" "world (commit_heads s) = world s"
  "LastUpdatedAt (cursor (commit_heads s)) = LastUpdatedAt (cursor s)"
  by (simp_all add: commit_heads_def)

lemma batch_stop:
  "prs = [] \<or> cancelled w \<Longrightarrow> batch_refines w prs mx s [] mx (commit_heads (s\<lparr>world := wd\<rparr>))"
  by (auto simp: batch_refines_def abs_commit)

lemma batch_step:
  assumes r: "refines w pr s l cmds (t, ok) s1"
    and b: "batch_refines w prs (if ok \<and> t > mx then t else mx) s1 ls mx' s'"
  shows "batch_refines w (pr # prs) mx s ((pr, l, cmds) # ls) mx' s'"
proof -
  from b obtain rest a where p: "prs = map fst ls @ rest" "rest \<noteq> [] \<longrightarrow> cancelled w"
    and a: "atrace (abs s1) (trace_of ls) a" "abs s' = a\<lparr>known := fresh a\<rparr>"
    by (auto simp: batch_refines_def)
  from r a have "atrace (abs s) ((queuedMarkerKey pr, l) # trace_of ls) a"
    by (auto simp: refines_def)
  moreover have "(if ok \<and> t > mx then t else mx)
      = (if advances l \<and> UpdatedAt pr > mx then UpdatedAt pr else mx)"
    using r by (auto simp: refines_def split: if_splits)
  ultimately show ?thesis
    using r b p a by (auto simp: batch_refines_def refines_def)
qed

lemma process_loop_refines:
  "process_loop w prs mx s = Some (mx', s') \<Longrightarrow> \<exists>ls. batch_refines w prs mx s ls mx' s'"
proof (induction prs arbitrary: mx s)
  case Nil
  then show ?case using batch_stop [of "[]" w mx s "world s"] by auto
next
  case (Cons pr prs)
  obtain d wd where d: "ctx_Done w (world s) = (d, wd)" by fastforce
  let ?s = "s\<lparr>world := wd\<rparr>"
  show ?case
  proof (cases d)
    case True
    with d have "cancelled w" by (auto simp: cancelled_def intro: exI [of _ "world s"])
    with batch_stop [of "pr # prs" w mx s wd] Cons.prems d True show ?thesis by auto
  next
    case False
    with Cons.prems d obtain t ok s1 where p: "processPR w pr ?s = Some ((t, ok), s1)"
      and rest: "process_loop w prs (if ok \<and> t > mx then t else mx) s1 = Some (mx', s')"
      by auto
    from processPR_refines [OF p] obtain l cmds where "refines w pr ?s l cmds (t, ok) s1" .
    then have "refines w pr (s\<lparr>world := wd\<rparr>) l cmds (t, ok) s1" .
    moreover from Cons.IH [OF rest] obtain ls
      where "batch_refines w prs (if ok \<and> t > mx then t else mx) s1 ls mx' s'" by blast
    ultimately have "batch_refines w (pr # prs) mx ?s ((pr, l, cmds) # ls) mx' s'"
      by (rule batch_step)
    then have "batch_refines w (pr # prs) mx s ((pr, l, cmds) # ls) mx' s'"
      by (simp add: batch_refines_def)
    then show ?thesis by blast
  qed
qed

lemma processPRs_refines:
  assumes "processPRs w prs s = Some (mx', s')"
  obtains ls where "batch_refines w prs (LastUpdatedAt (cursor s)) (s\<lparr>newHeadSHAs := make_map\<rparr>) ls mx' s'"
  using process_loop_refines assms unfolding processPRs_def by blast

end
