(* ===== verification/Watcher_Poll.thy ===== *)
theory Watcher_Poll
  imports Watcher_Batch
begin

text \<open>
  A whole poll: the pages of the search, the branches of \<open>Poll\<close>, and what a poll does to
  the counters, the watermark, the identifiers and the markers.
\<close>

subsection \<open>The search\<close>

definition search_fetch ::
  "'w watcher \<Rightarrow> datetime \<Rightarrow> (int, string, PullRequest, 'w) fetch"
where
  "search_fetch w since page wd =
     (case ctx_Done w wd of
        (done, wd) \<Rightarrow>
          if done then Some (Inl '''', wd)
          else
            do {
              (result, wd) \<leftarrow> SearchPRs (ghClient w) (w_scope w) since page wd;
              Some (case result of
                      Inl _ \<Rightarrow> Inl ''github_error''
                    | Inr result \<Rightarrow>
                        Inr (PullRequests result,
                             if HasNextPage result then Some (NextPage result) else None), wd)
            })"

definition stop_search :: "string \<Rightarrow> PullRequest list \<times> string" where
  "stop_search e = ([], e)"

definition found :: "PullRequest list \<Rightarrow> PullRequest list \<times> string" where
  "found prs = (prs, '''')"

lemma fetch_body:
  "(case ctx_Done w wd of
        (done, wd) \<Rightarrow>
          if done then Some (([], ''''), wd)
          else
            do {
              (result, wd) \<leftarrow> SearchPRs (ghClient w) (w_scope w) since page wd;
              case result of
                Inl _ \<Rightarrow> Some (([], ''github_error''), wd)
              | Inr result \<Rightarrow>
                  if \<not> HasNextPage result then Some ((allPRs @ PullRequests result, ''''), wd)
                  else f (NextPage result) (allPRs @ PullRequests result) wd
            })
    = page_body (search_fetch w since) stop_search found f page allPRs wd"
proof -
  obtain d wd1 where d: "ctx_Done w wd = (d, wd1)" by fastforce
  show ?thesis
    unfolding page_body_def search_fetch_def d
    by (cases "SearchPRs (ghClient w) (w_scope w) since page wd1")
       (auto simp: stop_search_def found_def split: sum.splits prod.splits)
qed

interpretation search: paginated "search_fetch w since" stop_search found "fetch_loop w since"
  for w since
proof
  fix p acc wd
  show "fetch_loop w since p acc wd = page_body (search_fetch w since) stop_search found (fetch_loop w since) p acc wd"
    by (subst fetch_loop.simps) (rule fetch_body)
next
  fix P p acc wd r
  assume step: "\<And>f p acc wd r.
      \<lbrakk>\<And>p acc wd r. f p acc wd = Some r \<Longrightarrow> P p acc wd r;
       page_body (search_fetch w since) stop_search found f p acc wd = Some r\<rbrakk> \<Longrightarrow> P p acc wd r"
    and ret: "fetch_loop w since p acc wd = Some r"
  let ?P = "\<lambda>w' since' p acc wd r. w' = w \<and> since' = since \<longrightarrow> P p acc wd r"
  have "?P w since p acc wd r"
  proof (rule fetch_loop.raw_induct [where P = ?P, OF _ ret], intro impI)
    fix g w' since' p acc wd r
    assume IH: "\<And>w' since' p acc wd r. g w' since' p acc wd = Some r \<Longrightarrow>
        w' = w \<and> since' = since \<longrightarrow> P p acc wd r"
      and body: "(case ctx_Done w' wd of
        (done, wd) \<Rightarrow>
          if done then Some (([], ''''), wd)
          else
            do {
              (result, wd) \<leftarrow> SearchPRs (ghClient w') (w_scope w') since' p wd;
              case result of
                Inl _ \<Rightarrow> Some (([], ''github_error''), wd)
              | Inr result \<Rightarrow>
                  if \<not> HasNextPage result then Some ((acc @ PullRequests result, ''''), wd)
                  else g w' since' (NextPage result) (acc @ PullRequests result) wd
            }) = Some r"
      and eqs: "w' = w \<and> since' = since"
    show "P p acc wd r"
    proof (rule step [of "g w since"])
      show "P p acc wd r" if "g w since p acc wd = Some r" for p acc wd r
        using IH [OF that] by simp
      show "page_body (search_fetch w since) stop_search found (g w since) p acc wd = Some r"
        using body eqs by (simp only: fetch_body)
    qed
  qed
  then show "P p acc wd r" by simp
qed

text \<open>A context that is done stays done when it is asked again.\<close>

definition ctx_permanent :: "'w watcher \<Rightarrow> bool" where
  "ctx_permanent w \<longleftrightarrow> (\<forall>wd wd'. ctx_Done w wd = (True, wd') \<longrightarrow> fst (ctx_Done w wd'))"

lemma broken_search:
  "broken (search_fetch w since) p wd e wd' \<Longrightarrow>
    e = ''github_error'' \<or> e = '''' \<and> cancelled w \<and> (ctx_permanent w \<longrightarrow> fst (ctx_Done w wd'))"
proof (induction rule: broken.induct)
  case (error_page p wd e wd')
  obtain d wd1 where d: "ctx_Done w wd = (d, wd1)" by fastforce
  show ?case
  proof (cases d)
    case True
    with error_page d have "e = ''''" and "wd' = wd1" by (simp_all add: search_fetch_def)
    moreover have "cancelled w" using d True by (auto simp: cancelled_def intro: exI [of _ wd])
    ultimately show ?thesis using d True by (auto simp: ctx_permanent_def)
  next
    case False
    with error_page d show ?thesis by (auto simp: search_fetch_def split: sum.splits if_splits)
  qed
next
  case (later_error p w xs q w1 e w')
  then show ?case by simp
qed

lemma fetchAllPRs_cases:
  assumes "fetchAllPRs w since wd = Some ((prs, reason), wd')"
  obtains (found) chunks where "served (search_fetch w since) 1 wd chunks wd'" "prs = concat chunks" "reason = ''''"
    | (failed) "broken (search_fetch w since) 1 wd ''github_error'' wd'" "reason = ''github_error''" "prs = []"
    | (cancelled) "cancelled w" "reason = ''''" "prs = []" "ctx_permanent w \<longrightarrow> fst (ctx_Done w wd')"
proof -
  from search.returned [of w since 1 "[]" wd "((prs, reason), wd')"] assms
  consider chunks where "served (search_fetch w since) 1 wd chunks wd'" "(prs, reason) = found (concat chunks)"
    | e where "broken (search_fetch w since) 1 wd e wd'" "(prs, reason) = stop_search e"
    by (auto simp: fetchAllPRs_def)
  then show thesis
  proof cases
    case 1
    then show thesis using that(1) by (simp add: found_def)
  next
    case 2
    with broken_search [OF 2(1)] show thesis
      using that(2,3) by (auto simp: stop_search_def)
  qed
qed

subsection \<open>The branches of a poll\<close>

text \<open>A whole batch: from the loaded cursor to the cursor that is saved.\<close>

definition polled ::
  "'w watcher \<Rightarrow> Cursor \<Rightarrow> 'w wstate \<Rightarrow> PullRequest list \<Rightarrow> entry list \<Rightarrow> Cursor \<Rightarrow> 'w wstate \<Rightarrow> bool"
where
  "polled w c s prs ls c' s' \<longleftrightarrow>
     (\<exists>s1 p.
        metrics s1 = metrics s \<and> disk s1 = disk s \<and> sent s1 = sent s
        \<and> processPRs w prs (begin_batch c s1) = Some (LastUpdatedAt c', p)
        \<and> batch_refines w prs (LastUpdatedAt c) ((begin_batch c s1)\<lparr>newHeadSHAs := make_map\<rparr>)
            ls (LastUpdatedAt c') p
        \<and> c' = (cursor p)\<lparr>LastUpdatedAt := LastUpdatedAt c'\<rparr>
        \<and> metrics s' = IncPollCycle ''success'' (metrics p)
        \<and> sent s' = sent p)"

lemma high_water_le: "mx \<le> high_water mx ls"
proof (induction ls arbitrary: mx)
  case Nil
  then show ?case by simp
next
  case (Cons e ls)
  obtain pr l cmds where e: "e = (pr, l, cmds)" by (cases e)
  show ?case
    unfolding e entry_simps
    by (rule order.trans [OF _ Cons.IH]) simp
qed

text \<open>The faults a disk may show.\<close>

definition disk_outcomes :: "'w watcher \<Rightarrow> disk_faults set" where
  "disk_outcomes w = range (\<lambda>wd. fst (Disk w wd))"

lemma disk_outcomesI: "Disk w wd = (faults, wd') \<Longrightarrow> faults \<in> disk_outcomes w"
  by (metis disk_outcomes_def fst_conv rangeI)

text \<open>The search that gave the pull requests of a batch ran to its last page.\<close>

definition searched :: "'w watcher \<Rightarrow> datetime \<Rightarrow> PullRequest list \<Rightarrow> bool" where
  "searched w since prs \<longleftrightarrow>
     (\<exists>wd chunks wd'. served (search_fetch w since) 1 wd chunks wd' \<and> prs = concat chunks)"

lemma Poll_batch:
  assumes "processPRs w prs (begin_batch c s1) = Some (mx, p)"
    and "metrics s1 = metrics s" and "disk s1 = disk s" and "sent s1 = sent s"
    and "c' = (if mx > LastUpdatedAt (cursor p) then (cursor p)\<lparr>LastUpdatedAt := mx\<rparr> else cursor p)"
    and "s' = \<lparr>world = wd, metrics = IncPollCycle ''success'' (metrics p), disk = files, sent = sent p\<rparr>"
  obtains ls where "polled w c s prs ls c' s'" and "disk p = disk s"
proof -
  from processPRs_refines [OF assms(1)] obtain ls
    where b: "batch_refines w prs (LastUpdatedAt c) ((begin_batch c s1)\<lparr>newHeadSHAs := make_map\<rparr>) ls mx p"
    by (auto simp: begin_batch_def)
  then have l: "LastUpdatedAt (cursor p) = LastUpdatedAt c" and mx: "mx = high_water (LastUpdatedAt c) ls"
    and d: "disk p = disk s1"
    by (simp_all add: batch_refines_def begin_batch_def)
  have "LastUpdatedAt c \<le> mx" unfolding mx by (rule high_water_le)
  with l assms(5) have c': "c' = (cursor p)\<lparr>LastUpdatedAt := mx\<rparr>" by auto
  have "polled w c s prs ls c' s'"
    unfolding polled_def using b c' assms(1-4,6) by (intro exI [of _ s1] exI [of _ p]) simp
  with d assms(3) that show thesis by simp
qed

text \<open>A poll reads the cursor file first; \<open>poll_rest\<close> is what it does with the cursor.\<close>

definition poll_load :: "'w watcher \<Rightarrow> 'w wstate \<Rightarrow> (go_error + Cursor) \<times> 'w wstate" where
  "poll_load w s =
     (let (faults, wd) = Disk w (world s); s = s\<lparr>world := wd\<rparr>
      in (LoadCursor (codec w) faults (disk s) (cursorPath w) (startTime w), s))"

definition poll_rest :: "'w watcher \<Rightarrow> Cursor \<Rightarrow> ('w wstate, go_error option) call" where
  "poll_rest w cursorState s =
     do {
       ((allPRs, abortReason), wd) \<leftarrow> fetchAllPRs w (LastUpdatedAt cursorState) (world s);
       let s = s\<lparr>world := wd\<rparr>;
       if abortReason \<noteq> '''' then
         Some (None, s\<lparr>metrics := IncPollCycle abortReason (metrics s)\<rparr>)
       else
         (let (done, wd) = ctx_Done w (world s); s = s\<lparr>world := wd\<rparr>
          in if done then Some (None, s)
             else
               do {
                 (maxUpdatedAt, p) \<leftarrow> processPRs w allPRs (begin_batch cursorState s);
                 let cursorState =
                   (if maxUpdatedAt > LastUpdatedAt (cursor p)
                    then (cursor p)\<lparr>LastUpdatedAt := maxUpdatedAt\<rparr> else cursor p);
                 let (faults, wd) = Disk w (world p);
                 let (_, files) = SaveCursor (codec w) faults (disk p) (cursorPath w) cursorState;
                 Some (None, \<lparr>world = wd, metrics = IncPollCycle ''success'' (metrics p),
                              disk = files, sent = sent p\<rparr>)
               })
     }"

text \<open>Without another poller in between, the two steps are \<open>Poll\<close>.\<close>

lemma Poll_phases:
  "Poll w s =
     (case poll_load w s of
        (Inl err, s') \<Rightarrow> Some (Some (Wrapped ''load cursor'' err), s')
      | (Inr c, s') \<Rightarrow> poll_rest w c s')"
  by (simp add: Poll_def poll_load_def poll_rest_def split: prod.split sum.split)

lemma poll_rest_cases:
  assumes "poll_rest w c s = Some (r, s')"
  obtains (aborted) wd where "r = None"
      "s' = s\<lparr>world := wd, metrics := IncPollCycle ''github_error'' (metrics s)\<rparr>"
    | (stopped) wd where "r = None" "s' = s\<lparr>world := wd\<rparr>" "cancelled w"
    | (success) prs ls c' faults err where "r = None"
      "ctx_permanent w \<longrightarrow> searched w (LastUpdatedAt c) prs" "polled w c s prs ls c' s'"
      "faults \<in> disk_outcomes w"
      "SaveCursor (codec w) faults (disk s) (cursorPath w) c' = (err, disk s')"
proof -
  note h = assms [unfolded poll_rest_def Let_def]
  from h obtain prs reason wd1
    where a: "fetchAllPRs w (LastUpdatedAt c) (world s) = Some ((prs, reason), wd1)"
    by auto
  show thesis
  proof (cases "reason = ''''")
    case False
    with a have "reason = ''github_error''" by (cases rule: fetchAllPRs_cases) simp_all
    with h a show thesis by (intro aborted [of wd1]) auto
  next
    case reason: True
    obtain d wd2 where d: "ctx_Done w wd1 = (d, wd2)" by fastforce
    show thesis
    proof (cases d)
      case True
      with d have "cancelled w" by (auto simp: cancelled_def intro: exI [of _ wd1])
      with h a reason d True show thesis by (intro stopped [of wd2]) auto
    next
      case False
      let ?s2 = "s\<lparr>world := wd2\<rparr>"
      from a have sr: "ctx_permanent w \<longrightarrow> searched w (LastUpdatedAt c) prs"
      proof (cases rule: fetchAllPRs_cases)
        case (found chunks)
        then show ?thesis by (auto simp: searched_def)
      next
        case failed
        with reason show ?thesis by simp
      next
        case cancelled
        with d False show ?thesis by simp
      qed
      from h a reason d False obtain mx p
        where p: "processPRs w prs (begin_batch c ?s2) = Some (mx, p)"
        by auto
      obtain faults wd3 where f: "Disk w (world p) = (faults, wd3)" by fastforce
      let ?c' = "if mx > LastUpdatedAt (cursor p) then (cursor p)\<lparr>LastUpdatedAt := mx\<rparr> else cursor p"
      obtain err files where sv: "SaveCursor (codec w) faults (disk p) (cursorPath w) ?c' = (err, files)"
        by fastforce
      from h a reason d False p f sv
      have s': "s' = \<lparr>world = wd3, metrics = IncPollCycle ''success'' (metrics p), disk = files, sent = sent p\<rparr>"
        and r: "r = None"
        by simp_all
      from Poll_batch [OF p _ _ _ refl s', of s] obtain ls
        where "polled w c s prs ls ?c' s'" and "disk p = disk s" by auto
      with r sr sv s' show thesis
        by (intro success [OF r sr _ disk_outcomesI [OF f]]) simp_all
    qed
  qed
qed

lemma polled_world [simp]: "polled w c (s\<lparr>world := wd\<rparr>) = polled w c s"
  by (intro ext) (simp add: polled_def)

lemma Poll_cases:
  assumes "Poll w s = Some (r, s')"
  obtains (load_error) faults wd err where "faults \<in> disk_outcomes w" "read_fault faults = Some err"
      "r = Some (Wrapped ''load cursor'' (Wrapped ''read cursor file'' err))" "s' = s\<lparr>world := wd\<rparr>"
    | (aborted) wd where "r = None"
      "s' = s\<lparr>world := wd, metrics := IncPollCycle ''github_error'' (metrics s)\<rparr>"
    | (stopped) wd where "r = None" "s' = s\<lparr>world := wd\<rparr>" "cancelled w"
    | (success) faults c prs ls c' faults' err where "r = None" "faults \<in> disk_outcomes w"
      "LoadCursor (codec w) faults (disk s) (cursorPath w) (startTime w) = Inr c"
      "ctx_permanent w \<longrightarrow> searched w (LastUpdatedAt c) prs" "polled w c s prs ls c' s'"
      "faults' \<in> disk_outcomes w"
      "SaveCursor (codec w) faults' (disk s) (cursorPath w) c' = (err, disk s')"
proof -
  obtain faults wd0 where f: "Disk w (world s) = (faults, wd0)" by fastforce
  let ?s = "s\<lparr>world := wd0\<rparr>"
  show thesis
  proof (cases "LoadCursor (codec w) faults (disk s) (cursorPath w) (startTime w)")
    case (Inl err)
    then obtain e where "read_fault faults = Some e" and "err = Wrapped ''read cursor file'' e"
      by (auto simp: LoadCursor_Inl_iff)
    with assms f Inl show thesis
      by (intro load_error [of faults e wd0] disk_outcomesI [OF f]) (simp_all add: Poll_def)
  next
    case (Inr c)
    then have "poll_rest w c ?s = Some (r, s')" using assms f by (simp add: Poll_phases poll_load_def)
    then show thesis
    proof (cases rule: poll_rest_cases)
      case (aborted wd)
      then show thesis using that(2) [of wd] by simp
    next
      case (stopped wd)
      then show thesis using that(3) [of wd] by simp
    next
      case (success prs ls c' faults' err)
      then show thesis using that(4) [OF _ disk_outcomesI [OF f] Inr, of prs ls c' faults' err] by simp
    qed
  qed
qed

end
