(* ===== verification/Watcher_Claims.thy ===== *)
theory Watcher_Claims
  imports Watcher_Poll
begin

text \<open>
  What one poll guarantees: which commands it sends and which state it saves, how the
  counters account for it, how the watermark moves, and that it returns.
\<close>

subsection \<open>The counters of a batch\<close>

definition labelled :: "(label \<Rightarrow> bool) \<Rightarrow> entry list \<Rightarrow> nat" where
  "labelled P ls = length (filter (\<lambda>(pr, l, cmds). P l) ls)"

fun is_skip :: "label \<Rightarrow> bool" where
  "is_skip (Skip r) = True"
| "is_skip (Suppressed i) = True"
| "is_skip _ = False"

fun is_failed :: "label \<Rightarrow> bool" where
  "is_failed (Failed i) = True"
| "is_failed _ = False"

fun is_sent :: "bool \<Rightarrow> label \<Rightarrow> bool" where
  "is_sent queued (Sent i q) = (q = queued)"
| "is_sent queued _ = False"

lemma labelled_simps [simp]:
  "labelled P [] = 0"
  "labelled P ((pr, l, cmds) # ls) = (if P l then 1 else 0) + labelled P ls"
  by (simp_all add: labelled_def)

lemma counted_scanned: "reposScannedTotal (counted ls m) = reposScannedTotal m + length ls"
proof (induction ls arbitrary: m)
  case (Cons e ls)
  obtain pr l cmds where e: "e = (pr, l, cmds)" by (cases e)
  show ?case unfolding e by (cases l) (simp_all add: Cons.IH count_label_def)
qed simp

lemma counted_cycles: "pollCyclesTotal (counted ls m) = pollCyclesTotal m"
proof (induction ls arbitrary: m)
  case (Cons e ls)
  obtain pr l cmds where e: "e = (pr, l, cmds)" by (cases e)
  show ?case unfolding e by (cases l) (simp_all add: Cons.IH count_label_def)
qed simp

lemma counted_published:
  "count (publishedTotal (counted ls m)) ''error'' = count (publishedTotal m) ''error'' + labelled is_failed ls"
  "count (publishedTotal (counted ls m)) ''create'' = count (publishedTotal m) ''create'' + labelled (is_sent False) ls"
  "count (publishedTotal (counted ls m)) ''create_queued''
    = count (publishedTotal m) ''create_queued'' + labelled (is_sent True) ls"
  "s \<notin> {''error'', ''create'', ''create_queued''} \<Longrightarrow>
    count (publishedTotal (counted ls m)) s = count (publishedTotal m) s"
proof (induction ls arbitrary: m)
  case (Cons e ls)
  obtain pr l cmds where e: "e = (pr, l, cmds)" by (cases e)
  {
    case 1
    show ?case unfolding e by (cases l) (simp_all add: Cons.IH(1) count_label_def publishedStatus_def)
  next
    case 2
    show ?case unfolding e by (cases l) (simp_all add: Cons.IH(2) count_label_def publishedStatus_def)
  next
    case 3
    show ?case unfolding e by (cases l) (simp_all add: Cons.IH(3) count_label_def publishedStatus_def)
  next
    case 4
    then show ?case unfolding e by (cases l) (simp_all add: Cons.IH(4) count_label_def publishedStatus_def)
  }
qed simp_all

text \<open>A label a batch can have: its reason is one of those the metrics announce.\<close>

definition proper :: "label \<Rightarrow> bool" where
  "proper l \<longleftrightarrow> (case l of Skip r \<Rightarrow> r \<in> set skip_reasons \<and> r \<noteq> ''queued_marker'' | _ \<Rightarrow> True)"

lemma observed_proper: "observed w pr wd l cmds \<Longrightarrow> proper l"
  by (cases l) (auto simp: observed_def proper_def dest: skip_reason_label)

lemma distinct_reasons: "distinct skip_reasons"
  by (simp add: skip_reasons_def)

lemma counted_skipped:
  "\<forall>(pr, l, cmds) \<in> set ls. proper l \<Longrightarrow>
    total skip_reasons (filterSkippedTotal (counted ls m)) = total skip_reasons (filterSkippedTotal m) + labelled is_skip ls"
proof (induction ls arbitrary: m)
  case (Cons e ls)
  obtain pr l cmds where e: "e = (pr, l, cmds)" by (cases e)
  with Cons.prems have p: "proper l" by simp
  have "''queued_marker'' \<in> set skip_reasons" by (simp add: skip_reasons_def)
  with p total_Add_in [OF distinct_reasons] have
    "total skip_reasons (filterSkippedTotal (count_label l m))
      = total skip_reasons (filterSkippedTotal m) + (if is_skip l then 1 else 0)"
    by (cases l) (simp_all add: count_label_def proper_def)
  with Cons e show ?case by simp
qed simp

lemma observed_commands: "observed w pr wd l cmds \<Longrightarrow> map cmd_TaskIdentifier cmds = sent_ids l"
  by (cases l) (auto simp: observed_def sent_ids_def dest: BuildCreateCommand_SomeD(1))

lemma commands_ids:
  "\<forall>(pr, l, cmds) \<in> set ls. \<exists>wd. observed w pr wd l cmds \<Longrightarrow>
    map cmd_TaskIdentifier (commands_of ls) = ids_sent (trace_of ls)"
proof (induction ls)
  case (Cons e ls)
  obtain pr l cmds where e: "e = (pr, l, cmds)" by (cases e)
  with Cons show ?case by (auto dest: observed_commands)
qed simp

lemma ids_sent_length:
  "length (ids_sent (trace_of ls)) = labelled (is_sent True) ls + labelled (is_sent False) ls"
proof (induction ls)
  case (Cons e ls)
  obtain pr l cmds where e: "e = (pr, l, cmds)" by (cases e)
  show ?case unfolding e by (cases l) (simp_all add: Cons.IH sent_ids_def)
qed simp

lemma labels_partition:
  "labelled is_skip ls + labelled is_failed ls + labelled (is_sent True) ls + labelled (is_sent False) ls
    \<le> length ls"
proof (induction ls)
  case (Cons e ls)
  obtain pr l cmds where e: "e = (pr, l, cmds)" by (cases e)
  show ?case unfolding e using Cons.IH by (cases l) simp_all
qed simp

subsection \<open>The watermark\<close>

text \<open>The update times of the pull requests that advance the cursor.\<close>

definition advanced :: "entry list \<Rightarrow> datetime set" where
  "advanced ls = set (map (\<lambda>e. UpdatedAt (fst e)) (filter (\<lambda>e. advances (fst (snd e))) ls))"

lemma advanced_simps [simp]:
  "advanced [] = {}"
  "advanced ((pr, l, cmds) # ls) = (if advances l then insert (UpdatedAt pr) (advanced ls) else advanced ls)"
  "finite (advanced ls)"
  by (simp_all add: advanced_def)

lemma high_water_eq: "high_water mx ls = Max (insert mx (advanced ls))"
proof (induction ls arbitrary: mx)
  case Nil
  then show ?case by simp
next
  case (Cons e ls)
  obtain pr l cmds where e: "e = (pr, l, cmds)" by (cases e)
  show ?case
    using Cons.IH [of mx] Cons.IH [of "UpdatedAt pr"]
    by (cases "advanced ls = {}") (auto simp: e max_def)
qed

subsection \<open>A watcher to try the properties on\<close>

text \<open>
  The details of pull request 13 cannot be read; every other one is an open draft with the
  approved spec of the evaluator's example and a queued prompt.
\<close>

definition example_client :: "PullRequest list \<Rightarrow> unit GitHubClient" where
  "example_client prs =
     \<lparr>ListPRFiles = ListPRFiles example_reader, GetContent = GetContent example_reader,
      ListDir = (\<lambda>owner repo path ref w. Some (Inr [''prompts/in-progress/1.md''], w)),
      IsNotFound = IsNotFound example_reader,
      SearchPRs = (\<lambda>scope since page w. Some (Inr \<lparr>PullRequests = prs, HasNextPage = False, NextPage = 0,
        RateRemaining = 30, RateResetAt = 0\<rparr>, w)),
      GetPRDetails = (\<lambda>owner repo number w.
        Some (if number = 13 then Inl (NewError ''unavailable'') else Inr example_details, w))\<rparr>"

definition example_watcher :: "PullRequest list \<Rightarrow> unit watcher" where
  "example_watcher prs =
     \<lparr>ghClient = example_client prs, SendCommand = (\<lambda>cmd w. Some (None, w)), cursorPath = ''c'',
      startTime = 50, w_scope = ''bborbe'', scopeFilter = (\<lambda>pr. False), w_cfg = example_cfg,
      ctx_Done = (\<lambda>w. (False, w)), Disk = (\<lambda>w. (no_faults, w)), uuid5 = (\<lambda>ns k. k),
      yaml_unmarshal = example_yaml, codec = example_codec\<rparr>"

definition no_metrics :: prometheusMetrics where
  "no_metrics = \<lparr>pollCyclesTotal = Map.empty, publishedTotal = Map.empty, reposScannedTotal = 0,
     filterSkippedTotal = Map.empty\<rparr>"

definition example_state :: "unit wstate" where
  "example_state = \<lparr>world = (), metrics = no_metrics, disk = Map.empty, sent = []\<rparr>"

definition example_result :: Result where
  "example_result = \<lparr>Keep = True, Reason = '''', MatchedSpecs = [''specs/in-progress/1.md''],
     PromptsQueued = True\<rparr>"

lemma example_verdict:
  "Number pr \<noteq> 13 \<Longrightarrow>
    Evaluate example_yaml (example_client prs) (eval_input pr example_details) ()
      = Some (Inr example_result, ())"
  using example_spec_approved
  by (simp add: Evaluate_def example_client_def example_reader_def eval_input_def example_details_def
      darkFactoryConfigFile_def matchedApprovedSpecsInDiff_def hasQueuedPrompts_def is_spec_path_def
      specDir_def example_result_def has_suffix_def)

lemma example_candidate:
  "Number pr \<noteq> 13 \<Longrightarrow>
    candidate (example_watcher prs) pr () example_details example_result ()"
  using example_verdict [of pr prs]
  by (auto simp: candidate_def example_watcher_def example_client_def example_details_def example_result_def)

text \<open>A poll that finds the pull request whose details fail and, updated later, the other one.\<close>

definition failing_pr :: PullRequest where
  "failing_pr = example_pr\<lparr>Number := 13, UpdatedAt := 70\<rparr>"

definition example_command :: CreateCommand where
  "example_command = the (BuildCreateCommand example_pr example_details ''bborbe/widget#42@queued''
     example_cfg [''specs/in-progress/1.md''])"

lemma example_command:
  "BuildCreateCommand example_pr example_details ''bborbe/widget#42@queued'' example_cfg
    [''specs/in-progress/1.md''] = Some example_command"
  using BuildCreateCommand_defined [of example_cfg example_pr example_details]
  by (fastforce simp: example_cfg_def example_command_def)

lemma example_fields [simp]:
  "ghClient (example_watcher prs) = example_client prs"
  "SendCommand (example_watcher prs) cmd w = Some (None, w)"
  "cursorPath (example_watcher prs) = ''c''" "startTime (example_watcher prs) = 50"
  "scopeFilter (example_watcher prs) f = False" "w_cfg (example_watcher prs) = example_cfg"
  "ctx_Done (example_watcher prs) w = (False, w)" "Disk (example_watcher prs) w = (no_faults, w)"
  "uuid5 (example_watcher prs) = (\<lambda>ns k. k)" "yaml_unmarshal (example_watcher prs) = example_yaml"
  "codec (example_watcher prs) = example_codec"
  "GetPRDetails (example_client prs) owner repo number w
    = Some (if number = 13 then Inl (NewError ''unavailable'') else Inr example_details, w)"
  by (simp_all add: example_watcher_def example_client_def)

lemma itoa_42: "itoa 42 = ''42''"
  by (simp add: itoa_def nat_digits.simps digit_char_def char_of_eq_iff)

lemma example_key: "queuedMarkerKey example_pr = ''bborbe/widget#42''"
  by (simp add: queuedMarkerKey_def example_pr_def itoa_42)

lemma example_ids:
  "taskIDsFor (\<lambda>ns k. k) example_pr sha True = (''bborbe/widget#42@queued'', ''bborbe/widget#42@queued'')"
  by (simp add: taskIDsFor_def DeriveTaskID_def task_key_def pr_ref_def example_pr_def itoa_42)

definition example_saved :: Cursor where
  "example_saved = \<lparr>LastUpdatedAt = 100, HeadSHAs = Some [(''bborbe/widget#42@queued'', ''abc1234567'')],
     QueuedMarkers = Some [(''bborbe/widget#42'', ''bborbe/widget#42@queued'')]\<rparr>"

lemma unit_world [simp]: "(s :: unit pstate)\<lparr>world := ()\<rparr> = s" "(s2 :: unit wstate)\<lparr>world := ()\<rparr> = s2"
  by (cases s, simp) (cases s2, simp)

text \<open>The example's pull request, not seen before, is sent as a queued trigger.\<close>

definition example_after :: "unit pstate \<Rightarrow> unit pstate" where
  "example_after s = s\<lparr>metrics := IncPublished ''create_queued'' (metrics s),
        sent := sent s @ [example_command],
        cursor := (cursor s)\<lparr>HeadSHAs := HeadSHAs example_saved, QueuedMarkers := QueuedMarkers example_saved\<rparr>,
        newHeadSHAs := HeadSHAs example_saved\<rparr>"

lemma example_handled:
  assumes "HeadSHAs (cursor s) = Some []" and "QueuedMarkers (cursor s) = Some []" and "newHeadSHAs s = Some []"
  shows "handle_candidate (example_watcher prs) example_pr example_details example_result s
    = Some ((100, True), example_after s)"
proof -
  have [simp]: "PromptsQueued example_result" "MatchedSpecs example_result = [''specs/in-progress/1.md'']"
    "d_HeadSHA example_details = ''abc1234567''" "UpdatedAt example_pr = 100"
    by (simp_all add: example_result_def example_details_def example_pr_def)
  show ?thesis
    using assms
    by (simp add: handle_candidate_def example_ids example_key map_get_def publish_def example_command
        set_head_def keep_head_def set_marker_def map_put_def publishedStatus_def example_after_def
        example_saved_def)
qed

lemma example_processed:
  assumes "HeadSHAs (cursor s) = Some []" and "QueuedMarkers (cursor s) = Some []" and "newHeadSHAs s = Some []"
  shows "processPR (example_watcher prs) example_pr s
    = Some ((100, True), example_after (s\<lparr>metrics := IncReposScanned (metrics s)\<rparr>))"
proof -
  have [simp]: "Number example_pr \<noteq> 13" "d_HeadSHA example_details \<noteq> ''''" "Keep example_result"
    by (simp_all add: example_pr_def example_details_def example_result_def)
  show ?thesis
    using example_verdict [of example_pr prs] assms
    by (simp add: processPR_def example_handled)
qed

lemma example_failed:
  "processPR (example_watcher prs) failing_pr s = Some ((zero_time, False),
    s\<lparr>metrics := IncFilterSkipped ''details_error'' (IncReposScanned (metrics s))\<rparr>)"
  by (simp add: processPR_def failing_pr_def skipped_def)

lemma example_state_fields:
  "world example_state = ()" "metrics example_state = no_metrics"
  "disk example_state = Map.empty" "sent example_state = []"
  by (simp_all add: example_state_def)

definition example_batch_end :: "unit pstate" where
  "example_batch_end = \<lparr>world = (), metrics = IncPublished ''create_queued'' (IncReposScanned
        (IncFilterSkipped ''details_error'' (IncReposScanned no_metrics))), disk = Map.empty,
      sent = [example_command], cursor = example_saved\<lparr>LastUpdatedAt := 50\<rparr>,
      newHeadSHAs = HeadSHAs example_saved\<rparr>"

lemma example_batch:
  "processPRs (example_watcher prs) [failing_pr, example_pr] (begin_batch (newCursor 50) example_state)
    = Some (100, example_batch_end)"
  by (simp add: processPRs_def begin_batch_def newCursor_def make_map_def example_failed
      example_processed example_after_def commit_heads_def example_saved_def example_batch_end_def
      example_state_fields)

lemma example_poll:
  "\<exists>s'. Poll (example_watcher [failing_pr, example_pr]) example_state = Some (None, s')
    \<and> sent s' = [example_command]
    \<and> SaveCursor example_codec no_faults Map.empty ''c'' example_saved = (None, disk s')
    \<and> metrics s' = IncPollCycle ''success'' (IncPublished ''create_queued'' (IncReposScanned
        (IncFilterSkipped ''details_error'' (IncReposScanned no_metrics))))"
proof -
  let ?w = "example_watcher [failing_pr, example_pr]"
  have "served (search_fetch ?w 50) 1 () [[failing_pr, example_pr]] ()"
    by (rule last_page) (simp add: search_fetch_def example_client_def)
  from search.served_returns [OF this, of "[]"]
  have f: "fetchAllPRs ?w 50 () = Some (([failing_pr, example_pr], ''''), ())"
    by (simp add: fetchAllPRs_def found_def)
  have l: "LoadCursor example_codec no_faults Map.empty ''c'' 50 = Inr (newCursor 50)"
    by (simp add: LoadCursor_def no_faults_def)
  note [simp] = example_state_fields
  note example_batch [of "[failing_pr, example_pr]"]
  moreover obtain files where sv: "SaveCursor example_codec no_faults Map.empty ''c'' example_saved = (None, files)"
    by (simp add: SaveCursor_def cursor_Marshal_def example_codec_def no_faults_def write_file_def rename_file_def)
  moreover have "example_saved\<lparr>LastUpdatedAt := 100\<rparr> = example_saved"
    by (simp add: example_saved_def)
  moreover have "LastUpdatedAt (newCursor 50) = 50" by (simp add: newCursor_def)
  ultimately show ?thesis by (simp add: Poll_def l f example_batch_end_def)
qed

subsection \<open>What a batch leaves\<close>

definition start_of :: "Cursor \<Rightarrow> amachine" where
  "start_of c = \<lparr>known = dom (map_get (HeadSHAs c)), fresh = {}, marked = dom (map_get (QueuedMarkers c))\<rparr>"

lemma abs_begin: "abs ((begin_batch c s)\<lparr>newHeadSHAs := make_map\<rparr>) = start_of c"
  by (simp add: abs_def begin_batch_def start_of_def get_make)

lemma begin_simps [simp]:
  "metrics (begin_batch c s) = metrics s" "sent (begin_batch c s) = sent s"
  "disk (begin_batch c s) = disk s" "cursor (begin_batch c s) = c" "world (begin_batch c s) = world s"
  by (simp_all add: begin_batch_def)

lemma polledE:
  assumes "polled w c s prs ls c' s'"
  obtains rest a where "prs = map fst ls @ rest" "rest \<noteq> [] \<Longrightarrow> cancelled w"
    "atrace (start_of c) (trace_of ls) a"
    "dom (map_get (HeadSHAs c')) = fresh a" "dom (map_get (QueuedMarkers c')) = marked a"
    "LastUpdatedAt c' = high_water (LastUpdatedAt c) ls"
    "metrics s' = IncPollCycle ''success'' (counted ls (metrics s))"
    "sent s' = sent s @ commands_of ls"
    "\<forall>(pr, l, cmds) \<in> set ls. \<exists>wd. observed w pr wd l cmds"
proof -
  from assms obtain s1 p where s1: "metrics s1 = metrics s" "disk s1 = disk s" "sent s1 = sent s"
    and b: "batch_refines w prs (LastUpdatedAt c) ((begin_batch c s1)\<lparr>newHeadSHAs := make_map\<rparr>)
      ls (LastUpdatedAt c') p"
    and c': "c' = (cursor p)\<lparr>LastUpdatedAt := LastUpdatedAt c'\<rparr>"
    and m: "metrics s' = IncPollCycle ''success'' (metrics p)" and st: "sent s' = sent p"
    by (auto simp: polled_def)
  from b obtain rest a where r: "prs = map fst ls @ rest" "rest \<noteq> [] \<longrightarrow> cancelled w"
    and a: "atrace (start_of c) (trace_of ls) a" "abs p = a\<lparr>known := fresh a\<rparr>"
    unfolding batch_refines_def abs_begin by blast
  have h: "HeadSHAs c' = HeadSHAs (cursor p)" "QueuedMarkers c' = QueuedMarkers (cursor p)"
    by (subst c', simp)+
  from a(2) have "dom (map_get (HeadSHAs c')) = fresh a" "dom (map_get (QueuedMarkers c')) = marked a"
    unfolding h by (cases a, simp add: abs_def)+
  then show thesis
    using that [of rest a] r a b m st s1 by (simp add: batch_refines_def)
qed

lemma polled_ids:
  assumes "polled w c s prs ls c' s'"
  shows "distinct (map cmd_TaskIdentifier (commands_of ls))"
    and "set (map cmd_TaskIdentifier (commands_of ls)) \<inter> dom (map_get (HeadSHAs c)) = {}"
    and "dom (map_get (HeadSHAs c')) = {i. \<exists>(pr, l, cmds) \<in> set ls. label_id l = Some i}"
proof -
  from assms obtain a where a: "atrace (start_of c) (trace_of ls) a"
      "dom (map_get (HeadSHAs c')) = fresh a"
    and o: "\<forall>(pr, l, cmds) \<in> set ls. \<exists>wd. observed w pr wd l cmds"
    by (rule polledE) blast
  from atrace_ids_distinct [OF a(1)] commands_ids [OF o]
  show "distinct (map cmd_TaskIdentifier (commands_of ls))"
    and "set (map cmd_TaskIdentifier (commands_of ls)) \<inter> dom (map_get (HeadSHAs c)) = {}"
    by (simp_all add: start_of_def)
  have "{i. \<exists>e \<in> set (trace_of ls). label_id (snd e) = Some i} = {i. \<exists>(pr, l, cmds) \<in> set ls. label_id l = Some i}"
    by (simp add: trace_of_def split_beta)
  with atrace_fresh [OF a(1)] a(2)
  show "dom (map_get (HeadSHAs c')) = {i. \<exists>(pr, l, cmds) \<in> set ls. label_id l = Some i}"
    by (simp add: start_of_def)
qed

definition disk_intact :: "'w watcher \<Rightarrow> bool" where
  "disk_intact w \<longleftrightarrow> disk_outcomes w = {no_faults}"

lemma example_intact [simp]: "disk_intact (example_watcher prs)"
  by (simp add: disk_intact_def disk_outcomes_def)

subsection \<open>Properties\<close>

text \<open>
  C2: A command is sent only for a candidate: the pull request was in scope, its details
  were read with a head commit, the evaluator kept it at that commit, its identifier was
  not known from the last poll and it carried no marker. Then exactly one command is sent,
  the one built from these details, the identifier is remembered for this poll and the
  next, and a queued trigger leaves its marker.
\<close>

theorem processPR_sends:
  assumes "processPR w pr s = Some ((t, ok), s')" and "sent s' \<noteq> sent s"
  shows "\<exists>details result wd cmd. candidate w pr (world s) details result wd
    \<and> map_get (HeadSHAs (cursor s)) (task_id_of w pr details result) = None
    \<and> map_get (QueuedMarkers (cursor s)) (queuedMarkerKey pr) = None
    \<and> BuildCreateCommand pr details (task_id_of w pr details result) (w_cfg w) (MatchedSpecs result) = Some cmd
    \<and> sent s' = sent s @ [cmd] \<and> ok \<and> t = UpdatedAt pr
    \<and> map_get (HeadSHAs (cursor s')) (task_id_of w pr details result) = Some (d_HeadSHA details)
    \<and> map_get (newHeadSHAs s') (task_id_of w pr details result) = Some (d_HeadSHA details)
    \<and> (PromptsQueued result \<longrightarrow>
        map_get (QueuedMarkers (cursor s')) (queuedMarkerKey pr) = Some (queued_key_of w pr details))"
  using assms(1)
proof (cases rule: processPR_cases)
  case (skip reason wd)
  then have "sent s' = sent s" by (simp add: after_skip_def clear_marker_def Let_def)
  with assms(2) show ?thesis by simp
next
  case (candidate details result wd)
  have [simp]: "cursor (scanned wd s) = cursor s" "newHeadSHAs (scanned wd s) = newHeadSHAs s"
    "sent (scanned wd s) = sent s"
    by (simp_all add: scanned_def)
  let ?i = "task_id_of w pr details result"
  from candidate(2) refl [of ?i] refl [of "d_HeadSHA details"] show ?thesis
  proof (cases rule: handle_candidate_cases)
    case (sent cmd wd' hd new q)
    from map_get_put_same [OF sent(7)] map_get_put_same [OF sent(8)] sent(9)
    have "map_get (HeadSHAs (cursor s')) ?i = Some (d_HeadSHA details)"
      and "map_get (newHeadSHAs s') ?i = Some (d_HeadSHA details)"
      and "PromptsQueued result \<longrightarrow>
        map_get (QueuedMarkers (cursor s')) (queuedMarkerKey pr) = Some (queued_key_of w pr details)"
      using sent(10) by (auto dest: map_get_put_same)
    with candidate(1) sent show ?thesis
      by (intro exI [of _ details] exI [of _ result] exI [of _ wd] exI [of _ cmd]) simp
  qed (use assms(2) in simp_all)
qed

theorem processPR_sends_witness:
  "\<exists>details result wd cmd. candidate (example_watcher []) example_pr () details result wd
    \<and> BuildCreateCommand example_pr details (task_id_of (example_watcher []) example_pr details result)
        example_cfg (MatchedSpecs result) = Some cmd"
proof -
  let ?s = "(begin_batch (newCursor 50) example_state)\<lparr>newHeadSHAs := make_map\<rparr>"
  have "processPR (example_watcher []) example_pr ?s
      = Some ((100, True), example_after (?s\<lparr>metrics := IncReposScanned (metrics ?s)\<rparr>))"
    by (rule example_processed) (simp_all add: newCursor_def make_map_def)
  from processPR_sends [OF this] show ?thesis
    by (auto simp: example_after_def example_state_def)
qed



text \<open>
  C1: No task is created twice: the commands a poll sends have distinct identifiers, none
  of which the cursor it loaded knows.
\<close>

theorem Poll_sends_once:
  assumes "disk_intact w" and "Poll w s = Some (r, s')"
    and "LoadCursor (codec w) no_faults (disk s) (cursorPath w) (startTime w) = Inr c"
  shows "\<exists>cmds. sent s' = sent s @ cmds \<and> distinct (map cmd_TaskIdentifier cmds)
    \<and> (\<forall>cmd \<in> set cmds. map_get (HeadSHAs c) (cmd_TaskIdentifier cmd) = None)"
  using assms(2)
proof (cases rule: Poll_cases)
  case (success faults c1 prs ls c' faults' err)
  with assms(1,3) have "c1 = c" by (auto simp: disk_intact_def)
  with success(5) have p: "polled w c s prs ls c' s'" by simp
  then have "sent s' = sent s @ commands_of ls" by (rule polledE)
  with polled_ids [OF p] show ?thesis by (intro exI [of _ "commands_of ls"]) auto
qed simp_all

lemma example_loaded:
  "LoadCursor example_codec no_faults (disk example_state) ''c'' 50 = Inr (newCursor 50)"
  by (simp add: LoadCursor_def no_faults_def example_state_def)

theorem Poll_sends_once_witness:
  "distinct (map cmd_TaskIdentifier [example_command])"
proof -
  from example_poll obtain s' where p: "Poll (example_watcher [failing_pr, example_pr]) example_state = Some (None, s')"
    and s: "sent s' = [example_command]" by blast
  have "LoadCursor (codec (example_watcher [failing_pr, example_pr])) no_faults (disk example_state)
      (cursorPath (example_watcher [failing_pr, example_pr])) (startTime (example_watcher [failing_pr, example_pr]))
      = Inr (newCursor 50)"
    by (simp add: example_loaded)
  from Poll_sends_once [OF example_intact p this] s show ?thesis by (simp add: example_state_def)
qed

text \<open>
  C13: The counters add up over a poll: every command the sender accepted is counted once,
  as queued or not; every pull request scanned is counted in at most one of the other
  counters; and the labels \<open>rate_limited\<close> and \<open>skipped\<close> that the metrics announce are
  never counted.
\<close>

theorem Poll_accounting:
  assumes "Poll w s = Some (r, s')"
  shows "length (sent s') + count (publishedTotal (metrics s)) ''create''
        + count (publishedTotal (metrics s)) ''create_queued''
      = length (sent s) + count (publishedTotal (metrics s')) ''create''
        + count (publishedTotal (metrics s')) ''create_queued''
    \<and> total skip_reasons (filterSkippedTotal (metrics s')) + total published_statuses (publishedTotal (metrics s'))
        + reposScannedTotal (metrics s)
      \<le> total skip_reasons (filterSkippedTotal (metrics s)) + total published_statuses (publishedTotal (metrics s))
        + reposScannedTotal (metrics s')
    \<and> total poll_results (pollCyclesTotal (metrics s')) \<le> Suc (total poll_results (pollCyclesTotal (metrics s)))
    \<and> count (pollCyclesTotal (metrics s')) ''rate_limited'' = count (pollCyclesTotal (metrics s)) ''rate_limited''
    \<and> count (publishedTotal (metrics s')) ''skipped'' = count (publishedTotal (metrics s)) ''skipped''"
  using assms
proof (cases rule: Poll_cases)
  case (success faults c prs ls c' faults' err)
  from success(5) have m: "metrics s' = IncPollCycle ''success'' (counted ls (metrics s))"
    and st: "sent s' = sent s @ commands_of ls"
    and o: "\<forall>(pr, l, cmds) \<in> set ls. \<exists>wd. observed w pr wd l cmds"
    by (rule polledE, blast)+
  from o have p: "\<forall>(pr, l, cmds) \<in> set ls. proper l" by (auto dest: observed_proper)
  have "length (commands_of ls) = labelled (is_sent True) ls + labelled (is_sent False) ls"
    using arg_cong [OF commands_ids [OF o], of length] ids_sent_length by simp
  then show ?thesis
    using labels_partition [of ls] counted_skipped [OF p, of "metrics s"]
    by (simp add: m st counted_published counted_scanned counted_cycles total_def
        published_statuses_def poll_results_def)
qed (simp_all add: total_def poll_results_def)

theorem Poll_accounting_witness:
  "\<exists>s'. Poll (example_watcher [failing_pr, example_pr]) example_state = Some (None, s')
    \<and> length (sent s') = count (publishedTotal (metrics s')) ''create''
        + count (publishedTotal (metrics s')) ''create_queued''
    \<and> reposScannedTotal (metrics s') = 2"
proof -
  from example_poll obtain s' where p: "Poll (example_watcher [failing_pr, example_pr]) example_state = Some (None, s')"
    and m: "metrics s' = IncPollCycle ''success'' (IncPublished ''create_queued'' (IncReposScanned
        (IncFilterSkipped ''details_error'' (IncReposScanned no_metrics))))" by blast
  with Poll_accounting [OF p] show ?thesis
    by (intro exI [of _ s']) (simp add: example_state_def no_metrics_def)
qed

lemma fetchAllPRs_broken:
  "broken (search_fetch w since) 1 wd e wd' \<Longrightarrow> fetchAllPRs w since wd = Some (([], e), wd')"
  by (simp add: fetchAllPRs_def search.broken_returns stop_search_def)

lemma fetchAllPRs_served:
  "served (search_fetch w since) 1 wd chunks wd' \<Longrightarrow>
    fetchAllPRs w since wd = Some ((concat chunks, ''''), wd')"
  by (simp add: fetchAllPRs_def search.served_returns found_def)

lemma Poll_search_ended:
  assumes "Disk w (world s) = (faults, wd0)"
    and "LoadCursor (codec w) faults (disk s) (cursorPath w) (startTime w) = Inr c"
    and "fetchAllPRs w (LastUpdatedAt c) wd0 = Some ((prs, reason), wd)"
  shows "reason \<noteq> '''' \<Longrightarrow> Poll w s = Some (None, s\<lparr>world := wd, metrics := IncPollCycle reason (metrics s)\<rparr>)"
    and "reason = '''' \<Longrightarrow> ctx_Done w wd = (True, wd') \<Longrightarrow> Poll w s = Some (None, s\<lparr>world := wd'\<rparr>)"
  using assms by (simp_all add: Poll_def)

lemma Poll_error_iff:
  "Poll w s = Some (Some e, s') \<longleftrightarrow>
     (\<exists>faults wd0 err. Disk w (world s) = (faults, wd0)
        \<and> LoadCursor (codec w) faults (disk s) (cursorPath w) (startTime w) = Inl err
        \<and> e = Wrapped ''load cursor'' err \<and> s' = s\<lparr>world := wd0\<rparr>)"
  by (auto simp: Poll_def Let_def split: prod.splits sum.splits if_splits Option.bind_splits)

text \<open>
  C15: A poll that cannot complete changes nothing that lasts. When the cursor cannot be
  loaded the error is returned, and this is the only error a poll returns; when a page of the
  search fails, the cycle is counted as \<open>github_error\<close>; when the context is cancelled
  during the search or right after it, nothing is counted. In each case no pull request is
  looked at, no command is sent and the cursor file is left alone.
\<close>

theorem Poll_aborts:
  assumes "Disk w (world s) = (faults, wd0)"
  shows "(\<forall>err. LoadCursor (codec w) faults (disk s) (cursorPath w) (startTime w) = Inl err \<longrightarrow>
        Poll w s = Some (Some (Wrapped ''load cursor'' err), s\<lparr>world := wd0\<rparr>))
    \<and> (\<forall>c wd. LoadCursor (codec w) faults (disk s) (cursorPath w) (startTime w) = Inr c
        \<and> broken (search_fetch w (LastUpdatedAt c)) 1 wd0 ''github_error'' wd \<longrightarrow>
        Poll w s = Some (None, s\<lparr>world := wd, metrics := IncPollCycle ''github_error'' (metrics s)\<rparr>))
    \<and> (\<forall>c wd. LoadCursor (codec w) faults (disk s) (cursorPath w) (startTime w) = Inr c
        \<and> broken (search_fetch w (LastUpdatedAt c)) 1 wd0 '''' wd \<and> ctx_permanent w \<longrightarrow>
        Poll w s = Some (None, s\<lparr>world := snd (ctx_Done w wd)\<rparr>))
    \<and> (\<forall>c chunks wd wd'. LoadCursor (codec w) faults (disk s) (cursorPath w) (startTime w) = Inr c
        \<and> served (search_fetch w (LastUpdatedAt c)) 1 wd0 chunks wd \<and> ctx_Done w wd = (True, wd') \<longrightarrow>
        Poll w s = Some (None, s\<lparr>world := wd'\<rparr>))
    \<and> (\<forall>e s'. Poll w s = Some (Some e, s') \<longrightarrow>
        (\<exists>err. LoadCursor (codec w) faults (disk s) (cursorPath w) (startTime w) = Inl err
           \<and> e = Wrapped ''load cursor'' err))"
proof (intro conjI allI impI; (elim conjE)?)
  note ended = Poll_search_ended [OF assms]
  {
    fix err assume "LoadCursor (codec w) faults (disk s) (cursorPath w) (startTime w) = Inl err"
    with assms show "Poll w s = Some (Some (Wrapped ''load cursor'' err), s\<lparr>world := wd0\<rparr>)"
      by (simp add: Poll_def)
  next
    fix c wd assume c: "LoadCursor (codec w) faults (disk s) (cursorPath w) (startTime w) = Inr c"
      and b: "broken (search_fetch w (LastUpdatedAt c)) 1 wd0 ''github_error'' wd"
    from ended(1) [OF c fetchAllPRs_broken [OF b]]
    show "Poll w s = Some (None, s\<lparr>world := wd, metrics := IncPollCycle ''github_error'' (metrics s)\<rparr>)"
      by simp
  next
    fix c wd assume c: "LoadCursor (codec w) faults (disk s) (cursorPath w) (startTime w) = Inr c"
      and b: "broken (search_fetch w (LastUpdatedAt c)) 1 wd0 '''' wd" and p: "ctx_permanent w"
    from broken_search [OF b] p have "ctx_Done w wd = (True, snd (ctx_Done w wd))"
      by (simp add: prod_eq_iff)
    from ended(2) [OF c fetchAllPRs_broken [OF b] refl this]
    show "Poll w s = Some (None, s\<lparr>world := snd (ctx_Done w wd)\<rparr>)" .
  next
    fix c chunks wd wd'
    assume c: "LoadCursor (codec w) faults (disk s) (cursorPath w) (startTime w) = Inr c"
      and f: "served (search_fetch w (LastUpdatedAt c)) 1 wd0 chunks wd"
      and d: "ctx_Done w wd = (True, wd')"
    from ended(2) [OF c fetchAllPRs_served [OF f] refl d] show "Poll w s = Some (None, s\<lparr>world := wd'\<rparr>)" .
  next
    fix e s' assume "Poll w s = Some (Some e, s')"
    with assms show "\<exists>err. LoadCursor (codec w) faults (disk s) (cursorPath w) (startTime w) = Inl err
           \<and> e = Wrapped ''load cursor'' err"
      by (auto simp: Poll_error_iff)
  }
qed

theorem Poll_aborts_witness:
  "Poll (example_watcher []\<lparr>ctx_Done := \<lambda>w. (True, w)\<rparr>) example_state = Some (None, example_state)"
proof -
  let ?w = "example_watcher []\<lparr>ctx_Done := \<lambda>w. (True, w)\<rparr>"
  have b: "broken (search_fetch ?w 50) 1 () '''' ()"
    by (rule error_page) (simp add: search_fetch_def)
  have d: "Disk ?w (world example_state) = (no_faults, ())" and p: "ctx_permanent ?w"
    and c: "ctx_Done ?w () = (True, ())" "LastUpdatedAt (newCursor 50) = 50"
    by (simp_all add: example_watcher_def newCursor_def ctx_permanent_def)
  have l: "LoadCursor (codec ?w) no_faults (disk example_state) (cursorPath ?w) (startTime ?w)
      = Inr (newCursor 50)"
    using example_loaded by (simp add: example_watcher_def)
  from Poll_aborts [OF d, THEN conjunct2, THEN conjunct2, THEN conjunct1, rule_format,
      of "newCursor 50" "()"] l b p c
  show ?thesis by (simp add: example_state_def)
qed

subsection \<open>A poll returns\<close>

text \<open>The calls of the reader, of the details and of the sender return.\<close>

definition calls_return :: "'w watcher \<Rightarrow> bool" where
  "calls_return w \<longleftrightarrow> reads_return (ghClient w)
     \<and> (\<forall>owner repo number wd. GetPRDetails (ghClient w) owner repo number wd \<noteq> None)
     \<and> (\<forall>cmd wd. SendCommand w cmd wd \<noteq> None)"

text \<open>The maps the batch writes to are not nil.\<close>

definition ready :: "'w pstate \<Rightarrow> bool" where
  "ready p \<longleftrightarrow> HeadSHAs (cursor p) \<noteq> None \<and> QueuedMarkers (cursor p) \<noteq> None \<and> newHeadSHAs p \<noteq> None"

lemma put_usable: "map_put k v m = Some m' \<Longrightarrow> m' \<noteq> None"
  by (rule map_put_not_None)

lemma handle_candidate_ready:
  assumes "ready p" and "handle_candidate w pr details result p = Some ((t, ok), p')"
  shows "ready p'"
  using assms(2) refl refl
proof (cases rule: handle_candidate_cases)
  case (sent cmd wd' hd new q)
  with put_usable [OF sent(7)] put_usable [OF sent(8)] assms(1) show ?thesis
    by (auto simp: ready_def simp del: not_None_eq dest: put_usable split: if_splits)
qed (use assms(1) in \<open>auto simp: ready_def simp del: not_None_eq dest: put_usable\<close>)

lemma processPR_ready:
  assumes "ready p" and "processPR w pr p = Some (r, p')"
  shows "ready p'"
proof -
  obtain t ok where r: "r = (t, ok)" by (cases r)
  from assms(2) [unfolded r] show ?thesis
  proof (cases rule: processPR_cases)
    case (skip reason wd)
    with assms(1) show ?thesis
      by (simp add: ready_def after_skip_def clear_marker_def Let_def del: not_None_eq)
  next
    case (candidate details result wd)
    from assms(1) have "ready (scanned wd p)" by (simp add: ready_def scanned_def)
    with candidate(2) show ?thesis by (rule handle_candidate_ready [rotated])
  qed
qed

lemma publish_returns:
  assumes "calls_return w" and "0 \<le> cfg_MaxSlugLen (w_cfg w)"
  shows "\<exists>ok p' . publish w pr details tid specs queued p = Some (ok, p')
    \<and> cursor p' = cursor p \<and> newHeadSHAs p' = newHeadSHAs p"
proof -
  from BuildCreateCommand_defined [OF assms(2)] obtain cmd
    where c: "BuildCreateCommand pr details tid (w_cfg w) specs = Some cmd" by blast
  from assms(1) obtain err wd where "SendCommand w cmd (world p) = Some (err, wd)"
    by (auto simp: calls_return_def) (metis surj_pair)
  with c show ?thesis by (cases err) (auto simp: publish_def Let_def)
qed

lemma handle_candidate_returns:
  assumes "ready p" and "calls_return w" and "0 \<le> cfg_MaxSlugLen (w_cfg w)"
  shows "handle_candidate w pr details result p \<noteq> None"
proof -
  from publish_returns [OF assms(2,3)] obtain ok p1 where
    "publish w pr details (task_id_of w pr details result) (MatchedSpecs result) (PromptsQueued result) p = Some (ok, p1)"
    and "cursor p1 = cursor p" and "newHeadSHAs p1 = newHeadSHAs p" by blast
  with assms(1) show ?thesis
    by (auto simp: handle_candidate_def taskIDsFor_eq keep_head_def set_head_def set_marker_def ready_def map_put_def)
qed

lemma processPR_returns:
  assumes "ready p" and "calls_return w" and "0 \<le> cfg_MaxSlugLen (w_cfg w)"
  shows "processPR w pr p \<noteq> None"
proof -
  have h: "handle_candidate w pr details result (p\<lparr>metrics := m, world := wd1\<rparr>) \<noteq> None"
    "handle_candidate w pr details result (p\<lparr>metrics := m, world := wd2\<rparr>) \<noteq> None"
    for details result m wd1 wd2
    by (rule handle_candidate_returns [OF _ assms(2,3)], use assms(1) in \<open>simp add: ready_def\<close>)+
  have sk: "skipped reason q \<noteq> None" for reason and q :: "'a pstate" by (simp add: skipped_def)
  have g: "GetPRDetails (ghClient w) owner repo number wd \<noteq> None" for owner repo number wd
    using assms(2) by (simp add: calls_return_def)
  have e: "Evaluate y (ghClient w) inp wd \<noteq> None" for y inp wd
    using assms(2) by (intro Evaluate_returns) (simp add: calls_return_def)
  show ?thesis
    unfolding processPR_def Let_def by (intro returns g e sk) (use h in simp)
qed

lemma process_loop_returns:
  assumes "ready p" and "calls_return w" and "0 \<le> cfg_MaxSlugLen (w_cfg w)"
  shows "process_loop w prs mx p \<noteq> None"
  using assms(1)
proof (induction prs arbitrary: mx p)
  case Nil
  then show ?case by simp
next
  case (Cons pr prs)
  obtain d wd where d: "ctx_Done w (world p) = (d, wd)" by fastforce
  have r: "ready (p\<lparr>world := wd\<rparr>)" using Cons.prems by (simp add: ready_def)
  from processPR_returns [OF r assms(2,3), of pr] obtain t ok p1
    where p1: "processPR w pr (p\<lparr>world := wd\<rparr>) = Some ((t, ok), p1)"
    by (metis not_None_eq surj_pair)
  from Cons.IH [OF processPR_ready [OF r p1], of "if ok \<and> t > mx then t else mx"] d p1 show ?case
    by (auto simp: Let_def)
qed

lemma Poll_defined:
  assumes "calls_return w" and "0 \<le> cfg_MaxSlugLen (w_cfg w)"
    and "\<And>since wd. (\<exists>chunks wd'. served (search_fetch w since) 1 wd chunks wd')
      \<or> (\<exists>e wd'. broken (search_fetch w since) 1 wd e wd')"
  shows "\<exists>r s'. Poll w s = Some (r, s')"
proof -
  obtain faults wd0 where f: "Disk w (world s) = (faults, wd0)" by fastforce
  show ?thesis
  proof (cases "LoadCursor (codec w) faults (disk s) (cursorPath w) (startTime w)")
    case (Inl err)
    with f show ?thesis by (simp add: Poll_def)
  next
    case (Inr c)
    from assms(3) search.returns_iff [of w "LastUpdatedAt c" 1 "[]" wd0] obtain prs reason wd1
      where a: "fetchAllPRs w (LastUpdatedAt c) wd0 = Some ((prs, reason), wd1)"
      unfolding fetchAllPRs_def by (metis surj_pair)
    obtain d wd2 where d: "ctx_Done w wd1 = (d, wd2)" by fastforce
    let ?p = "begin_batch c (s\<lparr>world := wd2\<rparr>)"
    have "ready (?p\<lparr>newHeadSHAs := make_map\<rparr>)"
      using LoadCursor_usable [OF Inr] by (simp add: ready_def usable_def)
    from process_loop_returns [OF this assms(1,2)] obtain mx p1 where
      "processPRs w prs ?p = Some (mx, p1)"
      unfolding processPRs_def by (metis not_None_eq surj_pair)
    with f Inr a d show ?thesis
      by (auto simp: Poll_def Let_def split: prod.splits)
  qed
qed

end
