(* ===== verification/Watcher_Run.thy ===== *)
theory Watcher_Run
  imports Watcher_Claims
begin

text \<open>
  The life of a deployment: polls one after the other over the same cursor file. The
  history of a run lists what was done for each pull request, with a mark where a poll
  saved its cursor; it is a run of the abstract machine, whose invariants give what holds
  across polls: a queued phase is handed out once, a task is not created again by the next
  poll, and the watermark only moves forward.
\<close>

primrec polls :: "'w watcher \<Rightarrow> nat \<Rightarrow> 'w wstate \<Rightarrow> 'w wstate option" where
  "polls w 0 s = Some s"
| "polls w (Suc n) s = Option.bind (Poll w s) (\<lambda>(r, s1). polls w n s1)"

lemma polls_defined:
  assumes "\<And>s. \<exists>r s'. Poll w s = Some (r, s')"
  shows "\<exists>s'. polls w n s = Some s'"
proof (induction n arbitrary: s)
  case 0
  show ?case by simp
next
  case (Suc n)
  from assms obtain r s1 where "Poll w s = Some (r, s1)" by blast
  with Suc.IH [of s1] show ?case by simp
qed

subsection \<open>Runs of the abstract machine\<close>

text \<open>Between two polls the identifiers of the last poll become the known ones.\<close>

definition rollover :: "amachine \<Rightarrow> amachine" where
  "rollover a = a\<lparr>known := fresh a, fresh := {}\<rparr>"

inductive hrun :: "amachine \<Rightarrow> entry option list \<Rightarrow> amachine \<Rightarrow> bool" where
  hrun_Nil: "hrun a [] a"
| hrun_entry: "astep a (queuedMarkerKey pr) l a1 \<Longrightarrow> hrun a1 h a2 \<Longrightarrow> hrun a (Some (pr, l, cmds) # h) a2"
| hrun_saved: "hrun (rollover a) h a2 \<Longrightarrow> hrun a (None # h) a2"

inductive_simps hrun_simps [simp]:
  "hrun a [] a'" "hrun a (Some (pr, l, cmds) # h) a'" "hrun a (None # h) a'"

fun entries :: "entry option list \<Rightarrow> entry list" where
  "entries [] = []"
| "entries (None # h) = entries h"
| "entries (Some e # h) = e # entries h"

lemma entries_append [simp]: "entries (h @ h') = entries h @ entries h'"
  by (induction h rule: entries.induct) simp_all

lemma entries_batch [simp]: "entries (map Some es) = es"
  by (induction es) simp_all

lemma hrun_append: "hrun a (h @ h') a' \<longleftrightarrow> (\<exists>a1. hrun a h a1 \<and> hrun a1 h' a')"
proof (induction h arbitrary: a)
  case Nil
  show ?case by simp
next
  case (Cons e h)
  show ?case
  proof (cases e)
    case None
    with Cons.IH show ?thesis by simp
  next
    case (Some x)
    obtain pr l cmds where "x = (pr, l, cmds)" by (cases x)
    with Some Cons.IH show ?thesis by simp blast
  qed
qed

lemma hrun_batch: "atrace a (trace_of ls) a' \<longleftrightarrow> hrun a (map Some ls) a'"
proof (induction ls arbitrary: a)
  case Nil
  show ?case by simp
next
  case (Cons e ls)
  obtain pr l cmds where e: "e = (pr, l, cmds)" by (cases e)
  show ?case unfolding e by (simp add: Cons.IH)
qed

lemma hrun_marked:
  "hrun a h a' \<Longrightarrow> k \<in> marked a \<Longrightarrow> \<not> cleared_in k (trace_of (entries h)) \<Longrightarrow>
    k \<in> marked a' \<and> \<not> sent_in k (trace_of (entries h))"
proof (induction rule: hrun.induct)
  case (hrun_Nil a)
  then show ?case by simp
next
  case (hrun_entry a pr l a1 h a2 cmds)
  then have "k \<in> marked a1 \<and> \<not> (queuedMarkerKey pr = k \<and> (\<exists>i q. l = Sent i q))"
    using astep_marked [OF hrun_entry.hyps(1)] by simp
  with hrun_entry show ?case by auto
next
  case (hrun_saved a h a2)
  then show ?case by (simp add: rollover_def)
qed

text \<open>A queued trigger is followed by another command for its pull request only after a clearing.\<close>

lemma hrun_queued_once:
  assumes "hrun a (xs @ Some (pr, Sent i True, cmds) # ys @ Some (pr', Sent j q, cmds') # zs) a'"
    and "queuedMarkerKey pr' = queuedMarkerKey pr"
  shows "cleared_in (queuedMarkerKey pr) (trace_of (entries ys))"
proof (rule ccontr)
  assume n: "\<not> cleared_in (queuedMarkerKey pr) (trace_of (entries ys))"
  from assms(1) obtain a1 a2 a3 a4 where "astep a1 (queuedMarkerKey pr) (Sent i True) a2"
    and y: "hrun a2 ys a3" and t: "astep a3 (queuedMarkerKey pr') (Sent j q) a4"
    by (auto simp: hrun_append)
  then have "queuedMarkerKey pr \<in> marked a2" by simp
  with hrun_marked [OF y] n t assms(2) show False by simp
qed

text \<open>Within a poll known identifiers stay known; the fresh ones are known to the next.\<close>

definition ids_of :: "entry option list \<Rightarrow> string list" where
  "ids_of h = ids_sent (trace_of (entries h))"

lemma astep_fresh_sent: "astep a k l a' \<Longrightarrow> set (sent_ids l) \<subseteq> fresh a'"
  by (cases l) (auto simp: sent_ids_def)

lemma hrun_within:
  "hrun a h a' \<Longrightarrow> None \<notin> set h \<Longrightarrow> distinct (ids_of h) \<and> set (ids_of h) \<inter> known a = {}
    \<and> known a \<subseteq> known a' \<and> fresh a \<subseteq> fresh a' \<and> set (ids_of h) \<subseteq> fresh a' \<inter> known a'"
proof (induction rule: hrun.induct)
  case (hrun_Nil a)
  then show ?case by (simp add: ids_of_def)
next
  case (hrun_entry a pr l a1 h a2 cmds)
  from astep_known [OF hrun_entry.hyps(1)] astep_sent_new [OF hrun_entry.hyps(1)]
    astep_fresh [OF hrun_entry.hyps(1)] astep_fresh_sent [OF hrun_entry.hyps(1)]
    hrun_entry.IH hrun_entry.prems
  show ?case by (cases l) (auto simp: ids_of_def sent_ids_def)
next
  case (hrun_saved a h a2)
  then show ?case by simp
qed

lemma hrun_next_poll:
  assumes "hrun a (xs @ ys @ None # zs @ us) a'" and "None \<notin> set ys" and "None \<notin> set zs"
  shows "distinct (ids_of (ys @ zs))"
proof -
  from assms(1) obtain a1 a2 a3 where y: "hrun a1 ys a2" and z: "hrun (rollover a2) zs a3"
    by (auto simp: hrun_append)
  from hrun_within [OF y assms(2)] hrun_within [OF z assms(3)] show ?thesis
    by (auto simp: ids_of_def rollover_def trace_of_def)
qed

subsection \<open>What is stored can be stored\<close>

text \<open>
  Strings are UTF-8: the times have a JSON text that is read back, identifiers, head commits
  and the names in the search results are valid.
\<close>

definition well_encoded :: "'w watcher \<Rightarrow> bool" where
  "well_encoded w \<longleftrightarrow>
     (\<forall>t. codec_ok (codec w) t)
     \<and> (\<forall>ns k. valid_utf8 (uuid5 w ns k))
     \<and> (\<forall>owner repo number wd details wd'.
          GetPRDetails (ghClient w) owner repo number wd = Some (Inr details, wd') \<longrightarrow> valid_utf8 (d_HeadSHA details))
     \<and> (\<forall>since page wd result wd'.
          SearchPRs (ghClient w) (w_scope w) since page wd = Some (Inr result, wd') \<longrightarrow>
          (\<forall>pr \<in> set (PullRequests result). valid_utf8 (Owner pr) \<and> valid_utf8 (Repo pr)))"

definition table_ok :: "(string, string) go_map \<Rightarrow> bool" where
  "table_ok m \<longleftrightarrow> map_wf m \<and> map_valid_utf8 m"

lemma valid_entries:
  "map_wf m \<Longrightarrow> map_valid_utf8 m \<longleftrightarrow> (\<forall>k v. map_get m k = Some v \<longrightarrow> valid_utf8 k \<and> valid_utf8 v)"
  by (cases m) (auto simp: map_wf_def map_keys_def map_valid_utf8_def map_get_def list_all_iff dest: map_of_SomeD)

lemma table_put:
  assumes "table_ok m" and "map_put k v m = Some m'" and "valid_utf8 k" and "valid_utf8 v"
  shows "table_ok m'"
proof -
  have wf: "map_wf m'" using assms(1,2) by (auto simp: table_ok_def intro: map_put_wf)
  have "\<forall>j u. map_get m' j = Some u \<longrightarrow> valid_utf8 j \<and> valid_utf8 u"
    using assms(1,3,4) map_get_put [OF assms(2)] valid_entries [of m]
    by (auto simp: table_ok_def)
  with wf show ?thesis by (simp add: table_ok_def valid_entries)
qed

lemma table_delete: "table_ok m \<Longrightarrow> table_ok (map_delete k m)"
  using map_delete_wf [of m k] valid_entries [of m] valid_entries [of "map_delete k m"]
  by (simp add: table_ok_def map_get_delete)

lemma table_make [simp]: "table_ok make_map"
  by (simp add: table_ok_def make_map_def map_wf_def map_keys_def map_valid_utf8_def)

lemma table_view: "table_ok m \<Longrightarrow> map_wf m' \<Longrightarrow> map_get m' = map_get m \<Longrightarrow> table_ok m'"
  using valid_entries [of m] valid_entries [of m'] by (simp add: table_ok_def)

lemma storable_iff:
  "(\<forall>t. codec_ok cd t) \<Longrightarrow> storable cd c \<longleftrightarrow> table_ok (HeadSHAs c) \<and> table_ok (QueuedMarkers c)"
  by (auto simp: storable_def table_ok_def)

definition tables_ok :: "'w pstate \<Rightarrow> bool" where
  "tables_ok p \<longleftrightarrow> table_ok (HeadSHAs (cursor p)) \<and> table_ok (QueuedMarkers (cursor p)) \<and> table_ok (newHeadSHAs p)"

definition named_ok :: "PullRequest \<Rightarrow> bool" where
  "named_ok pr \<longleftrightarrow> valid_utf8 (Owner pr) \<and> valid_utf8 (Repo pr)"

lemma well_encoded_sha:
  "well_encoded w \<Longrightarrow> GetPRDetails (ghClient w) owner repo number wd = Some (Inr details, wd') \<Longrightarrow>
    valid_utf8 (d_HeadSHA details)"
  unfolding well_encoded_def by blast

lemma well_encoded_named:
  "well_encoded w \<Longrightarrow> SearchPRs (ghClient w) (w_scope w) since page wd = Some (Inr result, wd') \<Longrightarrow>
    \<forall>pr \<in> set (PullRequests result). named_ok pr"
  unfolding well_encoded_def named_ok_def by blast

lemma marker_key_valid: "named_ok pr \<Longrightarrow> valid_utf8 (queuedMarkerKey pr)"
  unfolding queuedMarkerKey_def named_ok_def
  by (intro valid_utf8_append itoa_valid) (auto intro: ascii_valid_utf8)

lemma handle_candidate_tables:
  assumes "well_encoded w" and "named_ok pr" and "tables_ok p" and sha: "valid_utf8 (d_HeadSHA details)"
    and "handle_candidate w pr details result p = Some ((t, ok), p')"
  shows "tables_ok p'"
proof -
  have ids: "valid_utf8 (task_id_of w pr details result)" "valid_utf8 (queued_key_of w pr details)"
    using assms(1) by (simp_all add: well_encoded_def task_id_of_def queued_key_of_def taskIDsFor_def DeriveTaskID_def)
  from assms(5) refl refl show ?thesis
  proof (cases rule: handle_candidate_cases)
    case (known new)
    with assms(3) table_put [OF _ known(2) ids(1) sha] show ?thesis by (simp add: tables_ok_def)
  next
    case (marked new)
    with assms(3) table_put [OF _ marked(3) ids(1) sha] show ?thesis by (simp add: tables_ok_def)
  next
    case (failed cmd err wd')
    with assms(3) show ?thesis by (simp add: tables_ok_def)
  next
    case (sent cmd wd' hd new q)
    have "table_ok q"
      using sent(9) assms(3) table_put [OF _ _ marker_key_valid [OF assms(2)] ids(2)]
      by (auto simp: tables_ok_def split: if_splits)
    with sent assms(3) table_put [OF _ sent(7) ids(1) sha] table_put [OF _ sent(8) ids(1) sha]
    show ?thesis by (simp add: tables_ok_def)
  qed
qed

lemma processPR_tables:
  assumes "well_encoded w" and "named_ok pr" and "tables_ok p" and "processPR w pr p = Some (r, p')"
  shows "tables_ok p'"
proof -
  obtain t ok where r: "r = (t, ok)" by (cases r)
  from assms(4) [unfolded r] show ?thesis
  proof (cases rule: processPR_cases)
    case (skip reason wd)
    with assms(3) table_delete show ?thesis
      by (auto simp: tables_ok_def after_skip_def clear_marker_def Let_def)
  next
    case (candidate details result wd)
    from candidate(1) assms(1) have "valid_utf8 (d_HeadSHA details)"
      by (auto simp: candidate_def dest: well_encoded_sha)
    moreover have "tables_ok (scanned wd p)" using assms(3) by (simp add: tables_ok_def scanned_def)
    ultimately show ?thesis using handle_candidate_tables [OF assms(1,2) _ _ candidate(2)] by blast
  qed
qed

lemma process_loop_tables:
  "well_encoded w \<Longrightarrow> \<forall>pr \<in> set prs. named_ok pr \<Longrightarrow> tables_ok p \<Longrightarrow>
    process_loop w prs mx p = Some (mx', p') \<Longrightarrow> table_ok (HeadSHAs (cursor p')) \<and> table_ok (QueuedMarkers (cursor p'))"
proof (induction prs arbitrary: mx p)
  case Nil
  then show ?case by (auto simp: commit_heads_def tables_ok_def)
next
  case (Cons pr prs)
  obtain d wd where d: "ctx_Done w (world p) = (d, wd)" by fastforce
  have t: "tables_ok (p\<lparr>world := wd\<rparr>)" using Cons.prems(3) by (simp add: tables_ok_def)
  show ?case
  proof (cases d)
    case True
    with Cons.prems d show ?thesis by (auto simp: commit_heads_def tables_ok_def)
  next
    case False
    with Cons.prems(4) d obtain t1 ok p1 where p1: "processPR w pr (p\<lparr>world := wd\<rparr>) = Some ((t1, ok), p1)"
      and rest: "process_loop w prs (if ok \<and> t1 > mx then t1 else mx) p1 = Some (mx', p')"
      by (auto simp: Let_def)
    from Cons.prems(2) have n: "named_ok pr" "\<forall>pr \<in> set prs. named_ok pr" by simp_all
    show ?thesis
      by (rule Cons.IH [OF Cons.prems(1) n(2) processPR_tables [OF Cons.prems(1) n(1) t p1] rest])
  qed
qed

lemma page_named:
  assumes "well_encoded w" and "search_fetch w since page wd = Some (Inr (prs, next), wd')"
  shows "\<forall>pr \<in> set prs. named_ok pr"
proof -
  obtain d wd1 where d: "ctx_Done w wd = (d, wd1)" by fastforce
  with assms(2) obtain result where
    "SearchPRs (ghClient w) (w_scope w) since page wd1 = Some (Inr result, wd')" "prs = PullRequests result"
    by (auto simp: search_fetch_def split: sum.splits if_splits)
  with well_encoded_named [OF assms(1)] show ?thesis by blast
qed

lemma served_named:
  assumes "well_encoded w"
  shows "served (search_fetch w since) page wd chunks wd' \<Longrightarrow> \<forall>pr \<in> set (concat chunks). named_ok pr"
proof (induction rule: served.induct)
  case (last_page page wd prs wd')
  from page_named [OF assms last_page] show ?case by simp
next
  case (next_page page wd prs q wd1 chunks wd')
  from page_named [OF assms next_page.hyps(1)] next_page.IH show ?case by auto
qed

subsection \<open>Polls are a run of the abstract machine\<close>

text \<open>
  The file holds a cursor: it is still missing, and the cursor is the empty one, or it is
  what was written for a storable cursor.
\<close>

definition holds :: "'w watcher \<Rightarrow> files \<Rightarrow> Cursor \<Rightarrow> bool" where
  "holds w fs c \<longleftrightarrow>
     fs (cursorPath w) = None \<and> c = newCursor (startTime w)
     \<or> storable (codec w) c \<and> (\<exists>data. cursor_Marshal (codec w) c = Inr data \<and> fs (cursorPath w) = Some data)"

definition load :: "'w watcher \<Rightarrow> files \<Rightarrow> go_error + Cursor" where
  "load w fs = LoadCursor (codec w) no_faults fs (cursorPath w) (startTime w)"

lemma holds_load:
  assumes "holds w fs c" and "load w fs = Inr c1"
  shows "start_of c1 = start_of c \<and> LastUpdatedAt c1 = LastUpdatedAt c
    \<and> (well_encoded w \<longrightarrow> table_ok (HeadSHAs c1) \<and> table_ok (QueuedMarkers c1))"
proof -
  consider "fs (cursorPath w) = None" "c = newCursor (startTime w)"
    | data where "storable (codec w) c" "cursor_Marshal (codec w) c = Inr data" "fs (cursorPath w) = Some data"
    using assms(1) by (auto simp: holds_def)
  then show ?thesis
  proof cases
    case 1
    with assms(2) have "c1 = c" by (simp add: load_def LoadCursor_def no_faults_def)
    with 1 show ?thesis by (simp add: newCursor_def)
  next
    case 2
    from Unmarshal_Marshal [OF 2(1)] 2(2) obtain c2 where c2: "cursor_Unmarshal (codec w) data = Some c2"
      and v: "cursor_view c2 = cursor_view c" and wf: "map_wf (HeadSHAs c2)" "map_wf (QueuedMarkers c2)"
      by auto
    with assms(2) 2(3) have c1: "c1 = c2\<lparr>HeadSHAs := fill (HeadSHAs c2), QueuedMarkers := fill (QueuedMarkers c2)\<rparr>"
      by (simp add: load_def LoadCursor_def no_faults_def)
    have "map_wf (fill m)" if "map_wf m" for m :: "(string, string) go_map"
      using that by (simp add: fill_def)
    moreover have "table_ok (HeadSHAs c)" "table_ok (QueuedMarkers c)"
      using 2(1) by (simp_all add: storable_def table_ok_def)
    ultimately have "table_ok (HeadSHAs c1)" "table_ok (QueuedMarkers c1)"
      using table_view v wf c1 by (auto simp: cursor_view_def)
    moreover have "start_of c1 = start_of c" "LastUpdatedAt c1 = LastUpdatedAt c"
      using v c1 by (simp_all add: start_of_def cursor_view_def)
    ultimately show ?thesis by simp
  qed
qed

lemma polled_tables:
  assumes "well_encoded w" and "searched w (LastUpdatedAt c) prs" and "polled w c s prs ls c' s'"
    and "table_ok (HeadSHAs c)" and "table_ok (QueuedMarkers c)"
  shows "storable (codec w) c'"
proof -
  from assms(3) obtain s1 p where p: "processPRs w prs (begin_batch c s1) = Some (LastUpdatedAt c', p)"
    and c': "c' = (cursor p)\<lparr>LastUpdatedAt := LastUpdatedAt c'\<rparr>"
    by (auto simp: polled_def)
  from assms(1,2) have n: "\<forall>pr \<in> set prs. named_ok pr" by (auto simp: searched_def dest: served_named)
  have "tables_ok ((begin_batch c s1)\<lparr>newHeadSHAs := make_map\<rparr>)"
    using assms(4,5) by (simp add: tables_ok_def)
  from process_loop_tables [OF assms(1) n this p [unfolded processPRs_def]]
  have "table_ok (HeadSHAs c') \<and> table_ok (QueuedMarkers c')"
    by (subst c', subst (2) c') simp
  then show ?thesis using assms(1) by (simp add: storable_iff well_encoded_def)
qed

lemma saved_holds:
  assumes "storable (codec w) c" and "SaveCursor (codec w) no_faults fs (cursorPath w) c = (err, fs')"
  shows "holds w fs' c"
proof -
  from assms(1) obtain data where d: "cursor_Marshal (codec w) c = Inr data"
    by (auto simp: storable_def codec_ok_def cursor_Marshal_def)
  with assms(2) have "fs' (cursorPath w) = Some data"
    by (auto simp: SaveCursor_def write_file_def rename_file_def no_faults_def)
  with assms(1) d show ?thesis by (simp add: holds_def)
qed

text \<open>One poll extends the history, or leaves everything that lasts as it was.\<close>

lemma Poll_extends:
  assumes "disk_intact w" and "well_encoded w" and "ctx_permanent w"
    and "holds w (disk s) c" and "Poll w s = Some (r, s')"
  obtains (idle) "sent s' = sent s" "disk s' = disk s" "filterSkippedTotal (metrics s') = filterSkippedTotal (metrics s)"
    | (batch) ls c' a where "atrace (start_of c) (trace_of ls) a" "start_of c' = rollover a"
      "holds w (disk s') c'" "sent s' = sent s @ commands_of ls"
      "\<forall>(pr, l, cmds) \<in> set ls. \<exists>wd. observed w pr wd l cmds"
      "filterSkippedTotal (metrics s') = filterSkippedTotal (counted ls (metrics s))"
  using assms(5)
proof (cases rule: Poll_cases)
  case (success faults c1 prs ls c' faults' err)
  from success(2,6) assms(1) have f: "faults = no_faults" "faults' = no_faults" by (auto simp: disk_intact_def)
  with success(3) have "load w (disk s) = Inr c1" by (simp add: load_def)
  from holds_load [OF assms(4) this] assms(2)
  have c1: "start_of c1 = start_of c" "table_ok (HeadSHAs c1)" "table_ok (QueuedMarkers c1)" by simp_all
  from success(4) assms(3) have sr: "searched w (LastUpdatedAt c1) prs" by simp
  have "holds w (disk s') c'"
    using polled_tables [OF assms(2) sr success(5) c1(2,3)] success(7) f by (simp add: saved_holds)
  moreover from success(5) obtain a where "atrace (start_of c1) (trace_of ls) a"
      "dom (map_get (HeadSHAs c')) = fresh a" "dom (map_get (QueuedMarkers c')) = marked a"
      "sent s' = sent s @ commands_of ls" "\<forall>(pr, l, cmds) \<in> set ls. \<exists>wd. observed w pr wd l cmds"
      "metrics s' = IncPollCycle ''success'' (counted ls (metrics s))"
    by (rule polledE) blast
  moreover from this(2,3) have "start_of c' = rollover a"
    by (cases a) (simp add: start_of_def rollover_def)
  ultimately show ?thesis using c1(1) by (intro batch [of ls a c']) simp_all
qed (use idle in simp_all)

text \<open>
  A history accounts for the commands sent and for the reasons counted, and every entry was
  observed.
\<close>

definition history_ok :: "'w watcher \<Rightarrow> 'w wstate \<Rightarrow> entry option list \<Rightarrow> 'w wstate \<Rightarrow> bool" where
  "history_ok w s0 h s \<longleftrightarrow> sent s = sent s0 @ commands_of (entries h)
     \<and> filterSkippedTotal (metrics s) = filterSkippedTotal (counted (entries h) (metrics s0))
     \<and> (\<forall>(pr, l, cmds) \<in> set (entries h). \<exists>wd. observed w pr wd l cmds)"

lemma counted_skips:
  "filterSkippedTotal m = filterSkippedTotal m' \<Longrightarrow>
    filterSkippedTotal (counted ls m) = filterSkippedTotal (counted ls m')"
proof (induction ls arbitrary: m m')
  case Nil
  then show ?case by simp
next
  case (Cons e ls)
  obtain pr l cmds where e: "e = (pr, l, cmds)" by (cases e)
  have "filterSkippedTotal (count_label l m) = filterSkippedTotal (count_label l m')"
    using Cons.prems by (cases l) (simp_all add: count_label_def)
  from Cons.IH [OF this] show ?case unfolding e by simp
qed

lemma counted_reason:
  "r \<noteq> ''queued_marker'' \<Longrightarrow> count (filterSkippedTotal (counted ls m)) r
    = count (filterSkippedTotal m) r + labelled (\<lambda>l. l = Skip r) ls"
proof (induction ls arbitrary: m)
  case Nil
  then show ?case by simp
next
  case (Cons e ls)
  obtain pr l cmds where e: "e = (pr, l, cmds)" by (cases e)
  show ?case unfolding e using Cons by (cases l) (simp_all add: count_label_def)
qed

lemma polls_history:
  assumes "disk_intact w" and "well_encoded w" and "ctx_permanent w"
  shows "holds w (disk s0) c0 \<Longrightarrow> polls w n s0 = Some s \<Longrightarrow>
    \<exists>h a. hrun (start_of c0) h a \<and> history_ok w s0 h s"
proof (induction n arbitrary: s0 c0)
  case 0
  then show ?case by (intro exI [of _ "[]"]) (auto simp: history_ok_def)
next
  case (Suc n)
  from Suc.prems(2) obtain r s1 where p: "Poll w s0 = Some (r, s1)" and rest: "polls w n s1 = Some s"
    by auto
  from assms Suc.prems(1) p show ?case
  proof (cases rule: Poll_extends)
    case idle
    with Suc.IH [OF _ rest, of c0] Suc.prems(1) counted_skips [OF idle(3)] show ?thesis
      by (simp add: history_ok_def)
  next
    case (batch ls c' a)
    from Suc.IH [OF batch(3) rest] obtain h a' where h: "hrun (start_of c') h a'" "history_ok w s1 h s"
      by blast
    have "hrun (start_of c0) (map Some ls @ None # h) a'"
      using batch(1,2) h(1) by (auto simp: hrun_append hrun_batch)
    moreover have "history_ok w s0 (map Some ls @ None # h) s"
      using h(2) batch(4,5) counted_skips [OF batch(6), of "entries h"]
      by (auto simp: history_ok_def commands_of_def counted_def)
    ultimately show ?thesis by blast
  qed
qed

subsection \<open>The watermark\<close>

text \<open>A pull request a search since \<open>t\<close> or later answered, and that was seen to be a candidate.\<close>

definition seen_candidate :: "'w watcher \<Rightarrow> datetime \<Rightarrow> PullRequest \<Rightarrow> bool" where
  "seen_candidate w t pr \<longleftrightarrow>
     (\<exists>since page wd answer wd'. t \<le> since
        \<and> SearchPRs (ghClient w) (w_scope w) since page wd = Some (Inr answer, wd')
        \<and> pr \<in> set (PullRequests answer))
     \<and> (\<exists>wd details result wd'. candidate w pr wd details result wd')"

lemma served_answers:
  "served (search_fetch w since) p wd chunks wd' \<Longrightarrow> pr \<in> set (concat chunks) \<Longrightarrow>
    \<exists>page wd answer wd'. SearchPRs (ghClient w) (w_scope w) since page wd = Some (Inr answer, wd')
      \<and> pr \<in> set (PullRequests answer)"
proof (induction rule: served.induct)
  case (last_page p wd prs wd')
  then show ?case
    by (fastforce simp: search_fetch_def split: prod.splits sum.splits if_splits Option.bind_splits)
next
  case (next_page p wd prs q wd1 chunks wd')
  show ?case
  proof (cases "pr \<in> set prs")
    case True
    with next_page.hyps(1) show ?thesis
      by (fastforce simp: search_fetch_def split: prod.splits sum.splits if_splits Option.bind_splits)
  next
    case False
    with next_page.prems next_page.IH show ?thesis by simp
  qed
qed

lemma advances_candidate:
  "observed w pr wd0 l cmds \<Longrightarrow> advances l \<Longrightarrow> \<exists>wd details result wd'. candidate w pr wd details result wd'"
  by (cases l) (auto simp: observed_def advances_def)

definition moves :: "'w watcher \<Rightarrow> datetime \<Rightarrow> datetime \<Rightarrow> bool" where
  "moves w t t' \<longleftrightarrow> t \<le> t' \<and> (t' = t \<or> (\<exists>pr. seen_candidate w t pr \<and> t' = UpdatedAt pr))"

lemma moves_trans: "moves w t t1 \<Longrightarrow> moves w t1 t2 \<Longrightarrow> moves w t t2"
proof -
  have later: "seen_candidate w t1 pr \<Longrightarrow> t \<le> t1 \<Longrightarrow> seen_candidate w t pr" for pr
    unfolding seen_candidate_def by (meson order.trans)
  assume "moves w t t1" and "moves w t1 t2"
  with later show "moves w t t2" unfolding moves_def by (metis order.trans)
qed

lemma polled_moves:
  assumes "searched w (LastUpdatedAt c) prs" and "polled w c s prs ls c' s'"
  shows "moves w (LastUpdatedAt c) (LastUpdatedAt c')"
proof -
  from assms(2) obtain rest where prs: "prs = map fst ls @ rest"
    and hw: "LastUpdatedAt c' = high_water (LastUpdatedAt c) ls"
    and ob: "\<forall>(pr, l, cmds) \<in> set ls. \<exists>wd. observed w pr wd l cmds"
    by (rule polledE)
  have "LastUpdatedAt c' \<in> insert (LastUpdatedAt c) (advanced ls)"
    unfolding hw high_water_eq by (rule Max_in) (simp_all add: advanced_def)
  moreover have "\<exists>pr. seen_candidate w (LastUpdatedAt c) pr \<and> t = UpdatedAt pr" if "t \<in> advanced ls" for t
  proof -
    from that obtain pr l cmds where e: "(pr, l, cmds) \<in> set ls" "advances l" "t = UpdatedAt pr"
      by (auto simp: advanced_def)
    from e(1) have "pr \<in> set prs" by (force simp: prs)
    with assms(1) have "\<exists>page wd answer wd'. SearchPRs (ghClient w) (w_scope w) (LastUpdatedAt c) page wd
        = Some (Inr answer, wd') \<and> pr \<in> set (PullRequests answer)"
      unfolding searched_def using served_answers by metis
    moreover from ob e(1) have "\<exists>wd. observed w pr wd l cmds" by fast
    ultimately have "seen_candidate w (LastUpdatedAt c) pr"
      unfolding seen_candidate_def using advances_candidate [OF _ e(2)] order.refl by metis
    with e(3) show ?thesis by blast
  qed
  ultimately show ?thesis
    using high_water_le [of "LastUpdatedAt c" ls] hw by (auto simp: moves_def)
qed

lemma Poll_moves:
  assumes "disk_intact w" and "well_encoded w" and "ctx_permanent w"
    and "holds w (disk s) c" and "Poll w s = Some (r, s')"
  obtains c' where "holds w (disk s') c'" "moves w (LastUpdatedAt c) (LastUpdatedAt c')"
  using assms(5)
proof (cases rule: Poll_cases)
  case (success faults c1 prs ls c' faults' err)
  from success(2,6) assms(1) have f: "faults = no_faults" "faults' = no_faults" by (auto simp: disk_intact_def)
  with success(3) have "load w (disk s) = Inr c1" by (simp add: load_def)
  from holds_load [OF assms(4) this] assms(2)
  have c1: "LastUpdatedAt c1 = LastUpdatedAt c" "table_ok (HeadSHAs c1)" "table_ok (QueuedMarkers c1)" by simp_all
  from success(4) assms(3) have sr: "searched w (LastUpdatedAt c1) prs" by simp
  have "holds w (disk s') c'"
    using polled_tables [OF assms(2) sr success(5) c1(2,3)] success(7) f by (simp add: saved_holds)
  with polled_moves [OF sr success(5)] c1(1) that show ?thesis by simp
qed (use that [of c] assms(4) in \<open>simp_all add: moves_def\<close>)

lemma polls_move:
  assumes "disk_intact w" and "well_encoded w" and "ctx_permanent w"
  shows "holds w (disk s) c \<Longrightarrow> polls w n s = Some s' \<Longrightarrow>
    \<exists>c'. holds w (disk s') c' \<and> moves w (LastUpdatedAt c) (LastUpdatedAt c')"
proof (induction n arbitrary: s c)
  case 0
  then show ?case by (auto simp: moves_def)
next
  case (Suc n)
  from Suc.prems(2) obtain r s1 where p: "Poll w s = Some (r, s1)" and rest: "polls w n s1 = Some s'"
    by auto
  from Poll_moves [OF assms Suc.prems(1) p] obtain c1 where
    c1: "holds w (disk s1) c1" "moves w (LastUpdatedAt c) (LastUpdatedAt c1)" .
  from Suc.IH [OF c1(1) rest] moves_trans [OF c1(2)] show ?case by blast
qed

lemma holds_loads:
  assumes "holds w fs c"
  shows "\<exists>c1. load w fs = Inr c1 \<and> LastUpdatedAt c1 = LastUpdatedAt c"
proof (cases "load w fs")
  case (Inl err)
  then show ?thesis by (simp add: load_def LoadCursor_Inl_iff no_faults_def)
next
  case (Inr c1)
  with holds_load [OF assms] show ?thesis by blast
qed

subsection \<open>Properties\<close>

lemma fresh_holds: "disk s0 (cursorPath w) = None \<Longrightarrow> holds w (disk s0) (newCursor (startTime w))"
  by (simp add: holds_def)


lemma polls_holds:
  assumes "disk_intact w" and "well_encoded w" and "ctx_permanent w"
  shows "holds w (disk s0) c0 \<Longrightarrow> polls w n s0 = Some s \<Longrightarrow> \<exists>c. holds w (disk s) c"
proof (induction n arbitrary: s0 c0)
  case 0
  then show ?case by auto
next
  case (Suc n)
  from Suc.prems(2) obtain r s1 where p: "Poll w s0 = Some (r, s1)" and rest: "polls w n s1 = Some s"
    by auto
  from assms Suc.prems(1) p show ?case
  proof (cases rule: Poll_extends)
    case idle
    with Suc.IH [OF _ rest] Suc.prems(1) show ?thesis by simp
  next
    case (batch ls c' a)
    from Suc.IH [OF batch(3) rest] show ?thesis .
  qed
qed

text \<open>Every poll from a cursor that holds is a stretch of the abstract machine without a mark.\<close>

lemma Poll_stretch:
  assumes "disk_intact w" and "well_encoded w" and "ctx_permanent w"
    and "holds w (disk s) c" and "Poll w s = Some (r, s')"
  obtains ls c' a where "sent s' = sent s @ commands_of ls" "holds w (disk s') c'"
    "\<forall>(pr, l, cmds) \<in> set ls. \<exists>wd. observed w pr wd l cmds"
    "ls = [] \<and> c' = c \<or> hrun (start_of c) (map Some ls) a \<and> start_of c' = rollover a"
  using assms
proof (cases rule: Poll_extends)
  case idle
  then show ?thesis using that [of "[]" c] assms(4) by (simp add: commands_of_def)
next
  case (batch ls c' a)
  then show ?thesis using that [of ls c' a] by (simp add: hrun_batch)
qed

lemma two_polls_distinct:
  assumes "disk_intact w" and "well_encoded w" and "ctx_permanent w"
    and "holds w (disk s) c" and "Poll w s = Some (r1, s1)" and "Poll w s1 = Some (r2, s2)"
  shows "\<exists>cmds1 cmds2. sent s1 = sent s @ cmds1 \<and> sent s2 = sent s1 @ cmds2
    \<and> distinct (map cmd_TaskIdentifier (cmds1 @ cmds2))"
proof -
  from Poll_stretch [OF assms(1-5)] obtain ls1 c1 a1 where
    1: "sent s1 = sent s @ commands_of ls1" "holds w (disk s1) c1"
      "\<forall>(pr, l, cmds) \<in> set ls1. \<exists>wd. observed w pr wd l cmds"
      "ls1 = [] \<and> c1 = c \<or> hrun (start_of c) (map Some ls1) a1 \<and> start_of c1 = rollover a1"
    by blast
  from Poll_stretch [OF assms(1-3) 1(2) assms(6)] obtain ls2 c2 a2 where
    2: "sent s2 = sent s1 @ commands_of ls2" "holds w (disk s2) c2"
      "\<forall>(pr, l, cmds) \<in> set ls2. \<exists>wd. observed w pr wd l cmds"
      "ls2 = [] \<and> c2 = c1 \<or> hrun (start_of c1) (map Some ls2) a2 \<and> start_of c2 = rollover a2"
    by blast
  have two: "ls2 = [] \<or> hrun (start_of c1) (map Some ls2) a2" using 2(4) by blast
  have none: "None \<notin> set (map Some ls)" for ls :: "entry list" by auto
  have "distinct (ids_of (map Some ls1 @ map Some ls2))"
  proof (cases "ls1 = [] \<or> ls2 = []")
    case True
    have one: "distinct (ids_of (map Some ls))" if "ls = [] \<or> hrun a (map Some ls) a'" for ls a a'
    proof -
      have "distinct (ids_of (map Some ls))" if "hrun a (map Some ls) a'"
        using hrun_within [OF that none] by blast
      with that show ?thesis by (auto simp: ids_of_def)
    qed
    have "ls1 = [] \<or> hrun (start_of c) (map Some ls1) a1" using 1(4) by blast
    from one [OF this] one [OF two] True show ?thesis by (elim disjE) simp_all
  next
    case False
    with 1(4) two have "hrun (start_of c) ([] @ map Some ls1 @ None # map Some ls2 @ []) a2"
      by (auto simp: hrun_append)
    from hrun_next_poll [OF this none none] show ?thesis .
  qed
  moreover have "map cmd_TaskIdentifier (commands_of (ls1 @ ls2)) = ids_of (map Some ls1 @ map Some ls2)"
  proof -
    have "\<forall>(pr, l, cmds) \<in> set (ls1 @ ls2). \<exists>wd. observed w pr wd l cmds"
      using 1(3) 2(3) by (simp add: ball_Un)
    from commands_ids [OF this] show ?thesis by (simp add: ids_of_def)
  qed
  ultimately show ?thesis
    using 1(1) 2(1) by (intro exI [of _ "commands_of ls1"] exI [of _ "commands_of ls2"])
      (simp add: commands_of_def)
qed

text \<open>
  C9: The next poll does not create a task again: after any number of polls of a fresh
  deployment, the identifiers of the commands the next poll sends and of those the poll
  after it sends are all distinct. (The disk works, the strings are UTF-8, and a context
  that is done stays done.)
\<close>

theorem next_poll_sends_new:
  assumes "disk_intact w" and "well_encoded w" and "ctx_permanent w"
    and "disk s0 (cursorPath w) = None" and "polls w n s0 = Some s"
    and "Poll w s = Some (r1, s1)" and "Poll w s1 = Some (r2, s2)"
  shows "\<exists>cmds1 cmds2. sent s1 = sent s @ cmds1 \<and> sent s2 = sent s1 @ cmds2
    \<and> distinct (map cmd_TaskIdentifier (cmds1 @ cmds2))"
proof -
  from polls_holds [OF assms(1-3) fresh_holds [OF assms(4)] assms(5)] obtain c
    where "holds w (disk s) c" by blast
  from two_polls_distinct [OF assms(1-3) this assms(6,7)] show ?thesis .
qed

text \<open>
  C39: The watermark only moves forward, and only to a candidate: over any polls of a
  deployment that has already polled, the cursor file loads, and its watermark is the one
  it had or the later update time of a pull request that was seen to be a candidate and that
  was in the answer of a search since no earlier than the old watermark. (The disk works, the
  strings are UTF-8, and a context that is done stays done.)
\<close>

theorem watermark_moves_forward:
  assumes "disk_intact w" and "well_encoded w" and "ctx_permanent w"
    and "disk s0 (cursorPath w) = None" and "polls w n s0 = Some s" and "polls w m s = Some s'"
    and "LoadCursor (codec w) no_faults (disk s) (cursorPath w) (startTime w) = Inr c"
  shows "\<exists>c'. LoadCursor (codec w) no_faults (disk s') (cursorPath w) (startTime w) = Inr c'
    \<and> LastUpdatedAt c \<le> LastUpdatedAt c'
    \<and> (LastUpdatedAt c' = LastUpdatedAt c
       \<or> (\<exists>pr. seen_candidate w (LastUpdatedAt c) pr \<and> LastUpdatedAt c' = UpdatedAt pr))"
proof -
  from polls_holds [OF assms(1-3) fresh_holds [OF assms(4)] assms(5)] obtain k
    where k: "holds w (disk s) k" by blast
  from holds_load [OF k assms(7) [folded load_def]] have t: "LastUpdatedAt c = LastUpdatedAt k" by simp
  from polls_move [OF assms(1-3) k assms(6)] obtain k' where
    k': "holds w (disk s') k'" "moves w (LastUpdatedAt k) (LastUpdatedAt k')" by blast
  from holds_loads [OF k'(1)] obtain c' where
    "load w (disk s') = Inr c'" "LastUpdatedAt c' = LastUpdatedAt k'" by blast
  with k'(2) t show ?thesis by (intro exI [of _ c']) (auto simp: load_def moves_def)
qed

definition run_watcher :: "unit watcher" where
  "run_watcher = example_watcher [failing_pr, example_pr]
     \<lparr>uuid5 := (\<lambda>ns k. if valid_utf8 k then k else ''''), codec := decimal_codec\<rparr>"

lemma run_fields [simp]:
  "ghClient run_watcher = example_client [failing_pr, example_pr]"
  "SendCommand run_watcher cmd w = Some (None, w)" "w_cfg run_watcher = example_cfg"
  "ctx_Done run_watcher w = (False, w)" "Disk run_watcher w = (no_faults, w)"
  "uuid5 run_watcher = (\<lambda>ns k. if valid_utf8 k then k else '''')" "codec run_watcher = decimal_codec"
  by (simp_all add: run_watcher_def example_watcher_def)

lemma run_hypotheses: "disk_intact run_watcher" "well_encoded run_watcher" "ctx_permanent run_watcher"
proof -
  show "disk_intact run_watcher" by (simp add: disk_intact_def disk_outcomes_def)
  show "ctx_permanent run_watcher" by (simp add: ctx_permanent_def)
  have v: "valid_utf8 ''bborbe''" "valid_utf8 ''widget''" "valid_utf8 ''abc1234567''"
    by (rule ascii_valid_utf8, simp)+
  then show "well_encoded run_watcher"
    by (auto simp: well_encoded_def decimal_codec_ok example_client_def failing_pr_def example_pr_def
        example_details_def)
qed

lemma run_poll: "\<exists>r s'. Poll run_watcher s = Some (r, s')"
proof (rule Poll_defined)
  show "calls_return run_watcher"
    by (simp add: calls_return_def reads_return_def example_client_def example_reader_def)
  show "0 \<le> cfg_MaxSlugLen (w_cfg run_watcher)" by (simp add: example_cfg_def)
  show "(\<exists>chunks wd'. served (search_fetch run_watcher since) 1 wd chunks wd')
      \<or> (\<exists>e wd'. broken (search_fetch run_watcher since) 1 wd e wd')" for since wd
    by (rule disjI1, intro exI, rule last_page) (simp add: search_fetch_def example_client_def)
qed

lemma run_polls: "\<exists>s'. polls run_watcher n s = Some s'"
  by (rule polls_defined) (rule run_poll)


theorem next_poll_sends_new_witness:
  "\<exists>s s1 s2 r1 r2 cmds1 cmds2. polls run_watcher 5 example_state = Some s
    \<and> Poll run_watcher s = Some (r1, s1) \<and> Poll run_watcher s1 = Some (r2, s2)
    \<and> sent s2 = sent s @ cmds1 @ cmds2 \<and> distinct (map cmd_TaskIdentifier (cmds1 @ cmds2))"
proof -
  from run_polls [of 5 example_state] obtain s where s: "polls run_watcher 5 example_state = Some s" ..
  from run_poll [of s] obtain r1 s1 where p1: "Poll run_watcher s = Some (r1, s1)" by blast
  from run_poll [of s1] obtain r2 s2 where p2: "Poll run_watcher s1 = Some (r2, s2)" by blast
  have "disk example_state (cursorPath run_watcher) = None" by (simp add: example_state_def)
  from next_poll_sends_new [OF run_hypotheses this s p1 p2] obtain c1 c2 where
    c: "sent s1 = sent s @ c1" "sent s2 = sent s1 @ c2" "distinct (map cmd_TaskIdentifier (c1 @ c2))"
    by blast
  then have "sent s2 = sent s @ c1 @ c2" by simp
  with s p1 p2 c(3) show ?thesis by blast
qed

theorem watermark_moves_forward_witness:
  "\<exists>s' c'. polls run_watcher 5 example_state = Some s'
    \<and> LoadCursor decimal_codec no_faults (disk s') ''c'' 50 = Inr c' \<and> 50 \<le> LastUpdatedAt c'"
proof -
  from run_polls [of 5 example_state] obtain s' where s': "polls run_watcher 5 example_state = Some s'" ..
  have d: "disk example_state (cursorPath run_watcher) = None"
    and n: "polls run_watcher 0 example_state = Some example_state" by (simp_all add: example_state_def)
  have l: "LoadCursor (codec run_watcher) no_faults (disk example_state) (cursorPath run_watcher)
      (startTime run_watcher) = Inr (newCursor 50)"
    by (simp add: LoadCursor_def no_faults_def example_state_def run_watcher_def example_watcher_def)
  have f: "cursorPath run_watcher = ''c''" "startTime run_watcher = 50" "LastUpdatedAt (newCursor 50) = 50"
    by (simp_all add: run_watcher_def example_watcher_def newCursor_def)
  from watermark_moves_forward [OF run_hypotheses d n s' l] s' show ?thesis unfolding f by auto
qed

end
