(* ===== verification/App.thy ===== *)
theory App
  imports Watcher_Run
begin

text \<open>
  \<open>main.go\<close>: validation of the configuration, the wiring of the watcher from it, the
  choice of the GitHub credentials and the poll loop. Parsing a duration, in its two
  flavours, the App client, the Kafka producer, the clock and the environment are
  parameters of a \<open>platform\<close>.
\<close>

record application =
  a_AppID :: int
  a_InstallationID :: int
  a_PEMKey :: string
  a_Stage :: string
  a_PollInterval :: string
  a_RepoScope :: string
  a_BackfillDuration :: string
  a_RepoAllowlist :: string
  a_MaxSlugLen :: int
  a_MaxTitleLen :: int
  a_TaskSuffix :: string
  a_TargetVault :: string
  a_RepoVaultMap :: string
  a_TopicPrefix :: string

text \<open>The configuration \<open>githubapp.Config\<close> of the maintainer module.\<close>

record app_config =
  AppID :: int
  InstallationID :: int
  PEM :: string

record 'c platform =
  time_ParseDuration :: "string \<Rightarrow> go_error + int"
  libtime_ParseDuration :: "string \<Rightarrow> go_error + int option"
  Getenv :: "string \<Rightarrow> string"
  githubapp_NewClient :: "app_config \<Rightarrow> go_error + 'c"
  NewSyncProducer :: "go_error option"
  clock_now :: datetime
  allow :: allow_fun
  validate_globs :: validate_fun

subsection \<open>Validation\<close>

definition validateLengthCaps :: "int \<Rightarrow> int \<Rightarrow> go_error option" where
  "validateLengthCaps maxSlugLen maxTitleLen =
     (if maxSlugLen \<le> 0 then Some (NewError ''MAX_SLUG_LEN must be > 0; got %d'')
      else if maxTitleLen \<le> 0 then Some (NewError ''MAX_TITLE_LEN must be > 0; got %d'')
      else if maxSlugLen \<ge> maxTitleLen then Some (NewError ''MAX_SLUG_LEN (%d) must be < MAX_TITLE_LEN (%d)'')
      else None)"

text \<open>The regular expression \<open>^[a-zA-Z0-9_.-]+$\<close>.\<close>

definition scope_char :: "char \<Rightarrow> bool" where
  "scope_char c \<longleftrightarrow> lower_char c \<or> 65 \<le> (of_char c :: nat) \<and> (of_char c :: nat) \<le> 90 \<or> is_digit c
     \<or> c \<in> {CHR ''_'', CHR ''.'', CHR ''-''}"

definition repoScopePattern_MatchString :: "string \<Rightarrow> bool" where
  "repoScopePattern_MatchString s \<longleftrightarrow> s \<noteq> [] \<and> list_all scope_char s"

definition validateRepoScope :: "string \<Rightarrow> go_error option" where
  "validateRepoScope scope =
     (if \<not> repoScopePattern_MatchString scope
      then Some (NewError ''repo scope %q must match ^[a-zA-Z0-9_.-]+$'') else None)"

definition validateConfig :: "application \<Rightarrow> go_error option" where
  "validateConfig a =
     (case validateRepoScope (a_RepoScope a) of
        Some err \<Rightarrow> Some (Wrapped ''validate repo scope'' err)
      | None \<Rightarrow>
          (case validateLengthCaps (a_MaxSlugLen a) (a_MaxTitleLen a) of
             Some err \<Rightarrow> Some (Wrapped ''validate length caps'' err)
           | None \<Rightarrow> None))"

definition parseBackfillDuration :: "'c platform \<Rightarrow> string \<Rightarrow> go_error + int" where
  "parseBackfillDuration p raw =
     (if raw = '''' then Inr 0
      else
        (case libtime_ParseDuration p raw of
           Inl err \<Rightarrow> Inl (Wrapped ''parse BACKFILL_DURATION'' err)
         | Inr None \<Rightarrow> Inr 0
         | Inr (Some d) \<Rightarrow>
             if d < 0 then Inl (NewError ''BACKFILL_DURATION must not be negative, got %s'') else Inr d))"

text \<open>\<open>strconv.ParseInt(s, 10, 64)\<close>; \<open>None\<close> is a syntax or range error.\<close>

definition ParseInt64 :: "string \<Rightarrow> int option" where
  "ParseInt64 s =
     (let neg = has_prefix s ''-'';
          ds = (if has_prefix s ''-'' \<or> has_prefix s ''+'' then drop 1 s else s);
          n = (if neg then - int (digits_value ds) else int (digits_value ds))
      in if ds = [] \<or> \<not> list_all is_digit ds then None
         else if n < - (2 ^ 63) \<or> n \<ge> 2 ^ 63 then None
         else Some n)"

definition getEnvInt :: "'c platform \<Rightarrow> string \<Rightarrow> int" where
  "getEnvInt p name = (case ParseInt64 (Getenv p name) of None \<Rightarrow> 0 | Some v \<Rightarrow> v)"

text \<open>\<open>CreateGitHubAppClient\<close> of \<open>pkg/factory/factory.go\<close>.\<close>

definition CreateGitHubAppClient :: "'c platform \<Rightarrow> int \<Rightarrow> int \<Rightarrow> string \<Rightarrow> go_error + 'c" where
  "CreateGitHubAppClient p appID installationID pemKey =
     githubapp_NewClient p \<lparr>AppID = appID, InstallationID = installationID, PEM = pemKey\<rparr>"

definition resolveAuth :: "'c platform \<Rightarrow> go_error + 'c" where
  "resolveAuth p =
     (let appID = getEnvInt p ''APP_ID'';
          installationID = getEnvInt p ''INSTALLATION_ID'';
          pemKey = Getenv p ''PEM_KEY'';
          appPartial = (appID \<noteq> 0 \<or> installationID \<noteq> 0 \<or> pemKey \<noteq> '''');
          appComplete = (appID \<noteq> 0 \<and> installationID \<noteq> 0 \<and> pemKey \<noteq> '''')
      in if appPartial \<and> \<not> appComplete then
           Inl (NewError ''watcher auth: partial GitHub App config - missing %v; set all three or none'')
         else if \<not> appComplete then
           Inl (NewError ''watcher auth: GitHub App credentials not configured - set APP_ID, INSTALLATION_ID, and PEM_KEY'')
         else CreateGitHubAppClient p appID installationID pemKey)"

subsection \<open>Wiring\<close>

text \<open>What \<open>Run\<close> makes of a configuration before it starts its three functions.\<close>

record 'c wiring =
  wr_interval :: int
  wr_startTime :: datetime
  wr_scope :: string
  wr_scopeFilter :: TaskCreationFilter
  wr_taskCfg :: TaskConfig
  wr_cursorPath :: string
  wr_client :: 'c
  wr_metrics :: prometheusMetrics
  wr_topicPrefix :: string

definition DefaultCursorPath :: string where
  "DefaultCursorPath = ''/data/cursor.json''"

definition wire :: "'c platform \<Rightarrow> application \<Rightarrow> registries \<Rightarrow> ((go_error + 'c wiring) \<times> registries) option" where
  "wire p a regs =
     (case validateConfig a of
        Some err \<Rightarrow> Some (Inl (Wrapped ''validate config'' err), regs)
      | None \<Rightarrow>
     (case time_ParseDuration p (a_PollInterval a) of
        Inl err \<Rightarrow> Some (Inl (Wrapped ''parse poll interval %q'' err), regs)
      | Inr pollInterval \<Rightarrow>
     (case parseBackfillDuration p (a_BackfillDuration a) of
        Inl err \<Rightarrow> Some (Inl (Wrapped ''parse backfill duration'' err), regs)
      | Inr backfillDuration \<Rightarrow>
          (let startTime = (if backfillDuration > 0 then clock_now p - backfillDuration else clock_now p);
               repoAllowlist = ParseRepoAllowlist (a_RepoAllowlist a);
               scopeFilter = filters_Skip [NewRepoAllowlistFilter (allow p) repoAllowlist]
           in
     (case Parse (validate_globs p) (a_RepoVaultMap a) of
        Inl err \<Rightarrow> Some (Inl (Wrapped ''parse repo vault map'' err), regs)
      | Inr vaultResolver \<Rightarrow>
     (case NewSyncProducer p of
        Some err \<Rightarrow> Some (Inl (Wrapped ''create sync producer'' err), regs)
      | None \<Rightarrow>
     (case resolveAuth p of
        Inl err \<Rightarrow> Some (Inl (Wrapped ''resolve auth'' err), regs)
      | Inr client \<Rightarrow>
     (case NewMetrics None regs of
        None \<Rightarrow> None
      | Some (m, regs) \<Rightarrow>
          Some (Inr
            \<lparr>wr_interval = pollInterval, wr_startTime = startTime, wr_scope = a_RepoScope a,
             wr_scopeFilter = scopeFilter,
             wr_taskCfg =
               \<lparr>cfg_Stage = a_Stage a, cfg_MaxSlugLen = a_MaxSlugLen a, cfg_MaxTitleLen = a_MaxTitleLen a,
                cfg_TaskSuffix = a_TaskSuffix a, cfg_TargetVault = a_TargetVault a,
                cfg_VaultResolver = map_option (VaultFor (allow p)) vaultResolver\<rparr>,
             wr_cursorPath = DefaultCursorPath, wr_client = client, wr_metrics = m,
             wr_topicPrefix = a_TopicPrefix a\<rparr>, regs)))))))))"

subsection \<open>The poll loop\<close>

text \<open>
  What the \<open>select\<close> of the loop picks, one after the other: a tick or the end of the
  context. A ticker with an interval that is not positive panics. The loop is still running
  when the listed events are used up without a \<open>Done\<close>; a poll that does not return leaves no
  result.
\<close>

datatype loop_event = Tick | Done

datatype loop_status = Running | Exited

fun poll_ticks ::
  "('s, go_error option) call \<Rightarrow> loop_event list \<Rightarrow> 's \<Rightarrow> (loop_status \<times> 's) option"
where
  "poll_ticks poll [] s = Some (Running, s)"
| "poll_ticks poll (Done # es) s = Some (Exited, s)"
| "poll_ticks poll (Tick # es) s =
     do {
       (err, s) \<leftarrow> poll s;
       poll_ticks poll es s
     }"

definition pollOnce :: "'w watcher \<Rightarrow> ('w wstate, go_error option) call" where
  "pollOnce w = Poll w"

definition runPollLoop ::
  "('s, go_error option) call \<Rightarrow> int \<Rightarrow> loop_event list \<Rightarrow> 's \<Rightarrow> (loop_status \<times> 's) option"
where
  "runPollLoop poll interval es s = (if interval \<le> 0 then None else poll_ticks poll es s)"

subsection \<open>Facts\<close>

lemma validateLengthCaps_None_iff:
  "validateLengthCaps maxSlugLen maxTitleLen = None \<longleftrightarrow> 0 < maxSlugLen \<and> maxSlugLen < maxTitleLen"
  by (auto simp: validateLengthCaps_def)

lemma validateConfig_None_iff:
  "validateConfig a = None \<longleftrightarrow> repoScopePattern_MatchString (a_RepoScope a)
    \<and> 0 < a_MaxSlugLen a \<and> a_MaxSlugLen a < a_MaxTitleLen a"
  using validateLengthCaps_None_iff [of "a_MaxSlugLen a" "a_MaxTitleLen a"]
  by (cases "validateLengthCaps (a_MaxSlugLen a) (a_MaxTitleLen a)")
     (auto simp: validateConfig_def validateRepoScope_def)

lemma parseBackfillDuration_nonneg: "parseBackfillDuration p raw = Inr d \<Longrightarrow> 0 \<le> d"
  by (auto simp: parseBackfillDuration_def split: if_splits sum.splits option.splits)

lemma resolveAuth_Inr:
  "resolveAuth p = Inr client \<Longrightarrow> getEnvInt p ''APP_ID'' \<noteq> 0 \<and> getEnvInt p ''INSTALLATION_ID'' \<noteq> 0
    \<and> Getenv p ''PEM_KEY'' \<noteq> ''''
    \<and> CreateGitHubAppClient p (getEnvInt p ''APP_ID'') (getEnvInt p ''INSTALLATION_ID'') (Getenv p ''PEM_KEY'') = Inr client"
  by (auto simp: resolveAuth_def Let_def split: if_splits)

lemma wire_InrD:
  assumes "wire p a regs = Some (Inr x, regs')"
  shows "validateConfig a = None" and "time_ParseDuration p (a_PollInterval a) = Inr (wr_interval x)"
    and "\<exists>d. parseBackfillDuration p (a_BackfillDuration a) = Inr d \<and> wr_startTime x = clock_now p - d"
    and "wr_scope x = a_RepoScope a"
    and "wr_scopeFilter x = filters_Skip [NewRepoAllowlistFilter (allow p) (ParseRepoAllowlist (a_RepoAllowlist a))]"
    and "\<exists>res. Parse (validate_globs p) (a_RepoVaultMap a) = Inr res
      \<and> cfg_VaultResolver (wr_taskCfg x) = map_option (VaultFor (allow p)) res"
    and "cfg_MaxSlugLen (wr_taskCfg x) = a_MaxSlugLen a" and "cfg_MaxTitleLen (wr_taskCfg x) = a_MaxTitleLen a"
    and "cfg_TargetVault (wr_taskCfg x) = a_TargetVault a"
    and "resolveAuth p = Inr (wr_client x)"
    and "wr_cursorPath x = ''/data/cursor.json''"
    and "cfg_Stage (wr_taskCfg x) = a_Stage a" and "cfg_TaskSuffix (wr_taskCfg x) = a_TaskSuffix a"
  using assms parseBackfillDuration_nonneg [of p "a_BackfillDuration a"]
  by (auto simp: wire_def Let_def DefaultCursorPath_def split: option.splits sum.splits prod.splits if_splits)

lemma wire_metrics:
  assumes "wire p a regs = Some (Inr x, regs')"
  shows "dom (pollCyclesTotal (wr_metrics x)) = set poll_results"
    and "dom (publishedTotal (wr_metrics x)) = set published_statuses"
    and "dom (filterSkippedTotal (wr_metrics x)) = set skip_reasons"
proof -
  from assms have "\<exists>regs''. NewMetrics None regs = Some (wr_metrics x, regs'')"
    by (auto simp: wire_def Let_def split: option.splits sum.splits prod.splits if_splits)
  with NewMetrics_labels show "dom (pollCyclesTotal (wr_metrics x)) = set poll_results"
    "dom (publishedTotal (wr_metrics x)) = set published_statuses"
    "dom (filterSkippedTotal (wr_metrics x)) = set skip_reasons"
    by blast+
qed

text \<open>
  The credentials parsed from the command line are not used: \<open>resolveAuth\<close> reads the
  environment again.
\<close>

lemma wire_ignores_credentials:
  "wire p (a\<lparr>a_AppID := i, a_InstallationID := j, a_PEMKey := k\<rparr>) regs = wire p a regs"
proof -
  let ?b = "a\<lparr>a_AppID := i, a_InstallationID := j, a_PEMKey := k\<rparr>"
  have s: "a_Stage ?b = a_Stage a" "a_PollInterval ?b = a_PollInterval a" "a_RepoScope ?b = a_RepoScope a"
    "a_BackfillDuration ?b = a_BackfillDuration a" "a_RepoAllowlist ?b = a_RepoAllowlist a" "a_MaxSlugLen ?b = a_MaxSlugLen a"
    "a_MaxTitleLen ?b = a_MaxTitleLen a" "a_TaskSuffix ?b = a_TaskSuffix a" "a_TargetVault ?b = a_TargetVault a"
    "a_RepoVaultMap ?b = a_RepoVaultMap a" "a_TopicPrefix ?b = a_TopicPrefix a"
    by simp_all
  show ?thesis unfolding wire_def validateConfig_def s by (rule refl)
qed

lemma poll_ticks_polls:
  "poll_ticks (Poll w) (replicate n Tick @ es) s = Option.bind (polls w n s) (poll_ticks (Poll w) es)"
proof (induction n arbitrary: s)
  case 0
  show ?case by simp
next
  case (Suc n)
  then show ?case by (cases "Poll w s") auto
qed

subsection \<open>Properties\<close>

definition example_platform :: "'c \<Rightarrow> 'c platform" where
  "example_platform c =
     \<lparr>time_ParseDuration = (\<lambda>s. if s = ''0s'' then Inr 0 else Inr 300000000000),
      libtime_ParseDuration = (\<lambda>s. Inr (Some 1000)),
      Getenv = (\<lambda>name. if name = ''PEM_KEY'' then ''key'' else ''1''),
      githubapp_NewClient = (\<lambda>cfg. Inr c), NewSyncProducer = None, clock_now = 5000,
      allow = (\<lambda>gs k. True), validate_globs = (\<lambda>gs. None)\<rparr>"

definition example_application :: application where
  "example_application =
     \<lparr>a_AppID = 0, a_InstallationID = 0, a_PEMKey = '''', a_Stage = ''dev'', a_PollInterval = ''5m'',
      a_RepoScope = ''bborbe'', a_BackfillDuration = ''720h'', a_RepoAllowlist = '''', a_MaxSlugLen = 80,
      a_MaxTitleLen = 200, a_TaskSuffix = '''', a_TargetVault = '''', a_RepoVaultMap = ''a/x=v1,a=v2'', a_TopicPrefix = ''develop''\<rparr>"

lemma example_wiring:
  "\<exists>x regs'. wire (example_platform c) (example_application\<lparr>a_PollInterval := i\<rparr>) (\<lambda>_. []) = Some (Inr x, regs')
    \<and> wr_interval x = (if i = ''0s'' then 0 else 300000000000) \<and> wr_startTime x = 4000 \<and> wr_client x = c"
proof -
  have v: "validateConfig (example_application\<lparr>a_PollInterval := i\<rparr>) = None"
    by (simp add: validateConfig_None_iff example_application_def repoScopePattern_MatchString_def
        scope_char_def lower_char_def)
  have g: "getEnvInt (example_platform c) ''APP_ID'' = 1" "getEnvInt (example_platform c) ''INSTALLATION_ID'' = 1"
    by (simp_all add: getEnvInt_def ParseInt64_def example_platform_def is_digit_def)
  then have au: "resolveAuth (example_platform c) = Inr c"
    by (simp add: resolveAuth_def CreateGitHubAppClient_def Let_def) (simp add: example_platform_def)
  obtain m regs' where m: "NewMetrics None (\<lambda>_. []) = Some (m, regs')"
    using MustRegister_Some [of collector_names "[]" "rev collector_names"] distinct_collectors
    by (auto simp: NewMetrics_def Let_def)
  have pr: "Parse (validate_globs (example_platform c)) ''a/x=v1,a=v2''
      = Inr (Some [\<lparr>glob = ''a/x'', vault = ''v1''\<rparr>, \<lparr>glob = ''a'', vault = ''v2''\<rparr>])"
    using Parse_example by (simp add: example_platform_def)
  have b: "parseBackfillDuration (example_platform c) ''720h'' = Inr 1000"
    by (simp add: parseBackfillDuration_def example_platform_def)
  have f: "time_ParseDuration (example_platform c) i = Inr (if i = ''0s'' then 0 else 300000000000)"
    "NewSyncProducer (example_platform c) = None" "clock_now (example_platform c) = 5000"
    by (simp_all add: example_platform_def)
  have a: "a_RepoVaultMap example_application = ''a/x=v1,a=v2''" "a_BackfillDuration example_application = ''720h''"
    by (simp_all add: example_application_def)
  show ?thesis
    by (simp add: wire_def v f b a pr au m Let_def)
qed

text \<open>
  C30: What the start-up checks establish. The slug limit is positive and below the title
  limit, so that no title is cut at a negative bound; the scope is one plain word; the cold
  start lies at or before now, by exactly the backfill; the filter admits what the allowlist
  allows; every repository has a vault a controller can claim when a map is set; and the
  client is the one made from the application, installation and key of the environment, none
  of them missing. The poll interval is only parsed: nothing says that it is positive.
\<close>

theorem wire_checks:
  assumes "wire p a regs = Some (Inr x, regs')"
  shows "0 < cfg_MaxSlugLen (wr_taskCfg x) \<and> cfg_MaxSlugLen (wr_taskCfg x) < cfg_MaxTitleLen (wr_taskCfg x)
    \<and> wr_scope x \<noteq> '''' \<and> list_all scope_char (wr_scope x)
    \<and> wr_startTime x \<le> clock_now p
    \<and> parseBackfillDuration p (a_BackfillDuration a) = Inr (clock_now p - wr_startTime x)
    \<and> (\<forall>pr. wr_scopeFilter x pr = (\<not> allow p (ParseRepoAllowlist (a_RepoAllowlist a)) (RepoKey pr)))
    \<and> (\<forall>vaultFor. cfg_VaultResolver (wr_taskCfg x) = Some vaultFor \<longrightarrow> (\<forall>key. vault_slug_match (vaultFor key)))
    \<and> githubapp_NewClient p \<lparr>AppID = getEnvInt p ''APP_ID'', InstallationID = getEnvInt p ''INSTALLATION_ID'',
        PEM = Getenv p ''PEM_KEY''\<rparr> = Inr (wr_client x)
    \<and> getEnvInt p ''APP_ID'' \<noteq> 0 \<and> getEnvInt p ''INSTALLATION_ID'' \<noteq> 0 \<and> Getenv p ''PEM_KEY'' \<noteq> ''''
    \<and> time_ParseDuration p (a_PollInterval a) = Inr (wr_interval x)"
proof -
  note d = wire_InrD [OF assms]
  from d(3) obtain b where b: "parseBackfillDuration p (a_BackfillDuration a) = Inr b"
    and s: "wr_startTime x = clock_now p - b" by blast
  have filt: "wr_scopeFilter x pr = (\<not> allow p (ParseRepoAllowlist (a_RepoAllowlist a)) (RepoKey pr))" for pr
    unfolding d(5) by (simp add: NewRepoAllowlistFilter_def repoAllowlistFilter_Skip_def)
  have slug: "vault_slug_match (vaultFor key)"
    if r: "cfg_VaultResolver (wr_taskCfg x) = Some vaultFor" for vaultFor key
  proof -
    from d(6) obtain res where res: "Parse (validate_globs p) (a_RepoVaultMap a) = Inr res"
      "cfg_VaultResolver (wr_taskCfg x) = map_option (VaultFor (allow p)) res" by blast
    with r obtain es where "Parse (validate_globs p) (a_RepoVaultMap a) = Inr (Some es)"
      and "vaultFor = VaultFor (allow p) es" by (cases res) auto
    then show ?thesis using Parse_entries_ok VaultFor_slug by blast
  qed
  from d(1) have "repoScopePattern_MatchString (wr_scope x)" "0 < a_MaxSlugLen a" "a_MaxSlugLen a < a_MaxTitleLen a"
    by (simp_all add: validateConfig_None_iff d(4))
  with b s filt slug resolveAuth_Inr [OF d(10)] parseBackfillDuration_nonneg [OF b] show ?thesis
    by (simp add: d(2,7,8) CreateGitHubAppClient_def repoScopePattern_MatchString_def)
qed

theorem wire_checks_witness:
  "\<exists>x regs'. wire (example_platform ()) example_application (\<lambda>_. []) = Some (Inr x, regs')
    \<and> 0 < cfg_MaxSlugLen (wr_taskCfg x) \<and> wr_startTime x \<le> 5000"
proof -
  have e: "example_application\<lparr>a_PollInterval := ''5m''\<rparr> = example_application"
    by (simp add: example_application_def)
  from example_wiring [where c = "()" and i = "''5m''"] obtain x regs' where
    w: "wire (example_platform ()) example_application (\<lambda>_. []) = Some (Inr x, regs')"
    unfolding e by blast
  from wire_checks [OF w] w show ?thesis by (auto simp: example_platform_def)
qed

text \<open>
  The interval of the poll loop is not validated: a configuration with an interval of
  zero passes every check and is wired, and then the loop panics before its first tick.
\<close>

lemma poll_interval_unchecked:
  "\<exists>x regs'. wire (example_platform ()) (example_application\<lparr>a_PollInterval := ''0s''\<rparr>) (\<lambda>_. []) = Some (Inr x, regs')
    \<and> (\<nexists>r. runPollLoop (Poll run_watcher) (wr_interval x) [Tick, Done] example_state = Some r)"
  using example_wiring [where c = "()" and i = "''0s''"] by (force simp: runPollLoop_def)

text \<open>
  The poll loop polls once per tick, survives every error a poll returns, and stops at
  the end of its context: with a positive interval, the state after a number of ticks is
  that of as many polls, and nothing happens after the context is done.
\<close>

lemma poll_loop_polls:
  assumes "0 < interval"
  shows "runPollLoop (Poll w) interval (replicate n Tick @ Done # es) s = map_option (\<lambda>s'. (Exited, s')) (polls w n s)
    \<and> runPollLoop (Poll w) interval (replicate n Tick) s = map_option (\<lambda>s'. (Running, s')) (polls w n s)"
  using assms poll_ticks_polls [of w n "Done # es" s] poll_ticks_polls [of w n "[]" s]
  by (cases "polls w n s") (simp_all add: runPollLoop_def)

lemma poll_loop_polls_witness:
  "\<exists>s'. runPollLoop (Poll run_watcher) 300000000000 [Tick, Tick, Done, Tick] example_state = Some (Exited, s')"
  using poll_loop_polls [of 300000000000 run_watcher 2 "[Tick]" example_state] run_polls [of 2 example_state]
  by (auto simp: numeral_2_eq_2)

end
