(* ===== verification/Trigger.thy ===== *)
theory Trigger
  imports Watcher_Claims
begin

text \<open>
  \<open>pkg/command\<close>: the trigger command and its executor. The command object's decoder, the
  URL parser of the maintainer module, the validation library's wrapper around a check and
  the clock are parameters; counters and sender are those the watcher uses, so the state is
  the watcher's.
\<close>

record TriggerCommand =
  tc_URL :: string
  tc_Force :: bool

record PRInfo =
  pi_Platform :: string
  pi_Owner :: string
  pi_Repo :: string
  pi_Number :: int

text \<open>
  \<open>named_check\<close> is \<open>validation.All\<close> around the one check named URL, applied to what
  the check returned.
\<close>

record ('w, 'd) trigger =
  t_ghClient :: "'w GitHubClient"
  t_SendCommand :: "CreateCommand \<Rightarrow> ('w, go_error option) call"
  t_cfg :: TaskConfig
  t_uuid :: uuid_fun
  t_yaml :: yaml_fun
  MarshalInto :: "'d \<Rightarrow> go_error + TriggerCommand"
  ParsePRURL :: "string \<Rightarrow> go_error + PRInfo"
  PlatformGitHub :: string
  named_check :: "go_error option \<Rightarrow> go_error option"
  Now :: "'w \<Rightarrow> datetime \<times> 'w"

definition check_url :: "('w, 'd) trigger \<Rightarrow> TriggerCommand \<Rightarrow> go_error option" where
  "check_url t cmd =
     (if tc_URL cmd = '''' then Some (Wrapped ''url must not be empty'' (Sentinel ValidationError))
      else
        (case ParsePRURL t (tc_URL cmd) of
           Inl err \<Rightarrow> Some (Wrapped ''parse url %q'' err)
         | Inr prInfo \<Rightarrow>
             if pi_Platform prInfo \<noteq> PlatformGitHub t
             then Some (NewError ''only github platform is supported, got %s'')
             else None))"

definition TriggerCommand_Validate :: "('w, 'd) trigger \<Rightarrow> TriggerCommand \<Rightarrow> go_error option" where
  "TriggerCommand_Validate t cmd = named_check t (check_url t cmd)"

definition unmarshalAndValidate :: "('w, 'd) trigger \<Rightarrow> 'd \<Rightarrow> go_error + TriggerCommand" where
  "unmarshalAndValidate t data =
     (case MarshalInto t data of
        Inl err \<Rightarrow> Inl (Wrapped ''malformed TriggerCommand: %v'' (Sentinel ErrCommandObjectSkipped))
      | Inr cmd \<Rightarrow>
          (case TriggerCommand_Validate t cmd of
             Some err \<Rightarrow> Inl (Wrapped ''validate TriggerCommand: %v'' (Sentinel ErrCommandObjectSkipped))
           | None \<Rightarrow> Inr cmd))"

text \<open>\<open>time.UnixMicro\<close>, rounding down.\<close>

definition unix_micro :: "datetime \<Rightarrow> int" where
  "unix_micro t = t div 1000"

definition trigger_pr :: "PRInfo \<Rightarrow> TriggerCommand \<Rightarrow> PRDetails \<Rightarrow> PullRequest" where
  "trigger_pr prInfo cmd details =
     \<lparr>GlobalID = 0, Number = pi_Number prInfo, Owner = pi_Owner prInfo, Repo = pi_Repo prInfo,
      Title = d_Title details, HTMLURL = tc_URL cmd, IsDraft = d_IsDraft details,
      UpdatedAt = d_UpdatedAt details\<rparr>"

definition trigger_task_id ::
  "('w, 'd) trigger \<Rightarrow> PRInfo \<Rightarrow> TriggerCommand \<Rightarrow> PRDetails \<Rightarrow> Result \<Rightarrow> 'w \<Rightarrow> string \<times> 'w"
where
  "trigger_task_id t prInfo cmd details result wd =
     (if tc_Force cmd then
        (case Now t wd of
           (now, wd) \<Rightarrow>
             (DeriveTaskIDForce (t_uuid t) (pi_Owner prInfo) (pi_Repo prInfo) (pi_Number prInfo)
                (d_HeadSHA details) (itoa (unix_micro now)), wd))
      else
        (DeriveTaskID (t_uuid t) (pi_Owner prInfo) (pi_Repo prInfo) (pi_Number prInfo)
           (d_HeadSHA details) (PromptsQueued result), wd))"

definition publishCreateCommand ::
  "('w, 'd) trigger \<Rightarrow> PRInfo \<Rightarrow> TriggerCommand \<Rightarrow> PRDetails \<Rightarrow> Result
    \<Rightarrow> ('w wstate, go_error option) call"
where
  "publishCreateCommand t prInfo cmd details result s =
     (case trigger_task_id t prInfo cmd details result (world s) of
        (taskIDStr, wd) \<Rightarrow>
          do {
            createCmd \<leftarrow> BuildCreateCommand (trigger_pr prInfo cmd details) details taskIDStr (t_cfg t)
                            (MatchedSpecs result);
            (err, wd) \<leftarrow> t_SendCommand t createCmd wd;
            let s = s\<lparr>world := wd\<rparr>;
            case err of
              Some err \<Rightarrow>
                Some (Some (Wrapped ''send create task command for %s'' err),
                      s\<lparr>metrics := IncPublished ''error'' (metrics s)\<rparr>)
            | None \<Rightarrow>
                Some (None,
                      s\<lparr>metrics := IncPublished (if PromptsQueued result then ''create_queued'' else ''create'')
                                     (metrics s),
                        sent := sent s @ [createCmd]\<rparr>)
          })"

definition trigger_input :: "PRInfo \<Rightarrow> PRDetails \<Rightarrow> Input" where
  "trigger_input prInfo details =
     \<lparr>in_Owner = pi_Owner prInfo, in_Repo = pi_Repo prInfo, in_Number = pi_Number prInfo,
      in_HeadSHA = d_HeadSHA details, in_IsDraft = d_IsDraft details, in_State = d_State details\<rparr>"

definition runTrigger :: "('w, 'd) trigger \<Rightarrow> 'd \<Rightarrow> ('w wstate, go_error option) call" where
  "runTrigger t data s =
     (case unmarshalAndValidate t data of
        Inl err \<Rightarrow> Some (Some err, s)
      | Inr cmd \<Rightarrow>
          (case ParsePRURL t (tc_URL cmd) of
             Inl err \<Rightarrow> Some (Some (Wrapped ''parse url %q: %v'' (Sentinel ErrCommandObjectSkipped)), s)
           | Inr prInfo \<Rightarrow>
               do {
                 (details, wd) \<leftarrow>
                   GetPRDetails (t_ghClient t) (pi_Owner prInfo) (pi_Repo prInfo) (pi_Number prInfo) (world s);
                 let s = s\<lparr>world := wd\<rparr>;
                 case details of
                   Inl err \<Rightarrow> Some (Some (Wrapped ''get PR details for %s'' err), s)
                 | Inr details \<Rightarrow>
                     do {
                       (result, wd) \<leftarrow>
                         Evaluate (t_yaml t) (t_ghClient t) (trigger_input prInfo details) (world s);
                       let s = s\<lparr>world := wd\<rparr>;
                       case result of
                         Inl err \<Rightarrow> Some (Some (Wrapped ''evaluate candidate for %s'' err), s)
                       | Inr result \<Rightarrow>
                           if \<not> Keep result then
                             Some (Some (Wrapped ''candidate rejected pr=%s/%s#%d reason=%s''
                                           (Sentinel ErrCommandObjectSkipped)),
                                   s\<lparr>metrics := IncFilterSkipped (Reason result) (metrics s)\<rparr>)
                           else publishCreateCommand t prInfo cmd details result s
                     }
               }))"

subsection \<open>The exit paths\<close>

text \<open>The command and the pull request of a payload that passes every check.\<close>

definition accepted :: "('w, 'd) trigger \<Rightarrow> 'd \<Rightarrow> (TriggerCommand \<times> PRInfo) option" where
  "accepted t data =
     (case unmarshalAndValidate t data of
        Inl err \<Rightarrow> None
      | Inr cmd \<Rightarrow>
          (case ParsePRURL t (tc_URL cmd) of Inl err \<Rightarrow> None | Inr prInfo \<Rightarrow> Some (cmd, prInfo)))"

text \<open>The check library reports nothing exactly when the check does.\<close>

definition checks_reported :: "('w, 'd) trigger \<Rightarrow> bool" where
  "checks_reported t \<longleftrightarrow> (\<forall>e. named_check t e = None \<longleftrightarrow> e = None)"

lemma accepted_iff:
  assumes "checks_reported t"
  shows "accepted t data = Some (cmd, prInfo) \<longleftrightarrow>
    MarshalInto t data = Inr cmd \<and> tc_URL cmd \<noteq> '''' \<and> ParsePRURL t (tc_URL cmd) = Inr prInfo
    \<and> pi_Platform prInfo = PlatformGitHub t"
proof (cases "MarshalInto t data")
  case (Inl err)
  then show ?thesis by (simp add: accepted_def unmarshalAndValidate_def)
next
  case (Inr c)
  show ?thesis
  proof (cases "check_url t c")
    case None
    then have "named_check t None = None" using assms by (auto simp: checks_reported_def)
    with None Inr show ?thesis
      by (auto simp: accepted_def unmarshalAndValidate_def TriggerCommand_Validate_def check_url_def
          split: sum.splits if_splits)
  next
    case (Some e)
    with assms obtain e' where "named_check t (Some e) = Some e'"
      by (cases "named_check t (Some e)") (auto simp: checks_reported_def)
    with Some Inr show ?thesis
      by (auto simp: accepted_def unmarshalAndValidate_def TriggerCommand_Validate_def check_url_def
          split: sum.splits if_splits)
  qed
qed

lemma runTrigger_cases:
  assumes "runTrigger t data s = Some (r, s')"
  obtains (rejected) m where "accepted t data = None"
      "r = Some (Wrapped m (Sentinel ErrCommandObjectSkipped))" "s' = s"
    | (details_failed) cmd prInfo err wd where "accepted t data = Some (cmd, prInfo)"
      "GetPRDetails (t_ghClient t) (pi_Owner prInfo) (pi_Repo prInfo) (pi_Number prInfo) (world s) = Some (Inl err, wd)"
      "r = Some (Wrapped ''get PR details for %s'' err)" "s' = s\<lparr>world := wd\<rparr>"
    | (evaluate_failed) cmd prInfo details wd1 err wd where "accepted t data = Some (cmd, prInfo)"
      "GetPRDetails (t_ghClient t) (pi_Owner prInfo) (pi_Repo prInfo) (pi_Number prInfo) (world s) = Some (Inr details, wd1)"
      "Evaluate (t_yaml t) (t_ghClient t) (trigger_input prInfo details) wd1 = Some (Inl err, wd)"
      "r = Some (Wrapped ''evaluate candidate for %s'' err)" "s' = s\<lparr>world := wd\<rparr>"
    | (not_candidate) cmd prInfo details wd1 result wd where "accepted t data = Some (cmd, prInfo)"
      "GetPRDetails (t_ghClient t) (pi_Owner prInfo) (pi_Repo prInfo) (pi_Number prInfo) (world s) = Some (Inr details, wd1)"
      "Evaluate (t_yaml t) (t_ghClient t) (trigger_input prInfo details) wd1 = Some (Inr result, wd)" "\<not> Keep result"
      "r = Some (Wrapped ''candidate rejected pr=%s/%s#%d reason=%s'' (Sentinel ErrCommandObjectSkipped))"
      "s' = s\<lparr>world := wd, metrics := IncFilterSkipped (Reason result) (metrics s)\<rparr>"
    | (candidate) cmd prInfo details wd1 result wd where "accepted t data = Some (cmd, prInfo)"
      "GetPRDetails (t_ghClient t) (pi_Owner prInfo) (pi_Repo prInfo) (pi_Number prInfo) (world s) = Some (Inr details, wd1)"
      "Evaluate (t_yaml t) (t_ghClient t) (trigger_input prInfo details) wd1 = Some (Inr result, wd)" "Keep result"
      "publishCreateCommand t prInfo cmd details result (s\<lparr>world := wd\<rparr>) = Some (r, s')"
proof (cases "accepted t data")
  case None
  with assms that(1) show thesis
    by (auto simp: runTrigger_def accepted_def unmarshalAndValidate_def split: sum.splits option.splits)
next
  case (Some cp)
  obtain cmd prInfo where cp: "cp = (cmd, prInfo)" by (cases cp)
  with Some have u: "unmarshalAndValidate t data = Inr cmd" "ParsePRURL t (tc_URL cmd) = Inr prInfo"
    by (auto simp: accepted_def split: sum.splits)
  note a = Some [unfolded cp]
  from assms u obtain det wd1 where
    d: "GetPRDetails (t_ghClient t) (pi_Owner prInfo) (pi_Repo prInfo) (pi_Number prInfo) (world s) = Some (det, wd1)"
    by (auto simp: runTrigger_def)
  show thesis
  proof (cases det)
    case (Inl err)
    with assms u d show thesis by (intro details_failed [OF a, of err wd1]) (auto simp: runTrigger_def)
  next
    case (Inr details)
    with assms u d obtain res wd2 where
      e: "Evaluate (t_yaml t) (t_ghClient t) (trigger_input prInfo details) wd1 = Some (res, wd2)"
      by (auto simp: runTrigger_def)
    note d' = d [unfolded Inr]
    show thesis
    proof (cases res)
      case err: (Inl err)
      with assms u d Inr e show thesis
        by (intro evaluate_failed [OF a d', of err wd2]) (auto simp: runTrigger_def)
    next
      case res: (Inr result)
      show thesis
      proof (cases "Keep result")
        case False
        with assms u d Inr e res show thesis
          by (intro not_candidate [OF a d', of result wd2]) (auto simp: runTrigger_def)
      next
        case True
        with assms u d Inr e res show thesis
          by (intro candidate [OF a d', of result wd2]) (auto simp: runTrigger_def)
      qed
    qed
  qed
qed

lemma publishCreateCommand_cases:
  assumes "publishCreateCommand t prInfo cmd details result s = Some (r, s')"
  obtains (failed) tid wd1 createCmd err wd where
      "trigger_task_id t prInfo cmd details result (world s) = (tid, wd1)"
      "BuildCreateCommand (trigger_pr prInfo cmd details) details tid (t_cfg t) (MatchedSpecs result) = Some createCmd"
      "t_SendCommand t createCmd wd1 = Some (Some err, wd)"
      "r = Some (Wrapped ''send create task command for %s'' err)"
      "s' = s\<lparr>world := wd, metrics := IncPublished ''error'' (metrics s)\<rparr>"
    | (sent) tid wd1 createCmd wd where
      "trigger_task_id t prInfo cmd details result (world s) = (tid, wd1)"
      "BuildCreateCommand (trigger_pr prInfo cmd details) details tid (t_cfg t) (MatchedSpecs result) = Some createCmd"
      "t_SendCommand t createCmd wd1 = Some (None, wd)" "r = None"
      "s' = s\<lparr>world := wd, metrics := IncPublished (publishedStatus (PromptsQueued result)) (metrics s),
              sent := sent s @ [createCmd]\<rparr>"
proof -
  obtain tid wd1 where i: "trigger_task_id t prInfo cmd details result (world s) = (tid, wd1)" by fastforce
  from assms i obtain createCmd err wd where
    c: "BuildCreateCommand (trigger_pr prInfo cmd details) details tid (t_cfg t) (MatchedSpecs result) = Some createCmd"
    and sd: "t_SendCommand t createCmd wd1 = Some (err, wd)"
    by (auto simp: publishCreateCommand_def)
  show thesis
  proof (cases err)
    case None
    with assms i c sd show thesis
      by (intro sent [of tid wd1 createCmd wd]) (auto simp: publishCreateCommand_def publishedStatus_def)
  next
    case (Some e)
    with assms i c sd show thesis
      by (intro failed [of tid wd1 createCmd e wd]) (auto simp: publishCreateCommand_def)
  qed
qed

subsection \<open>Properties\<close>

text \<open>A trigger to try the properties on: the payload is the command, the details are given.\<close>

definition example_trigger :: "PRDetails \<Rightarrow> (unit, TriggerCommand) trigger" where
  "example_trigger details =
     \<lparr>t_ghClient = (example_client [])\<lparr>GetPRDetails := \<lambda>owner repo number w. Some (Inr details, w)\<rparr>,
      t_SendCommand = (\<lambda>cmd w. Some (None, w)), t_cfg = example_cfg, t_uuid = (\<lambda>ns k. k),
      t_yaml = example_yaml, MarshalInto = Inr,
      ParsePRURL = (\<lambda>url. Inr \<lparr>pi_Platform = ''github'', pi_Owner = ''bborbe'', pi_Repo = ''widget'', pi_Number = 42\<rparr>),
      PlatformGitHub = ''github'', named_check = (\<lambda>e. e), Now = (\<lambda>w. (1000000, w))\<rparr>"

definition example_trigger_command :: TriggerCommand where
  "example_trigger_command = \<lparr>tc_URL = ''https://github.com/bborbe/widget/pull/42'', tc_Force = False\<rparr>"

definition example_pr_info :: PRInfo where
  "example_pr_info = \<lparr>pi_Platform = ''github'', pi_Owner = ''bborbe'', pi_Repo = ''widget'', pi_Number = 42\<rparr>"

lemma example_accepted:
  "accepted (example_trigger d) example_trigger_command = Some (example_trigger_command, example_pr_info)"
  by (simp add: accepted_def unmarshalAndValidate_def TriggerCommand_Validate_def check_url_def
      example_trigger_def example_trigger_command_def example_pr_info_def)

text \<open>The evaluator's example at another head commit.\<close>

lemma example_verdict_at:
  assumes "d_IsDraft d" and "d_State d = ''open''"
  shows "Evaluate example_yaml (t_ghClient (example_trigger d)) (trigger_input example_pr_info d) ()
    = Some (Inr example_result, ())"
  using example_spec_approved assms
  by (simp add: Evaluate_def example_trigger_def example_client_def example_reader_def trigger_input_def
      darkFactoryConfigFile_def matchedApprovedSpecsInDiff_def hasQueuedPrompts_def is_spec_path_def
      specDir_def example_result_def has_suffix_def)

lemma example_trigger_runs:
  assumes "d_IsDraft d" and "d_State d = ''open''"
  shows "\<exists>s' createCmd. runTrigger (example_trigger d) example_trigger_command example_state = Some (None, s')
    \<and> sent s' = [createCmd]
    \<and> BuildCreateCommand (trigger_pr example_pr_info example_trigger_command d) d ''bborbe/widget#42@queued''
        example_cfg [''specs/in-progress/1.md''] = Some createCmd"
proof -
  have c: "0 \<le> cfg_MaxSlugLen example_cfg" by (simp add: example_cfg_def)
  from BuildCreateCommand_defined [OF c] obtain createCmd where
    b: "BuildCreateCommand (trigger_pr example_pr_info example_trigger_command d) d ''bborbe/widget#42@queued''
        example_cfg [''specs/in-progress/1.md''] = Some createCmd" by blast
  have u: "unmarshalAndValidate (example_trigger d) example_trigger_command = Inr example_trigger_command"
    "ParsePRURL (example_trigger d) (tc_URL example_trigger_command) = Inr example_pr_info"
    by (simp_all add: unmarshalAndValidate_def TriggerCommand_Validate_def check_url_def
      example_trigger_def example_trigger_command_def example_pr_info_def)
  have g: "GetPRDetails (t_ghClient (example_trigger d)) owner repo number () = Some (Inr d, ())" for owner repo number
    by (simp add: example_trigger_def)
  have i: "trigger_task_id (example_trigger d) example_pr_info example_trigger_command d example_result ()
      = (''bborbe/widget#42@queued'', ())"
    by (simp add: trigger_task_id_def example_trigger_command_def example_trigger_def DeriveTaskID_def
        task_key_def pr_ref_def example_pr_info_def example_result_def itoa_42)
  have f: "t_SendCommand (example_trigger d) cmd w = Some (None, w)" "t_cfg (example_trigger d) = example_cfg"
    "t_yaml (example_trigger d) = example_yaml" for cmd w
    by (simp_all add: example_trigger_def)
  have r: "Keep example_result" "MatchedSpecs example_result = [''specs/in-progress/1.md'']"
    by (simp_all add: example_result_def)
  have st: "world example_state = ()" "sent example_state = []" by (simp_all add: example_state_def)
  show ?thesis
    using b by (auto simp: runTrigger_def u g f example_verdict_at [OF assms] r st publishCreateCommand_def i Let_def)
qed

text \<open>A payload that names a pull request on GitHub, independent of the checks in the code.\<close>

definition names_pr :: "('w, 'd) trigger \<Rightarrow> 'd \<Rightarrow> TriggerCommand \<Rightarrow> PRInfo \<Rightarrow> bool" where
  "names_pr t data cmd prInfo \<longleftrightarrow>
     MarshalInto t data = Inr cmd \<and> tc_URL cmd \<noteq> '''' \<and> ParsePRURL t (tc_URL cmd) = Inr prInfo
     \<and> pi_Platform prInfo = PlatformGitHub t"

lemma rejected_runs:
  "accepted t data = None \<Longrightarrow>
    \<exists>m. runTrigger t data s = Some (Some (Wrapped m (Sentinel ErrCommandObjectSkipped)), s)"
  by (auto simp: runTrigger_def accepted_def unmarshalAndValidate_def split: sum.splits option.splits)

lemma not_candidate_runs:
  assumes "accepted t data = Some (cmd, prInfo)"
    and "GetPRDetails (t_ghClient t) (pi_Owner prInfo) (pi_Repo prInfo) (pi_Number prInfo) (world s) = Some (Inr details, wd1)"
    and "Evaluate (t_yaml t) (t_ghClient t) (trigger_input prInfo details) wd1 = Some (Inr result, wd)"
    and "\<not> Keep result"
  shows "runTrigger t data s
    = Some (Some (Wrapped ''candidate rejected pr=%s/%s#%d reason=%s'' (Sentinel ErrCommandObjectSkipped)),
            s\<lparr>world := wd, metrics := IncFilterSkipped (Reason result) (metrics s)\<rparr>)"
  using assms by (auto simp: runTrigger_def accepted_def Let_def split: sum.splits)

lemma failed_trigger_quiet:
  assumes "runTrigger t data s = Some (Some err, s')"
  shows "sent s' = sent s" and "disk s' = disk s"
proof -
  from assms have "sent s' = sent s \<and> disk s' = disk s"
  proof (cases rule: runTrigger_cases)
    case (candidate cmd prInfo details wd1 result wd)
    from candidate(5) show ?thesis by (cases rule: publishCreateCommand_cases) simp_all
  qed simp_all
  then show "sent s' = sent s" and "disk s' = disk s" by simp_all
qed

text \<open>The call behind a failure.\<close>

definition failed_call :: "('w, 'd) trigger \<Rightarrow> PRInfo \<Rightarrow> 'w \<Rightarrow> go_error \<Rightarrow> bool" where
  "failed_call t prInfo wd0 cause \<longleftrightarrow>
     (\<exists>wd. GetPRDetails (t_ghClient t) (pi_Owner prInfo) (pi_Repo prInfo) (pi_Number prInfo) wd0 = Some (Inl cause, wd))
     \<or> (\<exists>details wd1 wd.
          GetPRDetails (t_ghClient t) (pi_Owner prInfo) (pi_Repo prInfo) (pi_Number prInfo) wd0 = Some (Inr details, wd1)
          \<and> Evaluate (t_yaml t) (t_ghClient t) (trigger_input prInfo details) wd1 = Some (Inl cause, wd))
     \<or> (\<exists>createCmd wd wd'. t_SendCommand t createCmd wd = Some (Some cause, wd'))"

lemma failed_trigger_cause:
  assumes "runTrigger t data s = Some (Some err, s')" and "\<not> errors_is err ErrCommandObjectSkipped"
  shows "\<exists>cmd prInfo cause. accepted t data = Some (cmd, prInfo)
    \<and> failed_call t prInfo (world s) cause \<and> root_cause err = root_cause cause"
  using assms(1)
proof (cases rule: runTrigger_cases)
  case (details_failed cmd prInfo cause wd)
  then have "failed_call t prInfo (world s) cause" by (simp add: failed_call_def)
  with details_failed show ?thesis by auto
next
  case (evaluate_failed cmd prInfo details wd1 cause wd)
  then have "failed_call t prInfo (world s) cause" by (auto simp: failed_call_def)
  with evaluate_failed show ?thesis by auto
next
  case (candidate cmd prInfo details wd1 result wd)
  from candidate(5) show ?thesis
  proof (cases rule: publishCreateCommand_cases)
    case (failed tid wd2 createCmd cause wd3)
    then have "failed_call t prInfo (world s) cause" by (auto simp: failed_call_def)
    with candidate(1) failed(4) show ?thesis by auto
  qed simp
qed (use assms(2) in simp_all)

text \<open>
  C19: The exit paths of a trigger. A payload that is malformed, has no URL or an unreadable
  one, or names no pull request on GitHub is skipped without a call, and one whose pull request
  the evaluator rejects is skipped and counted under the evaluator's reason. Whatever makes a
  run fail, it sends nothing and leaves the files alone; and an error that is not the skip
  sentinel, which makes the framework retry, has as its root cause the call that failed: for the
  details, for a read of the evaluation, or to Kafka. (The check library reports an error
  exactly when the check does.)
\<close>

theorem trigger_exit_paths:
  assumes "checks_reported t"
  shows "((\<nexists>cmd prInfo. names_pr t data cmd prInfo) \<longrightarrow>
      (\<exists>err. runTrigger t data s = Some (Some err, s) \<and> errors_is err ErrCommandObjectSkipped))
    \<and> (\<forall>cmd prInfo details wd1 result wd. names_pr t data cmd prInfo
        \<and> GetPRDetails (t_ghClient t) (pi_Owner prInfo) (pi_Repo prInfo) (pi_Number prInfo) (world s)
            = Some (Inr details, wd1)
        \<and> Evaluate (t_yaml t) (t_ghClient t) (trigger_input prInfo details) wd1 = Some (Inr result, wd)
        \<and> \<not> Keep result \<longrightarrow>
        (\<exists>err. runTrigger t data s
            = Some (Some err, s\<lparr>world := wd, metrics := IncFilterSkipped (Reason result) (metrics s)\<rparr>)
          \<and> errors_is err ErrCommandObjectSkipped))
    \<and> (\<forall>err s'. runTrigger t data s = Some (Some err, s') \<longrightarrow> sent s' = sent s \<and> disk s' = disk s
        \<and> (errors_is err ErrCommandObjectSkipped
           \<or> (\<exists>cmd prInfo cause. names_pr t data cmd prInfo
                \<and> failed_call t prInfo (world s) cause \<and> root_cause err = root_cause cause)))"
proof -
  have iff: "names_pr t data cmd prInfo \<longleftrightarrow> accepted t data = Some (cmd, prInfo)" for cmd prInfo
    using accepted_iff [OF assms] by (simp add: names_pr_def)
  show ?thesis
  proof (unfold iff, intro conjI allI impI, goal_cases)
    case 1
    then have "accepted t data = None" by (cases "accepted t data") auto
    from rejected_runs [OF this, of s] show ?case by auto
  next
    case (2 cmd prInfo details wd1 result wd)
    then have "runTrigger t data s = Some (Some (Wrapped ''candidate rejected pr=%s/%s#%d reason=%s''
        (Sentinel ErrCommandObjectSkipped)), s\<lparr>world := wd, metrics := IncFilterSkipped (Reason result) (metrics s)\<rparr>)"
      by (elim conjE) (rule not_candidate_runs)
    then show ?case by simp
  next
    case (3 err s')
    then show ?case by (rule failed_trigger_quiet)
  next
    case (4 err s')
    then show ?case by (rule failed_trigger_quiet)
  next
    case (5 err s')
    from failed_trigger_cause [OF 5] show ?case by blast
  qed
qed

theorem trigger_exit_paths_witness:
  "\<exists>err. runTrigger ((example_trigger example_details)\<lparr>PlatformGitHub := ''gitlab''\<rparr>) example_trigger_command example_state
      = Some (Some err, example_state)
    \<and> errors_is err ErrCommandObjectSkipped"
proof -
  let ?t = "(example_trigger example_details)\<lparr>PlatformGitHub := ''gitlab''\<rparr>"
  have c: "checks_reported ?t" by (simp add: checks_reported_def example_trigger_def)
  have n: "\<nexists>cmd prInfo. names_pr ?t example_trigger_command cmd prInfo"
    by (simp add: names_pr_def example_trigger_def)
  from conjunct1 [OF trigger_exit_paths [OF c], rule_format, OF n] show ?thesis .
qed

text \<open>
  C17: A trigger that succeeds sent exactly one command, for a pull request the evaluator
  keeps at the head commit just read; it is counted like one of the watcher, and unless it
  is forced it carries the very identifier the watcher derives, so that the controller
  recognises it; a forced one carries an identifier salted with the microsecond.
\<close>

theorem trigger_success:
  assumes "runTrigger t data s = Some (None, s')"
  shows "\<exists>cmd prInfo details result createCmd wd1 wd wd2. accepted t data = Some (cmd, prInfo)
    \<and> GetPRDetails (t_ghClient t) (pi_Owner prInfo) (pi_Repo prInfo) (pi_Number prInfo) (world s)
        = Some (Inr details, wd1)
    \<and> Evaluate (t_yaml t) (t_ghClient t) (trigger_input prInfo details) wd1 = Some (Inr result, wd) \<and> Keep result
    \<and> sent s' = sent s @ [createCmd]
    \<and> metrics s' = IncPublished (publishedStatus (PromptsQueued result)) (metrics s)
    \<and> cmd_TaskIdentifier createCmd
        = (if tc_Force cmd
           then DeriveTaskIDForce (t_uuid t) (pi_Owner prInfo) (pi_Repo prInfo) (pi_Number prInfo)
                  (d_HeadSHA details) (itoa (unix_micro (fst (Now t wd2))))
           else fst (taskIDsFor (t_uuid t) (trigger_pr prInfo cmd details) (d_HeadSHA details) (PromptsQueued result)))
    \<and> map_get (cmd_Frontmatter createCmd) ''ref'' = Some (FmString (d_HeadSHA details))"
  using assms
proof (cases rule: runTrigger_cases)
  case (candidate cmd prInfo details wd1 result wd)
  from candidate(5) show ?thesis
  proof (cases rule: publishCreateCommand_cases)
    case (sent tid wd2 createCmd wd3)
    have "tid = (if tc_Force cmd
           then DeriveTaskIDForce (t_uuid t) (pi_Owner prInfo) (pi_Repo prInfo) (pi_Number prInfo)
                  (d_HeadSHA details) (itoa (unix_micro (fst (Now t wd))))
           else fst (taskIDsFor (t_uuid t) (trigger_pr prInfo cmd details) (d_HeadSHA details) (PromptsQueued result)))"
      using sent(1) by (auto simp: trigger_task_id_def taskIDsFor_def trigger_pr_def split: if_splits prod.splits)
    with candidate sent BuildCreateCommand_SomeD [OF sent(2)] show ?thesis
      by (intro exI [of _ cmd] exI [of _ prInfo] exI [of _ details] exI [of _ result] exI [of _ createCmd]
          exI [of _ wd1] exI [of _ wd] exI [of _ wd]) (simp add: frontmatter_entries)
  qed simp
qed simp_all

theorem trigger_success_witness:
  "\<exists>s' createCmd. runTrigger (example_trigger example_details) example_trigger_command example_state = Some (None, s')
    \<and> sent s' = [createCmd]"
proof -
  have "d_IsDraft example_details" "d_State example_details = ''open''"
    by (simp_all add: example_details_def)
  from example_trigger_runs [OF this] obtain s'
    where r: "runTrigger (example_trigger example_details) example_trigger_command example_state = Some (None, s')"
    by blast
  from trigger_success [OF r] have "\<exists>createCmd. sent s' = sent example_state @ [createCmd]" by blast
  with r show ?thesis by (auto simp: example_state_def)
qed

subsection \<open>Commands that are delivered again\<close>

text \<open>
  What the identifier of a trigger depends on: the command, the pull request, the head commit
  and the queue state just read, and the clock.
\<close>

definition id_inputs ::
  "('w, 'd) trigger \<Rightarrow> 'd \<Rightarrow> 'w \<Rightarrow> (TriggerCommand \<times> PRInfo \<times> string \<times> bool \<times> int) option"
where
  "id_inputs t data wd =
     (case accepted t data of
        None \<Rightarrow> None
      | Some (cmd, prInfo) \<Rightarrow>
          (case GetPRDetails (t_ghClient t) (pi_Owner prInfo) (pi_Repo prInfo) (pi_Number prInfo) wd of
             Some (Inr details, wd1) \<Rightarrow>
               (case Evaluate (t_yaml t) (t_ghClient t) (trigger_input prInfo details) wd1 of
                  Some (Inr result, wd2) \<Rightarrow>
                    Some (cmd, prInfo, d_HeadSHA details, PromptsQueued result, unix_micro (fst (Now t wd2)))
                | _ \<Rightarrow> None)
           | _ \<Rightarrow> None))"

lemma runTrigger_id:
  assumes "runTrigger t data s = Some (None, s')"
  obtains cmd prInfo sha queued now c where "id_inputs t data (world s) = Some (cmd, prInfo, sha, queued, now)"
    and "sent s' = sent s @ [c]"
    and "cmd_TaskIdentifier c =
      t_uuid t darkFactoryWatcherNamespace
        (if tc_Force cmd then task_key_force (pi_Owner prInfo) (pi_Repo prInfo) (pi_Number prInfo) sha (itoa now)
         else task_key (pi_Owner prInfo) (pi_Repo prInfo) (pi_Number prInfo) sha queued)"
  using assms
proof (cases rule: runTrigger_cases)
  case (candidate cmd prInfo details wd1 result wd)
  from candidate(5) show thesis
  proof (cases rule: publishCreateCommand_cases)
    case (sent tid wd2 createCmd wd3)
    with BuildCreateCommand_SomeD(1) [OF sent(2)] candidate(1-3) show thesis
      by (intro that [of cmd prInfo "d_HeadSHA details" "PromptsQueued result" "unix_micro (fst (Now t wd))" createCmd])
         (auto simp: id_inputs_def trigger_task_id_def DeriveTaskID_def DeriveTaskIDForce_def
           split: if_splits prod.splits)
  qed simp
qed simp_all

text \<open>
  C18: The offsets of the command consumer live in memory, so a new process handles every
  trigger command again. Handled twice, in processes with clocks of their own that show
  different microseconds, an unchanged pull request gets two commands, and these carry the
  same identifier, which the controller drops, exactly when the trigger is not forced: each
  forced trigger in the topic becomes another task at every restart.
\<close>

theorem trigger_replay:
  assumes "runTrigger t data s1 = Some (None, s1')"
    and "runTrigger (t\<lparr>Now := clock\<rparr>) data s2 = Some (None, s2')"
    and "id_inputs t data (world s1) = Some (cmd, prInfo, sha, queued, now1)"
    and "id_inputs (t\<lparr>Now := clock\<rparr>) data (world s2) = Some (cmd, prInfo, sha, queued, now2)"
    and "now1 \<noteq> now2"
    and "collision_free (t_uuid t) 
      ((\<lambda>now. task_key_force (pi_Owner prInfo) (pi_Repo prInfo) (pi_Number prInfo) sha (itoa now)) ` {now1, now2})"
  shows "\<exists>c1 c2. sent s1' = sent s1 @ [c1] \<and> sent s2' = sent s2 @ [c2]
    \<and> (cmd_TaskIdentifier c1 = cmd_TaskIdentifier c2 \<longleftrightarrow> \<not> tc_Force cmd)"
proof -
  let ?key = "\<lambda>now. if tc_Force cmd then task_key_force (pi_Owner prInfo) (pi_Repo prInfo) (pi_Number prInfo) sha (itoa now)
    else task_key (pi_Owner prInfo) (pi_Repo prInfo) (pi_Number prInfo) sha queued"
  from runTrigger_id [OF assms(1)] assms(3) obtain c1 where c1: "sent s1' = sent s1 @ [c1]"
    "cmd_TaskIdentifier c1 = t_uuid t darkFactoryWatcherNamespace (?key now1)" by auto
  from runTrigger_id [OF assms(2)] assms(4) obtain c2 where c2: "sent s2' = sent s2 @ [c2]"
    "cmd_TaskIdentifier c2 = t_uuid t darkFactoryWatcherNamespace (?key now2)" by auto
  have "?key now1 \<noteq> ?key now2" if "tc_Force cmd"
    using assms(5) that by (auto simp: task_key_force_def dest: itoa_inj)
  then have "t_uuid t darkFactoryWatcherNamespace (?key now1) \<noteq> t_uuid t darkFactoryWatcherNamespace (?key now2)"
    if "tc_Force cmd"
    using collision_freeD [OF assms(6), of "?key now1" "?key now2"] that by auto
  with c1 c2 show ?thesis by (intro exI [of _ c1] exI [of _ c2]) auto
qed

definition at_clock :: "datetime \<Rightarrow> (unit, TriggerCommand) trigger" where
  "at_clock now = (example_trigger example_details)\<lparr>Now := \<lambda>w. (now, w)\<rparr>"

lemma example_forced:
  fixes now :: datetime
  defines "data \<equiv> example_trigger_command\<lparr>tc_Force := True\<rparr>"
  shows "\<exists>s'. runTrigger (at_clock now) data example_state = Some (None, s')"
    and "id_inputs (at_clock now) data () = Some (data, example_pr_info, ''abc1234567'', True, unix_micro now)"
proof -
  have d: "d_IsDraft example_details" "d_State example_details = ''open''" "d_HeadSHA example_details = ''abc1234567''"
    by (simp_all add: example_details_def)
  have f: "t_ghClient (at_clock now) = t_ghClient (example_trigger example_details)" "t_cfg (at_clock now) = example_cfg"
    "t_yaml (at_clock now) = example_yaml" "t_SendCommand (at_clock now) cmd w = Some (None, w)"
    "Now (at_clock now) w = (now, w)" "ParsePRURL (at_clock now) url = Inr example_pr_info" for cmd w url
    by (simp_all add: at_clock_def example_trigger_def example_pr_info_def)
  have u: "unmarshalAndValidate (at_clock now) data = Inr data"
    by (simp add: unmarshalAndValidate_def TriggerCommand_Validate_def check_url_def data_def at_clock_def
        example_trigger_def example_trigger_command_def)
  have g: "GetPRDetails (t_ghClient (example_trigger example_details)) owner repo number ()
      = Some (Inr example_details, ())" for owner repo number
    by (simp add: example_trigger_def)
  have r: "Keep example_result" "PromptsQueued example_result" by (simp_all add: example_result_def)
  from BuildCreateCommand_defined [of example_cfg] have c: "\<exists>c. BuildCreateCommand pr det tid example_cfg ms = Some c"
    for pr det tid ms by (simp add: example_cfg_def)
  show "id_inputs (at_clock now) data () = Some (data, example_pr_info, ''abc1234567'', True, unix_micro now)"
    by (simp add: id_inputs_def accepted_def u f g example_verdict_at [OF d(1,2)] r d(3))
  obtain tid where i: "trigger_task_id (at_clock now) example_pr_info data example_details example_result () = (tid, ())"
    by (cases "trigger_task_id (at_clock now) example_pr_info data example_details example_result ()") auto
  from c obtain cmd where "BuildCreateCommand (trigger_pr example_pr_info data example_details) example_details tid
      example_cfg (MatchedSpecs example_result) = Some cmd" by blast
  then show "\<exists>s'. runTrigger (at_clock now) data example_state = Some (None, s')"
    by (simp add: runTrigger_def u f g example_verdict_at [OF d(1,2)] r publishCreateCommand_def i
        example_state_fields)
qed

theorem trigger_replay_witness:
  "\<exists>s1 s2 c1 c2. runTrigger (at_clock 1000000) (example_trigger_command\<lparr>tc_Force := True\<rparr>) example_state = Some (None, s1)
    \<and> runTrigger (at_clock 2000000) (example_trigger_command\<lparr>tc_Force := True\<rparr>) example_state = Some (None, s2)
    \<and> sent s1 = [c1] \<and> sent s2 = [c2] \<and> cmd_TaskIdentifier c1 \<noteq> cmd_TaskIdentifier c2"
proof -
  let ?d = "example_trigger_command\<lparr>tc_Force := True\<rparr>"
  obtain s1 s2 where 1: "runTrigger (at_clock 1000000) ?d example_state = Some (None, s1)"
    and 2: "runTrigger (at_clock 2000000) ?d example_state = Some (None, s2)"
    using example_forced(1) by blast
  have a: "(at_clock 1000000)\<lparr>Now := \<lambda>w. (2000000, w)\<rparr> = at_clock 2000000" by (simp add: at_clock_def)
  have w: "world example_state = ()" by simp
  have u: "collision_free (t_uuid (at_clock 1000000)) K" for K
    by (simp add: at_clock_def example_trigger_def collision_free_def)
  have n: "unix_micro 1000000 \<noteq> unix_micro 2000000" by (simp add: unix_micro_def)
  from trigger_replay [of "at_clock 1000000" ?d example_state s1 "\<lambda>w. (2000000, w)" example_state s2, unfolded a w, OF 1 2 example_forced(2) example_forced(2) n u] 1 2
  show ?thesis by (auto simp: example_state_fields)
qed

text \<open>
  The two paths differ on a missing head commit: the watcher never sends a command for
  one, whatever else it reads, but a trigger does, with an empty \<open>ref\<close>.
\<close>

lemma empty_sha_differs:
  "(\<nexists>(w :: unit watcher) pr wd details result wd'. candidate w pr wd details result wd' \<and> d_HeadSHA details = '''')
   \<and> (\<exists>s' createCmd. runTrigger (example_trigger (example_details\<lparr>d_HeadSHA := ''''\<rparr>)) example_trigger_command
          example_state = Some (None, s')
        \<and> sent s' = [createCmd] \<and> map_get (cmd_Frontmatter createCmd) ''ref'' = Some (FmString ''''))"
proof
  show "\<nexists>(w :: unit watcher) pr wd details result wd'. candidate w pr wd details result wd' \<and> d_HeadSHA details = ''''"
    by (auto simp: candidate_def)
  let ?d = "example_details\<lparr>d_HeadSHA := ''''\<rparr>"
  have "d_IsDraft ?d" "d_State ?d = ''open''" by (simp_all add: example_details_def)
  from example_trigger_runs [OF this] obtain s' createCmd
    where r: "runTrigger (example_trigger ?d) example_trigger_command example_state = Some (None, s')"
      "sent s' = [createCmd]"
    and b: "BuildCreateCommand (trigger_pr example_pr_info example_trigger_command ?d) ?d
        ''bborbe/widget#42@queued'' example_cfg [''specs/in-progress/1.md''] = Some createCmd"
    by blast
  from BuildCreateCommand_SomeD(3) [OF b] r
  show "\<exists>s' createCmd. runTrigger (example_trigger ?d) example_trigger_command example_state = Some (None, s')
        \<and> sent s' = [createCmd] \<and> map_get (cmd_Frontmatter createCmd) ''ref'' = Some (FmString '''')"
    by (intro exI [of _ s'] exI [of _ createCmd]) (simp add: frontmatter_entries)
qed

end
