(* ===== verification/Mem_DB.thy ===== *)
theory Mem_DB
  imports Go_Map "HOL-Library.List_Lexorder" "HOL-Library.Char_ord"
begin

text \<open>
  \<open>pkg/memdb.go\<close>: the in-memory key-value store of the command consumer. The outer map
  holds references to the bucket maps, which the handles given out share, so the bucket
  maps live in a heap. \<open>None\<close> of a call is a panic, as storing into the nil map of a closed
  database is. The statistics are a struct of the kv library, of an arbitrary type here. The
  mutex only orders the calls.
\<close>

record 'k memDB =
  db_buckets :: "(string, nat) go_map"
  db_heap :: "nat \<Rightarrow> (string, string) go_map"
  db_next :: nat
  db_stats :: 'k

text \<open>The field \<open>stats\<close> is left at the zero value of its type.\<close>

definition NewMemDB :: "'k \<Rightarrow> 'k memDB" where
  "NewMemDB zero = \<lparr>db_buckets = make_map, db_heap = (\<lambda>a. None), db_next = 0, db_stats = zero\<rparr>"

definition Close :: "'k memDB \<Rightarrow> 'k memDB" where
  "Close d = d\<lparr>db_buckets := None\<rparr>"

definition Remove :: "'k memDB \<Rightarrow> 'k memDB" where
  "Remove d = Close d"

text \<open>\<open>Update\<close> and \<open>View\<close> run the function and return what it returns.\<close>

type_synonym ('k, 'a) tx = "'k memDB \<Rightarrow> ('a \<times> 'k memDB) option"

definition Update :: "('k, go_error option) tx \<Rightarrow> ('k, go_error option) tx" where
  "Update fn d = fn d"

definition View :: "('k, go_error option) tx \<Rightarrow> ('k, go_error option) tx" where
  "View fn d = fn d"

definition Bucket :: "'k memDB \<Rightarrow> string \<Rightarrow> go_error + nat" where
  "Bucket d name =
     (if db_buckets d = None then Inl (Sentinel BucketNotFoundError)
      else
        (case map_get (db_buckets d) name of
           None \<Rightarrow> Inl (Sentinel BucketNotFoundError)
         | Some b \<Rightarrow> Inr b))"

text \<open>A new map in the heap, stored under a name.\<close>

definition add_bucket :: "string \<Rightarrow> ('k, nat) tx" where
  "add_bucket name d =
     map_option
       (\<lambda>bs. (db_next d, d\<lparr>db_buckets := bs, db_heap := (db_heap d)(db_next d := make_map), db_next := Suc (db_next d)\<rparr>))
       (map_put name (db_next d) (db_buckets d))"

definition CreateBucket :: "string \<Rightarrow> ('k, go_error + nat) tx" where
  "CreateBucket name d =
     (case map_get (db_buckets d) name of
        Some b \<Rightarrow> Some (Inl (Sentinel BucketAlreadyExistsError), d)
      | None \<Rightarrow> map_option (apfst Inr) (add_bucket name d))"

definition CreateBucketIfNotExists :: "string \<Rightarrow> ('k, nat) tx" where
  "CreateBucketIfNotExists name d =
     (case map_get (db_buckets d) name of
        Some b \<Rightarrow> Some (b, d)
      | None \<Rightarrow> add_bucket name d)"

definition DeleteBucket :: "string \<Rightarrow> 'k memDB \<Rightarrow> 'k memDB" where
  "DeleteBucket name d = d\<lparr>db_buckets := map_delete name (db_buckets d)\<rparr>"

definition ListBucketNames :: "'k memDB \<Rightarrow> string list" where
  "ListBucketNames d = sort (map_keys (db_buckets d))"

definition bucket_Put :: "nat \<Rightarrow> string \<Rightarrow> string \<Rightarrow> 'k memDB \<Rightarrow> 'k memDB option" where
  "bucket_Put b key value d =
     map_option (\<lambda>m. d\<lparr>db_heap := (db_heap d)(b := m)\<rparr>) (map_put key value (db_heap d b))"

text \<open>
  A missing key is an item with a nil value, and so is a key whose stored value is empty:
  \<open>append\<close> of nothing to nil is nil.
\<close>

definition bucket_Get :: "'k memDB \<Rightarrow> nat \<Rightarrow> string \<Rightarrow> string" where
  "bucket_Get d b key = (case map_get (db_heap d b) key of None \<Rightarrow> [] | Some v \<Rightarrow> v)"

definition bucket_Delete :: "nat \<Rightarrow> string \<Rightarrow> 'k memDB \<Rightarrow> 'k memDB" where
  "bucket_Delete b key d = d\<lparr>db_heap := (db_heap d)(b := map_delete key (db_heap d b))\<rparr>"

text \<open>A copy of the statistics and no error, from both calls.\<close>

definition Stats :: "'k memDB \<Rightarrow> 'k \<times> go_error option" where
  "Stats d = (db_stats d, None)"

definition StatsDetailed :: "'k memDB \<Rightarrow> 'k \<times> go_error option" where
  "StatsDetailed d = (db_stats d, None)"

text \<open>\<open>Sync\<close> does nothing and reports no error.\<close>

definition Sync :: "'k memDB \<Rightarrow> go_error option \<times> 'k memDB" where
  "Sync d = (None, d)"

text \<open>
  The iterators are stubs: an iterator has no state, is never valid, moves nowhere and gives
  an item with a nil key and a nil value. A client walks a bucket with
  \<open>for it.Rewind(); it.Valid(); it.Next()\<close>.
\<close>

datatype memIterator = MemIterator

definition bucket_Iterator :: "nat \<Rightarrow> memIterator" where
  "bucket_Iterator b = MemIterator"

definition bucket_IteratorReverse :: "nat \<Rightarrow> memIterator" where
  "bucket_IteratorReverse b = MemIterator"

definition iterator_Item :: "memIterator \<Rightarrow> string \<times> string" where
  "iterator_Item it = ([], [])"

definition iterator_Next :: "memIterator \<Rightarrow> memIterator" where
  "iterator_Next it = it"

definition iterator_Valid :: "memIterator \<Rightarrow> bool" where
  "iterator_Valid it = False"

definition iterator_Rewind :: "memIterator \<Rightarrow> memIterator" where
  "iterator_Rewind it = it"

definition iterator_Seek :: "string \<Rightarrow> memIterator \<Rightarrow> memIterator" where
  "iterator_Seek key it = it"

partial_function (option) walk :: "memIterator \<Rightarrow> (string \<times> string) list \<Rightarrow> (string \<times> string) list option" where
  "walk it seen =
     (if iterator_Valid it then walk (iterator_Next it) (seen @ [iterator_Item it]) else Some seen)"

subsection \<open>The invariant\<close>

text \<open>The bucket names are distinct and every bucket has a map of its own in the heap.\<close>

definition db_wf :: "'k memDB \<Rightarrow> bool" where
  "db_wf d \<longleftrightarrow>
     map_wf (db_buckets d) \<and>
     (\<forall>n b. map_get (db_buckets d) n = Some b \<longrightarrow> b < db_next d \<and> db_heap d b \<noteq> None)
     \<and> inj_on (map_get (db_buckets d)) (dom (map_get (db_buckets d)))"

lemma db_wfD: "db_wf d \<Longrightarrow> map_get (db_buckets d) n = Some b \<Longrightarrow> b < db_next d \<and> db_heap d b \<noteq> None"
  by (simp add: db_wf_def)

lemma db_wf_inj:
  "db_wf d \<Longrightarrow> map_get (db_buckets d) n = Some b \<Longrightarrow> map_get (db_buckets d) m = Some b \<Longrightarrow> n = m"
  unfolding db_wf_def by (metis domI inj_onD)

lemma db_wf_keys: "db_wf d \<Longrightarrow> map_wf (db_buckets d)"
  by (simp add: db_wf_def)

lemma NewMemDB_wf: "db_wf (NewMemDB zero)"
  by (auto simp: db_wf_def NewMemDB_def inj_on_def)

lemma add_bucket_Some:
  assumes "add_bucket name d = Some (b, d')"
  shows "b = db_next d" and "db_next d' = Suc (db_next d)" and "db_heap d' = (db_heap d)(b := make_map)"
    and "map_get (db_buckets d') = (map_get (db_buckets d))(name \<mapsto> b)" and "db_buckets d' \<noteq> None"
    and "map_wf (db_buckets d) \<Longrightarrow> map_wf (db_buckets d')"
  using assms map_get_put map_put_wf by (auto simp: add_bucket_def dest: map_put_table)

lemma add_bucket_wf:
  assumes "db_wf d" and "map_get (db_buckets d) name = None" and "add_bucket name d = Some (b, d')"
  shows "db_wf d'"
proof -
  note a = add_bucket_Some [OF assms(3)]
  have fresh: "map_get (db_buckets d) n \<noteq> Some (db_next d)" for n
    using db_wfD [OF assms(1), of n "db_next d"] by auto
  show ?thesis
    unfolding db_wf_def
  proof (intro conjI allI impI)
    show "map_wf (db_buckets d')" using a(6) db_wf_keys [OF assms(1)] by blast
    show "c < db_next d'" "db_heap d' c \<noteq> None" if "map_get (db_buckets d') n = Some c" for n c
      using that a db_wfD [OF assms(1), of n c] by (auto split: if_splits)
    show "inj_on (map_get (db_buckets d')) (dom (map_get (db_buckets d')))"
      using db_wf_inj [OF assms(1)] fresh a(1) by (auto simp: a(4) inj_on_def)
  qed
qed

lemma DeleteBucket_wf: "db_wf d \<Longrightarrow> db_wf (DeleteBucket name d)"
  using db_wf_inj [of d] map_delete_wf [of "db_buckets d"] by (auto simp: db_wf_def DeleteBucket_def map_get_delete inj_on_def split: if_splits)

lemma bucket_Put_wf: "db_wf d \<Longrightarrow> bucket_Put b k v d = Some d' \<Longrightarrow> db_wf d'"
  by (auto simp: db_wf_def bucket_Put_def dest: map_put_table)

lemma bucket_Delete_wf: "db_wf d \<Longrightarrow> db_wf (bucket_Delete b k d)"
  by (auto simp: db_wf_def bucket_Delete_def)


subsection \<open>Reachable databases\<close>

text \<open>
  The calls a client makes, one at a time under the lock. A bucket handle outlives the
  transaction that gave it out, so a write may go to any map of the heap.
\<close>

inductive db_step :: "'k memDB \<Rightarrow> 'k memDB \<Rightarrow> bool" where
  step_create: "CreateBucket name d = Some (r, d') \<Longrightarrow> db_step d d'"
| step_ensure: "CreateBucketIfNotExists name d = Some (b, d') \<Longrightarrow> db_step d d'"
| step_drop: "db_step d (DeleteBucket name d)"
| step_put: "bucket_Put b k v d = Some d' \<Longrightarrow> db_step d d'"
| step_delete: "db_step d (bucket_Delete b k d)"
| step_close: "db_step d (Close d)"

definition db_reachable :: "'k \<Rightarrow> 'k memDB \<Rightarrow> bool" where
  "db_reachable zero d \<longleftrightarrow> db_step\<^sup>*\<^sup>* (NewMemDB zero) d"

lemma CreateBucket_wf: "db_wf d \<Longrightarrow> CreateBucket name d = Some (r, d') \<Longrightarrow> db_wf d'"
  by (auto simp: CreateBucket_def intro: add_bucket_wf split: option.splits)

lemma CreateBucketIfNotExists_wf:
  "db_wf d \<Longrightarrow> CreateBucketIfNotExists name d = Some (b, d') \<Longrightarrow> db_wf d'"
  by (auto simp: CreateBucketIfNotExists_def intro: add_bucket_wf split: option.splits)

lemma Close_wf: "db_wf (Close d)"
  by (simp add: db_wf_def Close_def map_get_def map_wf_def map_keys_def dom_def)

lemma db_step_wf: "db_step d d' \<Longrightarrow> db_wf d \<Longrightarrow> db_wf d'"
  by (induction rule: db_step.induct)
     (blast intro: CreateBucket_wf CreateBucketIfNotExists_wf DeleteBucket_wf bucket_Put_wf
        bucket_Delete_wf Close_wf)+

lemma db_reachable_wf: "db_reachable zero d \<Longrightarrow> db_wf d"
  unfolding db_reachable_def
  by (induction rule: rtranclp_induct) (auto intro: NewMemDB_wf db_step_wf)

lemma db_step_stats: "db_step d d' \<Longrightarrow> db_stats d' = db_stats d"
  by (induction rule: db_step.induct)
     (auto simp: CreateBucket_def CreateBucketIfNotExists_def add_bucket_def DeleteBucket_def bucket_Put_def
        bucket_Delete_def Close_def split: option.splits)

text \<open>No call ever counts anything: the statistics stay zero.\<close>

lemma Stats_zero: "db_reachable zero d \<Longrightarrow> Stats d = (zero, None) \<and> StatsDetailed d = (zero, None)"
  unfolding db_reachable_def
  by (induction rule: rtranclp_induct) (auto simp: Stats_def StatsDetailed_def NewMemDB_def db_step_stats)

lemma db_reachable_step: "db_reachable zero d \<Longrightarrow> db_step d d' \<Longrightarrow> db_reachable zero d'"
  unfolding db_reachable_def by (rule rtranclp.rtrancl_into_rtrancl)

subsection \<open>The database as one keyed store\<close>

text \<open>
  A client opens the bucket and works on it in one transaction, as the offset store does:
  writes create the bucket when it is missing.
\<close>

definition db_get :: "'k memDB \<Rightarrow> string \<times> string \<Rightarrow> string option" where
  "db_get d nk =
     (case map_get (db_buckets d) (fst nk) of
        None \<Rightarrow> None
      | Some b \<Rightarrow> map_get (db_heap d b) (snd nk))"

definition db_put :: "string \<times> string \<Rightarrow> string \<Rightarrow> 'k memDB \<Rightarrow> 'k memDB option" where
  "db_put nk v d =
     Option.bind (CreateBucketIfNotExists (fst nk) d) (\<lambda>(b, d1). bucket_Put b (snd nk) v d1)"

definition db_del :: "string \<times> string \<Rightarrow> 'k memDB \<Rightarrow> 'k memDB" where
  "db_del nk d =
     (case Bucket d (fst nk) of
        Inl e \<Rightarrow> d
      | Inr b \<Rightarrow> bucket_Delete b (snd nk) d)"

definition db_usable :: "'k memDB \<Rightarrow> bool" where
  "db_usable d \<longleftrightarrow> db_buckets d \<noteq> None \<and> db_wf d"

lemma NewMemDB_usable: "db_usable (NewMemDB zero)"
  using NewMemDB_wf by (simp add: db_usable_def NewMemDB_def)

text \<open>After the bucket is opened or created, it is the one registered under its name.\<close>

lemma ensure_bucket:
  assumes "db_usable d"
  obtains b d1 where "CreateBucketIfNotExists name d = Some (b, d1)"
    and "map_get (db_buckets d1) name = Some b" and "db_usable d1" and "db_get d1 = db_get d"
proof (cases "map_get (db_buckets d) name")
  case (Some b)
  with assms that [of b d] show thesis by (simp add: CreateBucketIfNotExists_def)
next
  case None
  from assms obtain bs where "map_put name (db_next d) (db_buckets d) = Some bs"
    by (cases "map_put name (db_next d) (db_buckets d)") (simp_all add: db_usable_def)
  then obtain b d1 where add: "add_bucket name d = Some (b, d1)" by (simp add: add_bucket_def)
  note a = add_bucket_Some [OF add]
  have wf: "db_wf d" using assms by (simp add: db_usable_def)
  have old: "c \<noteq> b" if "map_get (db_buckets d) n = Some c" for n c
    using db_wfD [OF wf that] a(1) by simp
  have "db_get d1 = db_get d"
    by (rule ext) (use None old in \<open>auto simp: db_get_def a(3) a(4) split: option.splits\<close>)
  moreover have "db_usable d1"
    using a(5) add_bucket_wf [OF wf None add] by (simp add: db_usable_def del: not_None_eq)
  moreover have "CreateBucketIfNotExists name d = Some (b, d1)"
    using None add by (simp add: CreateBucketIfNotExists_def)
  moreover have "map_get (db_buckets d1) name = Some b" using a(4) by simp
  ultimately show thesis using that by blast
qed

text \<open>Writing through the handle of a bucket changes that bucket and no other.\<close>

lemma bucket_Put_get:
  assumes "db_usable d" and b: "map_get (db_buckets d) n = Some b"
  obtains d' where "bucket_Put b k v d = Some d'" and "db_usable d'"
    and "db_get d' = (db_get d)((n, k) \<mapsto> v)"
proof -
  have wf: "db_wf d" and open_d: "db_buckets d \<noteq> None" using assms by (simp_all add: db_usable_def)
  have "db_heap d b \<noteq> None" using db_wfD [OF wf b] by blast
  then obtain m where m: "map_put k v (db_heap d b) = Some m"
    by (cases "map_put k v (db_heap d b)") simp_all
  then have put: "bucket_Put b k v d = Some (d\<lparr>db_heap := (db_heap d)(b := m)\<rparr>)" (is "_ = Some ?d")
    by (simp add: bucket_Put_def)
  have other: "c \<noteq> b" if "map_get (db_buckets d) n' = Some c" "n' \<noteq> n" for n' c
    using db_wf_inj [OF wf _ b, of n'] that by blast
  have "db_get ?d = (db_get d)((n, k) \<mapsto> v)"
  proof
    fix nk
    show "db_get ?d nk = ((db_get d)((n, k) \<mapsto> v)) nk"
      using other [where ?n' = "fst nk"] b map_get_put [OF m]
      by (cases nk) (auto simp: db_get_def split: option.splits)
  qed
  moreover have "db_usable ?d"
    using bucket_Put_wf [OF wf put] open_d by (simp add: db_usable_def del: not_None_eq)
  ultimately show thesis using put that by blast
qed

lemma bucket_Delete_get:
  assumes "db_wf d" and b: "map_get (db_buckets d) n = Some b"
  shows "db_get (bucket_Delete b k d) = (db_get d)((n, k) := None)"
proof
  fix nk :: "string \<times> string"
  have "c \<noteq> b" if "map_get (db_buckets d) (fst nk) = Some c" "fst nk \<noteq> n" for c
    using db_wf_inj [OF assms(1) _ b, of "fst nk"] that by blast
  then show "db_get (bucket_Delete b k d) nk = ((db_get d)((n, k) := None)) nk"
    using b by (cases nk) (auto simp: db_get_def bucket_Delete_def map_get_delete split: option.splits)
qed

lemma db_put_spec:
  assumes "db_usable d"
  obtains d' where "db_put nk v d = Some d'" and "db_usable d'" and "db_get d' = (db_get d)(nk \<mapsto> v)"
proof -
  obtain b d1 where "CreateBucketIfNotExists (fst nk) d = Some (b, d1)"
    and "map_get (db_buckets d1) (fst nk) = Some b" and "db_usable d1" and "db_get d1 = db_get d"
    using assms by (rule ensure_bucket)
  moreover from this obtain d' where "bucket_Put b (snd nk) v d1 = Some d'" and "db_usable d'"
    and "db_get d' = (db_get d1)(nk \<mapsto> v)"
    using bucket_Put_get [of d1 "fst nk" b "snd nk" v] by auto
  ultimately show thesis using that by (simp add: db_put_def)
qed

lemma db_del_spec:
  assumes "db_usable d"
  shows "db_usable (db_del nk d)" and "db_get (db_del nk d) = (db_get d)(nk := None)"
proof -
  have wf: "db_wf d" and open_d: "db_buckets d \<noteq> None" using assms by (simp_all add: db_usable_def)
  show "db_usable (db_del nk d)"
    using assms bucket_Delete_wf [OF wf] by (auto simp: db_del_def db_usable_def bucket_Delete_def split: sum.splits)
  show "db_get (db_del nk d) = (db_get d)(nk := None)"
  proof (cases "map_get (db_buckets d) (fst nk)")
    case None
    then have "db_get d nk = None" by (simp add: db_get_def)
    then have "(db_get d)(nk := None) = db_get d" by (rule fun_upd_idem)
    with None show ?thesis by (simp add: db_del_def Bucket_def)
  next
    case (Some b)
    with open_d have "Bucket d (fst nk) = Inr b" by (simp add: Bucket_def del: not_None_eq)
    with bucket_Delete_get [OF wf Some, of "snd nk"] show ?thesis by (simp add: db_del_def)
  qed
qed

interpretation db: keyed_store db_get db_put db_del db_usable
proof
  fix d nk v
  assume u: "db_usable d"
  show "\<exists>d'. db_put nk v d = Some d'" using u by (rule db_put_spec) blast
  show "db_usable (db_del nk d)" and "db_get (db_del nk d) = (db_get d)(nk := None)"
    using u by (rule db_del_spec)+
next
  fix d nk v d'
  assume u: "db_usable d" and p: "db_put nk v d = Some d'"
  show "db_usable d'" and "db_get d' = (db_get d)(nk \<mapsto> v)"
    using db_put_spec [OF u, of nk v] p by auto
qed


lemma Bucket_found: "Bucket d n = Inr b \<longleftrightarrow> map_get (db_buckets d) n = Some b"
  by (auto simp: Bucket_def map_get_def split: option.splits)

text \<open>A transaction that reads one key, and fails when it does not hold the expected value.\<close>

definition read_back :: "string \<Rightarrow> string \<Rightarrow> string \<Rightarrow> ('k, go_error option) tx" where
  "read_back n k v d =
     (case Bucket d n of
        Inl e \<Rightarrow> Some (Some e, d)
      | Inr b \<Rightarrow> Some (if bucket_Get d b k = v then None else Some (NewError ''mismatch''), d))"

text \<open>A walk over a bucket ends and finds nothing, whatever the bucket holds.\<close>

lemma walk_empty:
  "walk (iterator_Rewind (bucket_Iterator b)) [] = Some []"
  "walk (iterator_Rewind (bucket_IteratorReverse b)) [] = Some []"
  "walk (iterator_Seek key (bucket_Iterator b)) [] = Some []"
  by (simp_all add: walk.simps iterator_Valid_def)

subsection \<open>What the database promises\<close>

text \<open>
  C38: In an open database that the calls of this file can reach, a transaction that opens
  the bucket with \<open>CreateBucketIfNotExists\<close> and stores a value never panics. A later
  transaction finds the bucket under its name and reads the value back, every other key of
  every bucket reads as before, and after the key is deleted nothing is left of the write.
\<close>

theorem memdb_put_get:
  assumes "db_reachable zero d" and "db_buckets d \<noteq> None"
  shows "\<exists>b d1 d2.
    CreateBucketIfNotExists n d = Some (b, d1) \<and> bucket_Put b k v d1 = Some d2
    \<and> Bucket d2 n = Inr b \<and> bucket_Get d2 b k = v
    \<and> (\<forall>nk. nk \<noteq> (n, k) \<longrightarrow> db_get d2 nk = db_get d nk)
    \<and> db_get (db_del (n, k) d2) = (db_get d)((n, k) := None)"
proof -
  have u: "db_usable d" using assms db_reachable_wf by (simp add: db_usable_def)
  then obtain b d1 where e: "CreateBucketIfNotExists n d = Some (b, d1)"
    and b1: "map_get (db_buckets d1) n = Some b" and u1: "db_usable d1" and same: "db_get d1 = db_get d"
    by (rule ensure_bucket)
  from u1 b1 obtain d2 where p: "bucket_Put b k v d1 = Some d2" and u2: "db_usable d2"
    by (rule bucket_Put_get)
  have put: "db_put (n, k) v d = Some d2" using e p by (simp add: db_put_def)
  have b2: "map_get (db_buckets d2) n = Some b" using p b1 by (auto simp: bucket_Put_def)
  then have "Bucket d2 n = Inr b" by (simp add: Bucket_found)
  moreover have "bucket_Get d2 b k = v"
    using db.get_put_same [OF u put] b2 by (simp add: db_get_def bucket_Get_def)
  ultimately show ?thesis
    using e p db.get_put_other [OF u put] db.del_after_put [OF u put] by blast
qed

lemma example_db:
  "CreateBucketIfNotExists ''offsets'' (NewMemDB ()) =
     Some (0, \<lparr>db_buckets = Some [(''offsets'', 0)], db_heap = (\<lambda>a. None)(0 := Some []), db_next = 1, db_stats = ()\<rparr>)"
  by (simp add: CreateBucketIfNotExists_def add_bucket_def NewMemDB_def map_put_def make_map_def map_get_def)

definition example_db where
  "example_db = \<lparr>db_buckets = Some [(''offsets'', 0)], db_heap = (\<lambda>a. None)(0 := Some []), db_next = 1, db_stats = ()\<rparr>"

lemma NewMemDB_reachable: "db_reachable zero (NewMemDB zero)"
  by (simp add: db_reachable_def)

lemma example_db_reachable: "db_reachable () example_db"
  using db_reachable_step [OF NewMemDB_reachable step_ensure [OF example_db]] by (simp add: example_db_def)

theorem memdb_put_get_witness:
  "\<exists>b d1 d2.
    CreateBucketIfNotExists ''offsets'' example_db = Some (b, d1) \<and> bucket_Put b ''0'' ''42'' d1 = Some d2
    \<and> Bucket d2 ''offsets'' = Inr b \<and> bucket_Get d2 b ''0'' = ''42''"
proof -
  have "db_buckets example_db \<noteq> None" by (simp add: example_db_def)
  from memdb_put_get [OF example_db_reachable this, of "''offsets''" "''0''" "''42''"] show ?thesis by blast
qed

text \<open>
  In every database that the calls can reach, \<open>ListBucketNames\<close> returns exactly the
  names under which \<open>Bucket\<close> finds a bucket, each once and in ascending order (the comment
  of \<open>NewMemDB\<close> says that it returns nothing), and a bucket that was created by name is a
  bucket of its own: two names never share one.
\<close>

lemma ListBucketNames_complete:
  assumes "db_reachable zero d"
  shows "sorted (ListBucketNames d) \<and> distinct (ListBucketNames d)
    \<and> set (ListBucketNames d) = {n. \<exists>b. Bucket d n = Inr b}
    \<and> (\<forall>n m b. Bucket d n = Inr b \<longrightarrow> Bucket d m = Inr b \<longrightarrow> n = m)"
proof -
  have wf: "db_wf d" using assms by (rule db_reachable_wf)
  have "set (ListBucketNames d) = {n. \<exists>b. Bucket d n = Inr b}"
    using map_keys_set [of "db_buckets d"] by (auto simp: ListBucketNames_def Bucket_found)
  then show ?thesis
    using db_wf_keys [OF wf] db_wf_inj [OF wf] by (simp add: ListBucketNames_def map_wf_def Bucket_found)
qed

lemma ListBucketNames_complete_witness:
  "ListBucketNames example_db = [''offsets''] \<and> sorted (ListBucketNames example_db)
    \<and> (\<exists>b. Bucket example_db ''offsets'' = Inr b)"
proof -
  have l: "ListBucketNames example_db = [''offsets'']"
    by (simp add: ListBucketNames_def example_db_def map_keys_def)
  have "''offsets'' \<in> {n. \<exists>b. Bucket example_db n = Inr b}"
    using ListBucketNames_complete [OF example_db_reachable] l by (metis list.set_intros(1))
  then show ?thesis using l by simp
qed

text \<open>
  A closed (or removed) database finds no bucket and lists none, and deleting one does
  nothing; but creating one panics, since the error the interface could return is only used
  for reads. A handle that was given out before still reads what the bucket held.
\<close>

lemma closed_memdb:
  "Remove d = Close d \<and> Bucket (Close d) n = Inl (Sentinel BucketNotFoundError)
   \<and> ListBucketNames (Close d) = [] \<and> DeleteBucket n (Close d) = Close d
   \<and> CreateBucket n (Close d) = None \<and> CreateBucketIfNotExists n (Close d) = None
   \<and> bucket_Get (Close d) b k = bucket_Get d b k"
  by (simp add: Remove_def Close_def Bucket_def ListBucketNames_def map_keys_def DeleteBucket_def
      map_delete_def CreateBucket_def CreateBucketIfNotExists_def map_get_def add_bucket_def map_put_def
      bucket_Get_def)

text \<open>
  \<open>Update\<close> does not roll back. When the function it runs stores a value and then
  returns an error, the caller gets the error and a later \<open>View\<close> still reads the value:
  the transaction is a lock and nothing more.
\<close>

lemma Update_keeps_changes:
  assumes "db_reachable zero d" and "db_buckets d \<noteq> None"
    and "fn = (\<lambda>d. map_option (Pair (Some e)) (db_put (n, k) v d))"
  shows "\<exists>d'. Update fn d = Some (Some e, d') \<and> View (read_back n k v) d' = Some (None, d')"
proof -
  have u: "db_usable d" using assms db_reachable_wf by (simp add: db_usable_def)
  from db.put_defined [OF u] obtain d' where p: "db_put (n, k) v d = Some d'" by blast
  have g: "db_get d' (n, k) = Some v" by (rule db.get_put_same [OF u p])
  then obtain b where b: "map_get (db_buckets d') n = Some b" and "map_get (db_heap d' b) k = Some v"
    by (auto simp: db_get_def split: option.splits)
  then have "Bucket d' n = Inr b" and "bucket_Get d' b k = v"
    by (simp_all add: Bucket_found bucket_Get_def)
  with p show ?thesis by (simp add: Update_def View_def read_back_def assms(3))
qed

lemma Update_keeps_changes_witness:
  "\<exists>d'. Update (\<lambda>d. map_option (Pair (Some (NewError ''stop''))) (db_put (''offsets'', ''0'') ''42'' d)) example_db
          = Some (Some (NewError ''stop''), d')
    \<and> View (read_back ''offsets'' ''0'' ''42'') d' = Some (None, d')"
proof -
  have "db_buckets example_db \<noteq> None" by (simp add: example_db_def)
  from Update_keeps_changes [OF example_db_reachable this refl, of "NewError ''stop''" "''offsets''" "''0''" "''42''"]
  show ?thesis by blast
qed

end
