(* ===== verification/Io_Reader.thy ===== *)
theory Io_Reader
  imports Prelude
begin

text \<open>
  \<open>io.Reader\<close> and the readers of the standard library that \<open>pkg/non2xx_log.go\<close> puts around
  a response body: \<open>io.LimitReader\<close>, \<open>bytes.Reader\<close>, \<open>io.MultiReader\<close> and the loop of
  \<open>io.ReadAll\<close>. One read fills at most the buffer it is given and may deliver less; the
  error that ends the stream comes with the last bytes or after them.
\<close>

datatype io_error =
    EOF
  | Failed go_error

type_synonym 'r read_fun = "nat \<Rightarrow> 'r \<Rightarrow> (string \<times> io_error option) \<times> 'r"

text \<open>\<open>ReadAll\<close> returns no error when the stream ends.\<close>

definition read_error :: "io_error \<Rightarrow> go_error option" where
  "read_error x = (case x of EOF \<Rightarrow> None | Failed g \<Rightarrow> Some g)"

text \<open>
  The loop of \<open>io.ReadAll\<close>. The free capacity of the slice it appends to is positive and
  depends on how much is in it (\<open>avail\<close>, the growth of slices, is a parameter).
\<close>

partial_function (option) read_all ::
  "'r read_fun \<Rightarrow> (nat \<Rightarrow> nat) \<Rightarrow> string \<Rightarrow> 'r \<Rightarrow> ((string \<times> go_error option) \<times> 'r) option" where
  "read_all rd avail acc r =
     (case rd (Suc (avail (length acc))) r of
        ((d, e), r') \<Rightarrow>
          (case e of
             None \<Rightarrow> read_all rd avail (acc @ d) r'
           | Some x \<Rightarrow> Some ((acc @ d, read_error x), r')))"

text \<open>
  The contract of \<open>io.Reader\<close>: what is left to read and how the stream ends are fixed, a
  read delivers a piece of it and makes progress, and the error comes only with the end.
\<close>

locale io_reader =
  fixes rd :: "'r read_fun" and left :: "'r \<Rightarrow> string" and stop :: "'r \<Rightarrow> io_error"
  assumes read_more:
    "rd (Suc n) r = ((d, None), r') \<Longrightarrow> d \<noteq> [] \<and> left r = d @ left r' \<and> stop r' = stop r"
    and read_end: "rd (Suc n) r = ((d, Some x), r') \<Longrightarrow> left r = d \<and> stop r = x"
begin

text \<open>\<open>ReadAll\<close> returns, with everything that is left, whatever the sizes of the reads.\<close>

lemma read_all_returns:
  "\<exists>r'. read_all rd avail acc r = Some ((acc @ left r, read_error (stop r)), r')"
proof (induction "length (left r)" arbitrary: r acc rule: less_induct)
  case less
  obtain d e r' where step: "rd (Suc (avail (length acc))) r = ((d, e), r')" by (metis surj_pair)
  show ?case
  proof (cases e)
    case None
    with step read_more have m: "d \<noteq> []" "left r = d @ left r'" "stop r' = stop r" by blast+
    then have "length (left r') < length (left r)" by simp
    from less [OF this, of "acc @ d"] m step None show ?thesis
      by (subst read_all.simps) simp
  next
    case (Some x)
    with step read_end have "left r = d" "stop r = x" by blast+
    with step Some show ?thesis by (subst read_all.simps) simp
  qed
qed

text \<open>What every read keeps holds at the end.\<close>

lemma read_all_keeps:
  assumes "J acc r" and "read_all rd avail acc r = Some ((out, err), r'')"
    and step: "\<And>acc r n d e r'. J acc r \<Longrightarrow> rd (Suc n) r = ((d, e), r') \<Longrightarrow> J (acc @ d) r'"
  shows "J out r''"
  using assms(1,2)
proof (induction "length (left r)" arbitrary: r acc rule: less_induct)
  case less
  obtain d e r' where rd: "rd (Suc (avail (length acc))) r = ((d, e), r')" by (metis surj_pair)
  have J: "J (acc @ d) r'" using less.prems(1) rd by (rule step)
  show ?case
  proof (cases e)
    case None
    with rd read_more have m: "d \<noteq> []" "left r = d @ left r'" by blast+
    then have "length (left r') < length (left r)" by simp
    from less.hyps [OF this J] less.prems(2) rd None show ?thesis
      by (subst (asm) read_all.simps) simp
  next
    case (Some x)
    with less.prems(2) rd J show ?thesis by (subst (asm) read_all.simps) simp
  qed
qed

end

subsection \<open>A body\<close>

text \<open>
  A response body: the bytes still to come, the error at the end, whether that comes with
  the last bytes or after them, and how many bytes (less one) a read delivers at most, as
  the packets of a connection dictate.
\<close>

record body =
  bytes :: string
  stop_with :: io_error
  eager :: bool
  pace :: "nat \<Rightarrow> nat"

definition body_read :: "body read_fun" where
  "body_read n b =
     (let k = min n (Suc (pace b (length (bytes b))));
          d = take k (bytes b);
          rest = drop k (bytes b)
      in ((d, if rest = [] \<and> (eager b \<or> d = []) then Some (stop_with b) else None), b\<lparr>bytes := rest\<rparr>))"

lemma body_read_step:
  assumes "body_read n b = ((d, e), b')"
  shows "bytes b = d @ bytes b'" and "length d \<le> n"
    and "stop_with b' = stop_with b" and "eager b' = eager b" and "pace b' = pace b"
    and "e = (if bytes b' = [] \<and> (eager b \<or> d = []) then Some (stop_with b) else None)"
    and "0 < n \<Longrightarrow> d = [] \<Longrightarrow> bytes b = []"
  using assms by (auto simp: body_read_def Let_def)

interpretation body: io_reader body_read bytes stop_with
proof
  fix n b d b'
  assume r: "body_read (Suc n) b = ((d, None), b')"
  note s = body_read_step [OF r]
  have "d \<noteq> []" using s(1,6,7) by (auto split: if_splits)
  then show "d \<noteq> [] \<and> bytes b = d @ bytes b' \<and> stop_with b' = stop_with b" using s by simp
next
  fix n b d x b'
  assume r: "body_read (Suc n) b = ((d, Some x), b')"
  show "bytes b = d \<and> stop_with b = x"
    using body_read_step(1,6) [OF r] by (auto split: if_splits)
qed

subsection \<open>\<open>io.LimitReader\<close>\<close>

text \<open>At most a number of bytes of a body, and then the end of the stream.\<close>

definition limited_read :: "(body \<times> nat) read_fun" where
  "limited_read n bN =
     (if snd bN = 0 then (([], Some EOF), bN)
      else
        (case body_read (min n (snd bN)) (fst bN) of
           ((d, e), b') \<Rightarrow> ((d, e), (b', snd bN - length d))))"

definition limited_left :: "body \<times> nat \<Rightarrow> string" where
  "limited_left bN = take (snd bN) (bytes (fst bN))"

text \<open>
  How the limited stream ends: as the body does when that ends first, or when the end comes
  with the last byte of the limit.
\<close>

definition limited_stop :: "body \<times> nat \<Rightarrow> io_error" where
  "limited_stop bN =
     (if length (bytes (fst bN)) < snd bN
         \<or> 0 < snd bN \<and> length (bytes (fst bN)) = snd bN \<and> eager (fst bN)
      then stop_with (fst bN) else EOF)"

lemma limited_read_step:
  assumes "limited_read (Suc n) (b, N) = ((d, e), (b', N'))" and "0 < N"
  shows "body_read (min (Suc n) N) b = ((d, e), b')" and "N' = N - length d"
  using assms by (auto simp: limited_read_def split: prod.splits)

interpretation limited: io_reader limited_read limited_left limited_stop
proof
  fix n bN d bN'
  assume r: "limited_read (Suc n) bN = ((d, None), bN')"
  obtain b N b' N' where p: "bN = (b, N)" "bN' = (b', N')" by fastforce
  from r p have N: "0 < N" by (auto simp: limited_read_def split: if_splits)
  note l = limited_read_step [OF r [unfolded p] N]
  note s = body_read_step [OF l(1)]
  have len: "length d \<le> N" using s(2) by simp
  have ne: "d \<noteq> []" using s(1,6,7) N by (auto split: if_splits)
  moreover have "\<not> (bytes b' = [] \<and> eager b)" using s(6) by auto
  ultimately show "d \<noteq> [] \<and> limited_left bN = d @ limited_left bN' \<and> limited_stop bN' = limited_stop bN"
    using len N by (auto simp: p limited_left_def limited_stop_def s(1,3,4) l(2))
next
  fix n bN d x bN'
  assume r: "limited_read (Suc n) bN = ((d, Some x), bN')"
  obtain b N b' N' where p: "bN = (b, N)" "bN' = (b', N')" by fastforce
  show "limited_left bN = d \<and> limited_stop bN = x"
  proof (cases "N = 0")
    case True
    with r p show ?thesis by (auto simp: limited_read_def limited_left_def limited_stop_def)
  next
    case False
    then have N: "0 < N" by simp
    note s = body_read_step [OF limited_read_step(1) [OF r [unfolded p] N]]
    have "bytes b = d" "eager b \<or> d = []" "x = stop_with b" using s(1,6) by (auto split: if_splits)
    with s(2) N show ?thesis by (auto simp: p limited_left_def limited_stop_def)
  qed
qed

text \<open>
  Reading a limited body to its end gives the first bytes of the body and leaves the others;
  an error is reported only when nothing is left of the body.
\<close>

lemma read_all_limited:
  obtains b' N' where
    "read_all limited_read avail [] (b, N) = Some ((take N (bytes b), read_error (limited_stop (b, N))), (b', N'))"
    and "bytes b' = drop N (bytes b)" and "stop_with b' = stop_with b"
proof -
  from limited.read_all_returns [of avail "[]" "(b, N)"] obtain b' N' where
    r: "read_all limited_read avail [] (b, N) = Some ((take N (bytes b), read_error (limited_stop (b, N))), (b', N'))"
    by (auto simp: limited_left_def)
  define J where "J acc bN \<longleftrightarrow> bytes b = acc @ bytes (fst bN) \<and> stop_with (fst bN) = stop_with b"
    for acc and bN :: "body \<times> nat"
  have "J (take N (bytes b)) (b', N')"
  proof (rule limited.read_all_keeps [OF _ r])
    show "J [] (b, N)" by (simp add: J_def)
    fix acc cM n d e cM'
    assume j: "J acc cM" and rd: "limited_read (Suc n) cM = ((d, e), cM')"
    obtain c M c' M' where p: "cM = (c, M)" "cM' = (c', M')" by fastforce
    show "J (acc @ d) cM'"
    proof (cases "M = 0")
      case True
      with j rd p show ?thesis by (simp add: limited_read_def)
    next
      case False
      then have M: "0 < M" by simp
      show ?thesis
        using j body_read_step(1,3) [OF limited_read_step(1) [OF rd [unfolded p] M]] by (simp add: J_def p)
    qed
  qed
  then have "bytes b = take N (bytes b) @ bytes b'" and "stop_with b' = stop_with b" by (simp_all add: J_def)
  moreover from this have "bytes b' = drop N (bytes b)" by (metis append_take_drop_id same_append_eq)
  ultimately show thesis using r that by blast
qed

end
