(* ===== verification/Non2xx_Log.thy ===== *)
theory Non2xx_Log
  imports Io_Reader Go_Text
begin

text \<open>
  \<open>pkg/non2xx_log.go\<close>: the transport that logs one line per response of the GitHub API
  outside 200 to 299 and hands the whole body on. A request keeps more than the line shows
  (the user info, the query and the headers of the request), so that what the line does not
  depend on can be said.
\<close>

definition non2xxBodyLimit :: nat where "non2xxBodyLimit = 200"
definition non2xxAbsent :: string where "non2xxAbsent = ''absent''"
definition non2xxPeekBytes :: nat where "non2xxPeekBytes = 4096"

record url =
  u_user :: string
  u_host :: string
  u_path :: string
  u_query :: string

record request =
  q_method :: string
  q_url :: "url option"
  q_header :: "string \<Rightarrow> string"

text \<open>
  The body of a response is the one of the connection, or a \<open>peekedBody\<close>: a prefix in
  memory (\<open>bytes.Reader\<close>) before the rest, which is the body or an \<open>errReader\<close>.
\<close>

datatype rest =
    RestBody body
  | ErrReader go_error

datatype reader =
    Original body
  | PeekedBody string rest

text \<open>
  \<open>Header.Get\<close> gives the empty string for a header the response does not carry. The
  transport gets responses whose body is the one of the connection.
\<close>

record 'b response =
  r_status :: int
  r_header :: "string \<Rightarrow> string"
  r_body :: "'b option"

fun rest_read :: "rest read_fun" where
  "rest_read n (RestBody b) = (case body_read n b of (x, b') \<Rightarrow> (x, RestBody b'))"
| "rest_read n (ErrReader g) = (([], Some (Failed g)), ErrReader g)"

text \<open>\<open>io.MultiReader\<close> of the prefix and the rest: the prefix first.\<close>

fun reader_read :: "reader read_fun" where
  "reader_read n (Original b) = (case body_read n b of (x, b') \<Rightarrow> (x, Original b'))"
| "reader_read n (PeekedBody p r) =
     (if p \<noteq> [] then ((take n p, None), PeekedBody (drop n p) r)
      else (case rest_read n r of (x, r') \<Rightarrow> (x, PeekedBody [] r')))"

subsection \<open>The line\<close>

text \<open>\<open>strings.Fields\<close>: the runs of runes that are no white space.\<close>

function take_word :: "string \<Rightarrow> string \<times> string" where
  "take_word s =
     (if s = [] \<or> leading_space s \<noteq> None then ([], s)
      else
        (case decode_rune s of
           (r, w) \<Rightarrow> (case take_word (drop w s) of (u, t) \<Rightarrow> (take w s @ u, t))))"
  by pat_completeness auto
termination
  by (relation "measure length") (auto intro: decode_rune_decreases)

declare take_word.simps [simp del]

lemma take_word_split: "take_word s = (u, t) \<Longrightarrow> s = u @ t"
proof (induction s arbitrary: u rule: take_word.induct)
  case (1 s)
  show ?case
  proof (cases "s = [] \<or> leading_space s \<noteq> None")
    case True
    with "1.prems" show ?thesis by (simp add: take_word.simps [of s])
  next
    case False
    obtain r w where d: "decode_rune s = (r, w)" by fastforce
    obtain u' t' where w: "take_word (drop w s) = (u', t')" by fastforce
    from False d w "1.prems" have ut: "u = take w s @ u'" "t = t'"
      by (simp_all add: take_word.simps [of s])
    with "1.IH" [OF False d [symmetric]] w have "drop w s = u' @ t" by blast
    with ut show ?thesis by (metis append.assoc append_take_drop_id)
  qed
qed

function strings_fields :: "string \<Rightarrow> string list" where
  "strings_fields s =
     (let t = trim_left s in
      if t = [] then []
      else (case take_word t of (u, t') \<Rightarrow> u # strings_fields t'))"
  by pat_completeness auto
termination
proof (relation "measure length")
  fix s t u t'
  assume t: "t = trim_left s" "t \<noteq> []" and w: "(u, t') = take_word t"
  obtain r k where d: "decode_rune t = (r, k)" by fastforce
  obtain v t2 where v: "take_word (drop k t) = (v, t2)" by fastforce
  have "leading_space t = None" unfolding t(1) by (rule trim_left_no_space)
  with w t(2) d v have "u = take k t @ v" by (simp add: take_word.simps [of t])
  moreover have "0 < k" using decode_rune_width [OF t(2)] d by simp
  ultimately have "u \<noteq> []" using t(2) by auto
  moreover have "t = u @ t'" using take_word_split w by metis
  moreover have "length t \<le> length s" using trim_left_suffix [of s] t(1) by (metis le_add2 length_append)
  ultimately have "length t' < length s" by (cases u) auto
  then show "(t', s) \<in> measure length" by simp
qed simp

declare strings_fields.simps [simp del]

text \<open>\<open>strings.ToValidUTF8(s, "?")\<close>: each run of bytes that are no UTF-8 becomes one \<open>?\<close>.\<close>

function to_valid_from :: "bool \<Rightarrow> string \<Rightarrow> string" where
  "to_valid_from bad s =
     (if s = [] then []
      else
        (case decode_rune s of
           (r, w) \<Rightarrow>
             if r = rune_error \<and> w = 1
             then (if bad then [] else ''?'') @ to_valid_from True (drop w s)
             else take w s @ to_valid_from False (drop w s)))"
  by pat_completeness auto
termination
  by (relation "measure (length \<circ> snd)") (auto intro: decode_rune_decreases)

declare to_valid_from.simps [simp del]

definition to_valid_utf8 :: "string \<Rightarrow> string" where
  "to_valid_utf8 s = to_valid_from False s"

definition ellipsis :: string where
  "ellipsis = [CHR 0xE2, CHR 0x80, CHR 0xA6]"

definition orAbsent :: "string \<Rightarrow> string" where
  "orAbsent v = (if v = '''' then non2xxAbsent else v)"

definition bodySnippet :: "string \<Rightarrow> string" where
  "bodySnippet body =
     (let s = join_with '' '' (strings_fields body) in
      if s = '''' then non2xxAbsent
      else
        (let s = (if valid_utf8 s then s else to_valid_utf8 s) in
         if length (runes s) \<le> non2xxBodyLimit then s
         else encode_runes (take non2xxBodyLimit (runes s)) @ ellipsis))"

definition non2xxLine :: "request option \<Rightarrow> 'b response \<Rightarrow> string \<Rightarrow> string" where
  "non2xxLine req resp body =
     (let (method, host, path) =
        (case req of
           None \<Rightarrow> (non2xxAbsent, non2xxAbsent, non2xxAbsent)
         | Some q \<Rightarrow>
             (case q_url q of
                None \<Rightarrow> (q_method q, non2xxAbsent, non2xxAbsent)
              | Some u \<Rightarrow> (q_method q, orAbsent (u_host u), orAbsent (u_path u))))
      in ''github non-2xx method='' @ method @ '' host='' @ host @ '' path='' @ path
         @ '' status='' @ itoa (r_status resp)
         @ '' resource='' @ orAbsent (r_header resp ''X-RateLimit-Resource'')
         @ '' remaining='' @ orAbsent (r_header resp ''X-RateLimit-Remaining'')
         @ '' retry_after='' @ orAbsent (r_header resp ''Retry-After'')
         @ '' body='' @ bodySnippet body)"

subsection \<open>The transport\<close>

text \<open>The bytes peeked at, and the body that replaces the one of the response.\<close>

definition peek :: "(nat \<Rightarrow> nat) \<Rightarrow> body \<Rightarrow> (string \<times> reader) option" where
  "peek avail b =
     Option.bind (read_all limited_read avail [] (b, non2xxPeekBytes))
       (\<lambda>((prefix, readErr), (b', N)).
          Some (prefix, PeekedBody prefix (case readErr of None \<Rightarrow> RestBody b' | Some g \<Rightarrow> ErrReader g)))"

definition with_body :: "'b response \<Rightarrow> 'c option \<Rightarrow> 'c response" where
  "with_body resp b = \<lparr>r_status = r_status resp, r_header = r_header resp, r_body = b\<rparr>"

text \<open>The response the caller gets and the lines written.\<close>

definition logNon2xxResponse ::
  "(nat \<Rightarrow> nat) \<Rightarrow> request option \<Rightarrow> body response \<Rightarrow> (reader response \<times> string list) option" where
  "logNon2xxResponse avail req resp =
     (if 200 \<le> r_status resp \<and> r_status resp \<le> 299
      then Some (with_body resp (map_option Original (r_body resp)), [])
      else
        (case r_body resp of
           None \<Rightarrow> Some (with_body resp None, [non2xxLine req resp []])
         | Some b \<Rightarrow>
             Option.bind (peek avail b)
               (\<lambda>(prefix, body). Some (with_body resp (Some body), [non2xxLine req resp prefix]))))"

text \<open>\<open>RoundTrip\<close>: the inner transport first; logging is off when the sink is nil.\<close>

definition RoundTrip ::
  "(nat \<Rightarrow> nat) \<Rightarrow> bool \<Rightarrow> (request \<Rightarrow> ('w, body response option \<times> go_error option) call)
   \<Rightarrow> request \<Rightarrow> ('w, (reader response option \<times> go_error option) \<times> string list) call" where
  "RoundTrip avail log inner req w =
     Option.bind (inner req w)
       (\<lambda>((resp, err), w1).
          let plain = map_option (\<lambda>r. with_body r (map_option Original (r_body r))) resp in
          case (resp, err) of
            (Some r, None) \<Rightarrow>
              if log
              then Option.bind (logNon2xxResponse avail (Some req) r)
                     (\<lambda>(r', ls). Some (((Some r', None), ls), w1))
              else Some (((plain, None), []), w1)
          | _ \<Rightarrow> Some (((plain, err), []), w1))"


subsection \<open>Reading the body back\<close>

fun reader_left :: "reader \<Rightarrow> string" where
  "reader_left (Original b) = bytes b"
| "reader_left (PeekedBody p (RestBody b)) = p @ bytes b"
| "reader_left (PeekedBody p (ErrReader g)) = p"

fun reader_stop :: "reader \<Rightarrow> io_error" where
  "reader_stop (Original b) = stop_with b"
| "reader_stop (PeekedBody p (RestBody b)) = stop_with b"
| "reader_stop (PeekedBody p (ErrReader g)) = Failed g"

lemma take_drop_Suc: "p \<noteq> [] \<Longrightarrow> take (Suc n) p \<noteq> [] \<and> take (Suc n) p @ drop (Suc n) p = p"
  by simp

interpretation reader: io_reader reader_read reader_left reader_stop
proof
  fix n r d r'
  assume rd: "reader_read (Suc n) r = ((d, None), r')"
  show "d \<noteq> [] \<and> reader_left r = d @ reader_left r' \<and> reader_stop r' = reader_stop r"
  proof (cases r)
    case (Original b)
    with rd body.read_more [of n b d] show ?thesis by (auto split: prod.splits)
  next
    case (PeekedBody p q)
    with rd body.read_more [of n _ d] take_drop_Suc [of p n] show ?thesis
      by (cases q) (auto split: prod.splits if_splits)
  qed
next
  fix n r d x r'
  assume rd: "reader_read (Suc n) r = ((d, Some x), r')"
  show "reader_left r = d \<and> reader_stop r = x"
  proof (cases r)
    case (Original b)
    with rd body.read_end [of n b d x] show ?thesis by (auto split: prod.splits)
  next
    case (PeekedBody p q)
    with rd body.read_end [of n _ d x] show ?thesis
      by (cases q) (auto split: prod.splits if_splits)
  qed
qed

text \<open>Peeking returns, keeps at most the limit in memory and changes nothing a reader sees.\<close>

lemma peek_spec:
  obtains new where "peek avail b = Some (take non2xxPeekBytes (bytes b), new)"
    and "reader_left new = bytes b" and "reader_stop new = stop_with b"
proof -
  obtain b' N' where r: "read_all limited_read avail [] (b, non2xxPeekBytes) =
      Some ((take non2xxPeekBytes (bytes b), read_error (limited_stop (b, non2xxPeekBytes))), (b', N'))"
    and b': "bytes b' = drop non2xxPeekBytes (bytes b)" "stop_with b' = stop_with b"
    by (rule read_all_limited)
  show thesis
  proof (cases "limited_stop (b, non2xxPeekBytes)")
    case EOF
    with r b' that [of "PeekedBody (take non2xxPeekBytes (bytes b)) (RestBody b')"] show ?thesis
      by (simp add: peek_def read_error_def)
  next
    case (Failed g)
    then have "length (bytes b) \<le> non2xxPeekBytes" and "stop_with b = Failed g"
      by (auto simp: limited_stop_def split: if_splits)
    with r Failed that [of "PeekedBody (bytes b) (ErrReader g)"] show ?thesis
      by (simp add: peek_def read_error_def)
  qed
qed

lemma logNon2xx_spec:
  obtains out ls where "logNon2xxResponse avail req resp = Some (out, ls)"
    and "r_status out = r_status resp" and "r_header out = r_header resp"
    and "map_option reader_left (r_body out) = map_option bytes (r_body resp)"
    and "map_option reader_stop (r_body out) = map_option stop_with (r_body resp)"
    and "ls = (if 200 \<le> r_status resp \<and> r_status resp \<le> 299 then []
           else [non2xxLine req resp
                  (case r_body resp of None \<Rightarrow> [] | Some b \<Rightarrow> take non2xxPeekBytes (bytes b))])"
proof (cases "r_body resp")
  case None
  then show thesis by (intro that) (auto simp: logNon2xxResponse_def with_body_def)
next
  case (Some b)
  obtain new where "peek avail b = Some (take non2xxPeekBytes (bytes b), new)"
    and "reader_left new = bytes b" and "reader_stop new = stop_with b"
    by (rule peek_spec)
  with Some that [of "with_body resp (Some (if 200 \<le> r_status resp \<and> r_status resp \<le> 299 then Original b else new))"]
  show thesis by (simp add: logNon2xxResponse_def with_body_def)
qed


subsection \<open>What a snippet contains\<close>

text \<open>An ASCII byte of an encoded rune is that rune.\<close>

lemma ascii_byte_of_rune:
  assumes "valid_rune r" and "c \<in> set (encode_valid r)" and "(of_char c :: nat) < 128"
  shows "r = of_char c"
proof -
  from assms(2) obtain x where x: "x \<in> set (encode_bytes r)" "c = char_of x"
    by (auto simp: encode_valid_bytes)
  with encode_bytes_range [OF assms(1)] assms(3) have "x < 128" by simp
  with x show ?thesis by (auto simp: encode_bytes_def split: if_splits)
qed

lemma decoded_ascii:
  assumes "s \<noteq> []" and "decode_rune s = (r, w)" and "c \<in> set (take w s)" and "(of_char c :: nat) < 128"
  shows "r = of_char c"
proof (cases "r = rune_error \<and> w = 1")
  case True
  with assms(1,3) obtain t where s: "s = c # t" by (cases s) auto
  with assms(2,4) decode_rune_ascii [of c t] show ?thesis by simp
next
  case False
  with decode_rune_sound [OF assms(1,2)] assms(3,4) ascii_byte_of_rune [of r c] show ?thesis by simp
qed

text \<open>The white space that would break a line or the columns of the log.\<close>

definition control_space :: "char \<Rightarrow> bool" where
  "control_space c \<longleftrightarrow> (of_char c :: nat) \<in> {9, 10, 11, 12, 13}"

lemma take_word_clean: "take_word s = (u, t) \<Longrightarrow> c \<in> set u \<Longrightarrow> \<not> control_space c"
proof (induction s arbitrary: u rule: take_word.induct)
  case (1 s)
  show ?case
  proof (cases "s = [] \<or> leading_space s \<noteq> None")
    case True
    with "1.prems" show ?thesis by (auto simp: take_word.simps [of s])
  next
    case False
    obtain r w where d: "decode_rune s = (r, w)" by fastforce
    obtain u' t' where w: "take_word (drop w s) = (u', t')" by fastforce
    from False d w "1.prems"(1) have ut: "u = take w s @ u'" "t = t'"
      by (simp_all add: take_word.simps [of s])
    from False d leading_space_decodes [of s] have "r \<notin> set space_runes" by simp
    moreover have "r = of_char c" if "c \<in> set (take w s)" "control_space c"
      using False d that by (intro decoded_ascii [of s r w c]) (auto simp: control_space_def)
    ultimately have "c \<in> set (take w s) \<Longrightarrow> \<not> control_space c"
      by (auto simp: control_space_def space_runes_def)
    moreover have "c \<in> set u' \<Longrightarrow> \<not> control_space c"
      using "1.IH" [OF False d [symmetric]] w ut(2) by blast
    ultimately show ?thesis using "1.prems"(2) ut(1) by auto
  qed
qed

lemma strings_fields_clean: "u \<in> set (strings_fields s) \<Longrightarrow> c \<in> set u \<Longrightarrow> \<not> control_space c"
proof (induction s arbitrary: u rule: strings_fields.induct)
  case (1 s)
  show ?case
  proof (cases "trim_left s = []")
    case True
    with "1.prems" show ?thesis by (simp add: strings_fields.simps [of s])
  next
    case False
    obtain v t where w: "take_word (trim_left s) = (v, t)" by fastforce
    with False "1.prems" have "u = v \<or> u \<in> set (strings_fields t)"
      by (simp add: strings_fields.simps [of s])
    then show ?thesis
      using take_word_clean [OF w] "1.IH" [OF refl False w [symmetric]] "1.prems"(2) by blast
  qed
qed

lemma set_join_with: "c \<in> set (join_with sep us) \<Longrightarrow> c \<in> set sep \<or> (\<exists>u \<in> set us. c \<in> set u)"
  by (induction sep us rule: join_with.induct) auto

lemma collapsed_clean: "c \<in> set (join_with '' '' (strings_fields s)) \<Longrightarrow> \<not> control_space c"
  using set_join_with strings_fields_clean by (fastforce simp: control_space_def)

lemma to_valid_from_spec:
  "valid_utf8 (to_valid_from bad s) \<and> set (to_valid_from bad s) \<subseteq> insert CHR ''?'' (set s)"
proof (induction bad s rule: to_valid_from.induct)
  case (1 bad s)
  show ?case
  proof (cases "s = []")
    case True
    then show ?thesis by (simp add: to_valid_from.simps)
  next
    case False
    obtain r w where d: "decode_rune s = (r, w)" by fastforce
    note eq = to_valid_from.simps [of bad s]
    have sub: "set (drop w s) \<subseteq> set s" "set (take w s) \<subseteq> set s" by (simp_all add: set_drop_subset set_take_subset)
    show ?thesis
    proof (cases "r = rune_error \<and> w = 1")
      case True
      note ih = "1.IH"(1) [OF False d [symmetric] True]
      have "valid_utf8 ''?''" by (intro ascii_valid_utf8) (simp add: ascii_def)
      then have "valid_utf8 (''?'' @ to_valid_from True (drop w s))"
        using ih by (blast intro: valid_utf8_append)
      with False True d sub ih show ?thesis unfolding eq by auto
    next
      case ok: False
      with decode_rune_sound [OF False d] have "valid_rune r" "take w s = encode_valid r" by blast+
      with valid_utf8_encode_valid have "valid_utf8 (take w s @ to_valid_from False (drop w s))
          = valid_utf8 (to_valid_from False (drop w s))" by simp
      with False ok d sub "1.IH"(2) [OF False d [symmetric] ok] show ?thesis
        unfolding eq by auto
    qed
  qed
qed

lemma to_valid_first: "s \<noteq> [] \<Longrightarrow> decode_rune s = (r, w) \<Longrightarrow> w \<noteq> 0"
  using decode_rune_width [of s] by auto

lemma to_valid_utf8_not_Nil: "s \<noteq> [] \<Longrightarrow> to_valid_utf8 s \<noteq> []"
  unfolding to_valid_utf8_def by (subst to_valid_from.simps) (simp split: prod.split add: to_valid_first)

lemma cut_runes:
  assumes "valid_utf8 s"
  shows "set (encode_runes (take n (runes s))) \<subseteq> set s"
    and "runes (encode_runes (take n (runes s))) = take n (runes s)"
proof -
  have "s = encode_runes (take n (runes s) @ drop n (runes s))"
    using encode_runes_runes [OF assms] by simp
  then show "set (encode_runes (take n (runes s))) \<subseteq> set s"
    by (metis encode_runes_simps(3) set_append Un_upper1)
  have "map scalar (runes s) = runes s"
    using runes_encode_runes [of "runes s"] encode_runes_runes [OF assms] by simp
  then show "runes (encode_runes (take n (runes s))) = take n (runes s)"
    by (simp add: runes_encode_runes flip: take_map)
qed

lemma ellipsis_encoded: "encode_runes [0x2026] = ellipsis"
  by (simp add: ellipsis_def encode_rune_def valid_rune_def encode_valid_def char_of_eq_iff)


text \<open>The collapsed body, made valid: what the snippet shows or cuts.\<close>

definition snippet_text :: "string \<Rightarrow> string" where
  "snippet_text b =
     (let s = join_with '' '' (strings_fields b) in if valid_utf8 s then s else to_valid_utf8 s)"

lemma bodySnippet_eq:
  "bodySnippet b =
     (if snippet_text b = [] then non2xxAbsent
      else if length (runes (snippet_text b)) \<le> non2xxBodyLimit then snippet_text b
      else encode_runes (take non2xxBodyLimit (runes (snippet_text b))) @ ellipsis)"
  using to_valid_utf8_not_Nil by (auto simp: bodySnippet_def snippet_text_def Let_def)

lemma snippet_text_valid: "valid_utf8 (snippet_text b)"
  using to_valid_from_spec [of False] by (simp add: snippet_text_def Let_def to_valid_utf8_def)

lemma snippet_text_clean: "c \<in> set (snippet_text b) \<Longrightarrow> \<not> control_space c"
proof -
  let ?j = "join_with '' '' (strings_fields b)"
  have "set (snippet_text b) \<subseteq> insert CHR ''?'' (set ?j)"
    using to_valid_from_spec [of False ?j] by (auto simp: snippet_text_def Let_def to_valid_utf8_def)
  then show "c \<in> set (snippet_text b) \<Longrightarrow> \<not> control_space c"
    using collapsed_clean [of c b] by (auto simp: control_space_def)
qed

lemma bodySnippet_clean: "c \<in> set (bodySnippet b) \<Longrightarrow> \<not> control_space c"
proof -
  have "set (bodySnippet b) \<subseteq> set (snippet_text b) \<union> set ellipsis \<union> set non2xxAbsent"
    using cut_runes(1) [OF snippet_text_valid, of non2xxBodyLimit b] by (auto simp: bodySnippet_eq)
  moreover have "\<forall>c \<in> set ellipsis \<union> set non2xxAbsent. \<not> control_space c"
    by (simp add: ellipsis_def non2xxAbsent_def control_space_def)
  ultimately show "c \<in> set (bodySnippet b) \<Longrightarrow> \<not> control_space c" using snippet_text_clean by blast
qed

lemma cut_text:
  "encode_runes (take n (runes s)) @ ellipsis = encode_runes (take n (runes s) @ [0x2026])"
  by (simp add: ellipsis_encoded [symmetric])

subsection \<open>What the transport promises\<close>

text \<open>What a caller that reads the whole body sees, with buffers of any size.\<close>

definition body_seen :: "(nat \<Rightarrow> nat) \<Rightarrow> reader response \<Rightarrow> (string \<times> go_error option) option option" where
  "body_seen av r = map_option (\<lambda>b. map_option fst (read_all reader_read av [] b)) (r_body r)"

lemma body_seen_left:
  "body_seen av r = map_option (\<lambda>b. Some (reader_left b, read_error (reader_stop b))) (r_body r)"
proof (cases "r_body r")
  case (Some b)
  with reader.read_all_returns [of av "[]" b] show ?thesis by (auto simp: body_seen_def)
qed (simp add: body_seen_def)

text \<open>
  C36: The logging transport is transparent. When the inner transport returns, so does
  \<open>RoundTrip\<close>, with the same error and a response of the same status, the same headers and
  a body that reads, in reads of any sizes, as the original one: the same bytes in the same
  order and the same error at the end, even when reading the first bytes for the log failed.
  It writes exactly one line if the sink is set, there is a response, there is no error and
  the status is outside 200 to 299, and none otherwise.
\<close>

theorem RoundTrip_transparent:
  assumes "inner req w = Some ((resp, err), w')"
  shows "\<exists>out ls. RoundTrip avail log inner req w = Some (((out, err), ls), w')
    \<and> (case (resp, out) of
         (None, None) \<Rightarrow> True
       | (Some r, Some r') \<Rightarrow> r_status r' = r_status r \<and> r_header r' = r_header r
           \<and> body_seen av r'
             = map_option (\<lambda>b. Some (bytes b, read_error (stop_with b))) (r_body r)
       | _ \<Rightarrow> False)
    \<and> length ls = (case (resp, err) of
         (Some r, None) \<Rightarrow> if log \<and> (r_status r < 200 \<or> 299 < r_status r) then 1 else 0
       | _ \<Rightarrow> 0)"
proof (cases "err = None \<and> log \<and> resp \<noteq> None")
  case True
  then obtain r where r: "resp = Some r" "err = None" log by auto
  obtain out ls where l: "logNon2xxResponse avail (Some req) r = Some (out, ls)"
    "r_status out = r_status r" "r_header out = r_header r"
    "map_option reader_left (r_body out) = map_option bytes (r_body r)"
    "map_option reader_stop (r_body out) = map_option stop_with (r_body r)"
    "ls = (if 200 \<le> r_status r \<and> r_status r \<le> 299 then []
           else [non2xxLine (Some req) r
                  (case r_body r of None \<Rightarrow> [] | Some b \<Rightarrow> take non2xxPeekBytes (bytes b))])"
    by (rule logNon2xx_spec)
  have "body_seen av out = map_option (\<lambda>b. Some (bytes b, read_error (stop_with b))) (r_body r)"
    using l(4,5) by (cases "r_body out"; cases "r_body r") (simp_all add: body_seen_left)
  with assms r l(1,2,3,6) show ?thesis by (auto simp: RoundTrip_def)
next
  case False
  then show ?thesis
    using assms by (cases resp; cases err)
      (auto simp: RoundTrip_def with_body_def body_seen_left option.map_comp comp_def)
qed

definition example_forbidden :: "body response" where
  "example_forbidden = \<lparr>r_status = 403, r_header = (\<lambda>k. if k = ''Retry-After'' then ''60'' else ''''),
     r_body = Some \<lparr>bytes = ''slow down'', stop_with = Failed (NewError ''reset''), eager = True, pace = (\<lambda>n. 3)\<rparr>\<rparr>"

definition example_request :: request where
  "example_request = \<lparr>q_method = ''GET'', q_url = Some \<lparr>u_user = ''secret'', u_host = ''api.github.com'',
     u_path = ''/search/issues'', u_query = ''q=x''\<rparr>, q_header = (\<lambda>k. '''')\<rparr>"

theorem RoundTrip_transparent_witness:
  "\<exists>out l. RoundTrip (\<lambda>n. 511) True (\<lambda>q (w :: nat). Some ((Some example_forbidden, None), Suc w)) example_request 0
       = Some (((Some out, None), [l]), 1)
     \<and> body_seen (\<lambda>n. 0) out = Some (Some (''slow down'', Some (NewError ''reset'')))"
proof -
  let ?inner = "\<lambda>q (w :: nat). Some ((Some example_forbidden, None :: go_error option), Suc w)"
  have i: "?inner example_request 0 = Some ((Some example_forbidden, None), 1)" by simp
  have f: "r_status example_forbidden = 403" "map_option (\<lambda>b. Some (bytes b, read_error (stop_with b)))
      (r_body example_forbidden) = Some (Some (''slow down'', Some (NewError ''reset'')))"
    by (simp_all add: example_forbidden_def read_error_def)
  from RoundTrip_transparent [where inner = ?inner and req = example_request and avail = "\<lambda>n. 511" and log = True and av = "\<lambda>n. 0", OF i]
  obtain o' ls where o: "RoundTrip (\<lambda>n. 511) True ?inner example_request 0 = Some (((o', None), ls), 1)"
    and c: "case (Some example_forbidden, o') of (None, None) \<Rightarrow> True
       | (Some r, Some r') \<Rightarrow> r_status r' = r_status r \<and> r_header r' = r_header r
           \<and> body_seen (\<lambda>n. 0) r' = map_option (\<lambda>b. Some (bytes b, read_error (stop_with b))) (r_body r)
       | _ \<Rightarrow> False"
    and l: "length ls = (case (Some example_forbidden, None :: go_error option) of
         (Some r, None) \<Rightarrow> if True \<and> (r_status r < 200 \<or> 299 < r_status r) then 1 else 0
       | _ \<Rightarrow> 0)"
    by (elim exE conjE)
  from c obtain out where out: "o' = Some out" by (cases o') simp_all
  with c f(2) have "body_seen (\<lambda>n. 0) out = Some (Some (''slow down'', Some (NewError ''reset'')))" by simp
  moreover from l f(1) obtain l1 where "ls = [l1]" by (auto simp: length_Suc_conv)
  ultimately show ?thesis using o out by auto
qed

text \<open>
  The body snippet of a log line is never empty, always valid UTF-8, never longer than
  200 characters and a closing ellipsis, ends with the ellipsis whenever characters were
  cut, and contains no line break, tab, vertical tab or form feed, whatever bytes the
  response holds.
\<close>

lemma bodySnippet_bounds:
  "bodySnippet b \<noteq> [] \<and> valid_utf8 (bodySnippet b)
   \<and> length (runes (bodySnippet b)) \<le> 201
   \<and> (length (runes (bodySnippet b)) = 201 \<longrightarrow> has_suffix (bodySnippet b) ellipsis)
   \<and> (\<forall>c \<in> set (bodySnippet b). \<not> control_space c)"
proof -
  let ?t = "snippet_text b"
  have clean: "\<forall>c \<in> set (bodySnippet b). \<not> control_space c" using bodySnippet_clean by blast
  consider "?t = []" | "?t \<noteq> []" "length (runes ?t) \<le> 200" | "?t \<noteq> []" "200 < length (runes ?t)" by linarith
  then show ?thesis
  proof cases
    case 1
    have "ascii ''absent''" by simp
    with 1 clean show ?thesis
      by (simp add: bodySnippet_eq non2xxAbsent_def ascii_valid_utf8 runes_ascii)
  next
    case 2
    with clean snippet_text_valid show ?thesis by (auto simp: bodySnippet_eq non2xxBodyLimit_def)
  next
    case 3
    let ?cut = "encode_runes (take 200 (runes ?t)) @ ellipsis"
    have b: "bodySnippet b = ?cut" using 3 by (simp add: bodySnippet_eq non2xxBodyLimit_def)
    have "length (runes ?cut) \<le> 201" unfolding cut_text by (simp only: runes_encode_runes) simp
    moreover have "valid_utf8 ?cut" unfolding cut_text by (rule valid_utf8_encode_runes)
    moreover have "?cut \<noteq> []" by (simp add: ellipsis_def)
    ultimately show ?thesis using clean unfolding b by (auto simp: has_suffix_iff)
  qed
qed

lemma bodySnippet_bounds_witness:
  "bodySnippet ''a'' \<noteq> [] \<and> valid_utf8 (bodySnippet ''a'') \<and> length (runes (bodySnippet ''a'')) \<le> 201"
  using bodySnippet_bounds [of "''a''"] by blast


text \<open>The parts of a request and of the response headers a log line shows.\<close>

definition shown :: "request \<Rightarrow> string \<times> (string \<times> string) option" where
  "shown q = (q_method q, map_option (\<lambda>u. (u_host u, u_path u)) (q_url q))"

definition shown_strings :: "request \<Rightarrow> 'b response \<Rightarrow> string list" where
  "shown_strings q resp =
     q_method q # (case q_url q of None \<Rightarrow> [] | Some u \<Rightarrow> [u_host u, u_path u])
     @ map (r_header resp) [''X-RateLimit-Resource'', ''X-RateLimit-Remaining'', ''Retry-After'']"

definition clean :: "string \<Rightarrow> bool" where
  "clean s \<longleftrightarrow> (\<forall>c \<in> set s. \<not> control_space c)"

lemma clean_append: "clean (s @ t) \<longleftrightarrow> clean s \<and> clean t"
  by (auto simp: clean_def)

lemma clean_itoa: "clean (itoa i)"
  unfolding clean_def
proof
  fix c
  assume "c \<in> set (itoa i)"
  then have "is_digit c \<or> c = CHR ''-''" by (rule itoa_chars)
  then show "\<not> control_space c" by (elim disjE) (auto simp: is_digit_def control_space_def)
qed

lemma clean_absent: "clean non2xxAbsent"
  by (simp add: clean_def non2xxAbsent_def control_space_def)

lemma clean_orAbsent: "clean v \<Longrightarrow> clean (orAbsent v)"
  by (simp add: orAbsent_def clean_absent)

lemma clean_labels:
  "clean ''github non-2xx method=''" "clean '' host=''" "clean '' path=''" "clean '' status=''"
  "clean '' resource=''" "clean '' remaining=''" "clean '' retry_after=''" "clean '' body=''"
  by (simp_all add: clean_def control_space_def)

lemma clean_snippet: "clean (bodySnippet b)"
  unfolding clean_def by (intro ballI) (rule bodySnippet_clean)

lemmas clean_parts = clean_append clean_itoa clean_absent clean_orAbsent clean_labels clean_snippet

text \<open>
  C37: A log line shows the method, host and path of the request and nothing else of it: two
  requests that agree on these give the same line, whatever user info, query and headers
  they carry. When these parts and the three rate-limit headers hold no line break or other
  control space, the whole line has none, whatever the body is.
\<close>

theorem non2xxLine_private:
  assumes "shown q' = shown q"
    and "\<forall>s \<in> set (shown_strings q resp). clean s"
  shows "non2xxLine (Some q') resp b = non2xxLine (Some q) resp b \<and> clean (non2xxLine (Some q) resp b)"
proof
  show "non2xxLine (Some q') resp b = non2xxLine (Some q) resp b"
    using assms(1) by (cases "q_url q"; cases "q_url q'") (auto simp: non2xxLine_def shown_def)
  show "clean (non2xxLine (Some q) resp b)"
  proof -
    have m: "clean (q_method q)"
      and h: "\<forall>k \<in> {''X-RateLimit-Resource'', ''X-RateLimit-Remaining'', ''Retry-After''}. clean (r_header resp k)"
      and u: "\<forall>u. q_url q = Some u \<longrightarrow> clean (u_host u) \<and> clean (u_path u)"
      using assms(2) by (auto simp: shown_strings_def)
    have "clean (r_header resp ''X-RateLimit-Resource'')" "clean (r_header resp ''X-RateLimit-Remaining'')"
      "clean (r_header resp ''Retry-After'')" using h by blast+
    note hs = this
    show ?thesis
    proof (cases "q_url q")
      case None
      show ?thesis by (simp only: non2xxLine_def None option.case Let_def prod.case clean_parts m hs simp_thms)
    next
      case (Some v)
      with u have "clean (u_host v)" "clean (u_path v)" by blast+
      then show ?thesis by (simp only: non2xxLine_def Some option.case Let_def prod.case clean_parts m hs simp_thms)
    qed
  qed
qed

theorem non2xxLine_private_witness:
  "non2xxLine (Some (example_request\<lparr>q_url := Some \<lparr>u_user = '''', u_host = ''api.github.com'',
       u_path = ''/search/issues'', u_query = ''q=y''\<rparr>\<rparr>)) example_forbidden ''denied''
     = non2xxLine (Some example_request) example_forbidden ''denied''"
proof -
  let ?q = "example_request\<lparr>q_url := Some \<lparr>u_user = '''', u_host = ''api.github.com'',
       u_path = ''/search/issues'', u_query = ''q=y''\<rparr>\<rparr>"
  have "shown ?q = shown example_request" by (simp add: shown_def example_request_def)
  moreover have "\<forall>s \<in> set (shown_strings example_request example_forbidden). clean s"
    by (simp add: clean_def shown_strings_def example_request_def example_forbidden_def control_space_def)
  ultimately show ?thesis using non2xxLine_private [of ?q example_request example_forbidden "''denied''"] by blast
qed

end
