(* ===== verification/Deployment.thy ===== *)
theory Deployment
  imports App Trigger Mem_DB Non2xx_Log
begin

text \<open>
  What \<open>Run\<close> starts: \<open>pkg/factory/factory.go\<close> and the constructors it calls
  (\<open>NewGitHubClient\<close>, \<open>NewWatcher\<close>, \<open>NewTriggerCommandExecutor\<close>), the routes of the HTTP
  server and the three functions that run beside each other. The libraries behind them, which
  are not under \<open>src/\<close>, are the fields of an \<open>environment\<close>.
\<close>

subsection \<open>The GitHub client\<close>

text \<open>
  A transport answers a request with a response whose body is the one of the connection. A
  \<open>logged\<close> transport is one that was wrapped; go-github gets it, or nothing when there is no
  HTTP client.
\<close>

type_synonym 'w transport = "request \<Rightarrow> ('w, body response option \<times> go_error option) call"

type_synonym 'w logged = "request \<Rightarrow> ('w, (reader response option \<times> go_error option) \<times> string list) call"

record 'w http_client =
  Transport :: "'w transport option"

record 'w http_library =
  DefaultTransport :: "'w transport"
  free_capacity :: "nat \<Rightarrow> nat"
  gogithub_NewClient :: "'w logged option \<Rightarrow> 'w gogithub"

definition logged_transport :: "'w http_library \<Rightarrow> 'w http_client \<Rightarrow> 'w logged" where
  "logged_transport lib c =
     (let inner = (case Transport c of None \<Rightarrow> DefaultTransport lib | Some t \<Rightarrow> t)
      in RoundTrip (free_capacity lib) True inner)"

definition NewGitHubClient :: "'w http_library \<Rightarrow> 'w http_client option \<Rightarrow> 'w GitHubClient" where
  "NewGitHubClient lib httpClient =
     githubClient (gogithub_NewClient lib (map_option (logged_transport lib) httpClient))"

subsection \<open>The watcher and the command executor\<close>

text \<open>
  The senders of the libraries over the sync producer of the process: a sender of command
  objects for a topic prefix, and one of create-task commands on top of it.
\<close>

record ('w, 'o) kafka_library =
  NewCommandObjectSender :: "string \<Rightarrow> 'o"
  NewCreateCommandSender :: "'o \<Rightarrow> string \<Rightarrow> CreateCommand \<Rightarrow> ('w, go_error option) call"

definition CreateKafkaSender ::
  "('w, 'o) kafka_library \<Rightarrow> string \<Rightarrow> CreateCommand \<Rightarrow> ('w, go_error option) call"
where
  "CreateKafkaSender lib topicPrefix =
     (let sender = NewCommandObjectSender lib topicPrefix
      in NewCreateCommandSender lib sender '''')"

text \<open>
  The surroundings of the watcher and of the executor: the context, the disk, the UUID hash,
  the YAML and time codecs, the decoder of command payloads, the URL parser, the check
  wrapper, the clock, the senders and the zero value of the kv library's statistics.
\<close>

record ('w, 'd, 'o, 'k) environment =
  e_http :: "'w http_library"
  e_Done :: "'w \<Rightarrow> bool \<times> 'w"
  e_Disk :: "'w \<Rightarrow> disk_faults \<times> 'w"
  e_uuid :: uuid_fun
  e_yaml :: yaml_fun
  e_codec :: time_codec
  e_MarshalInto :: "'d \<Rightarrow> go_error + TriggerCommand"
  e_ParsePRURL :: "string \<Rightarrow> go_error + PRInfo"
  e_PlatformGitHub :: string
  e_named_check :: "go_error option \<Rightarrow> go_error option"
  e_Now :: "'w \<Rightarrow> datetime \<times> 'w"
  e_kafka :: "('w, 'o) kafka_library"
  e_kv_stats :: 'k

definition NewWatcher ::
  "('w, 'd, 'o, 'k) environment \<Rightarrow> 'w GitHubClient \<Rightarrow> (CreateCommand \<Rightarrow> ('w, go_error option) call)
   \<Rightarrow> string \<Rightarrow> datetime \<Rightarrow> string \<Rightarrow> TaskCreationFilter \<Rightarrow> TaskConfig \<Rightarrow> 'w watcher"
where
  "NewWatcher env gh createSender path start scope filt cfg =
     \<lparr>ghClient = gh, SendCommand = createSender, cursorPath = path, startTime = start, w_scope = scope,
      scopeFilter = filt, w_cfg = cfg, ctx_Done = e_Done env, Disk = e_Disk env, uuid5 = e_uuid env,
      yaml_unmarshal = e_yaml env, codec = e_codec env\<rparr>"

definition CreateWatcher ::
  "('w, 'd, 'o, 'k) environment \<Rightarrow> 'w GitHubClient \<Rightarrow> (CreateCommand \<Rightarrow> ('w, go_error option) call)
   \<Rightarrow> string \<Rightarrow> datetime \<Rightarrow> string \<Rightarrow> TaskCreationFilter \<Rightarrow> TaskConfig \<Rightarrow> 'w watcher"
where
  "CreateWatcher env gh createSender path start scope filt cfg =
     NewWatcher env gh createSender path start scope filt cfg"

text \<open>
  An executor of the command framework: the operation it answers to, whether results are
  sent, and the handler, a function literal, which is what it captures and \<open>runTrigger\<close>.
\<close>

record ('w, 'd) executor =
  ex_Operation :: string
  ex_SendResultEnabled :: bool
  ex_captured :: "('w, 'd) trigger"

definition ex_Handle :: "('w, 'd) executor \<Rightarrow> 'd \<Rightarrow> ('w wstate, go_error option) call" where
  "ex_Handle ex = runTrigger (ex_captured ex)"

definition TriggerCommandOperation :: string where
  "TriggerCommandOperation = ''trigger''"

definition trigger_of ::
  "('w, 'd, 'o, 'k) environment \<Rightarrow> 'w GitHubClient \<Rightarrow> (CreateCommand \<Rightarrow> ('w, go_error option) call)
   \<Rightarrow> TaskConfig \<Rightarrow> ('w, 'd) trigger"
where
  "trigger_of env gh createSender taskCfg =
     \<lparr>t_ghClient = gh, t_SendCommand = createSender, t_cfg = taskCfg, t_uuid = e_uuid env, t_yaml = e_yaml env,
      MarshalInto = e_MarshalInto env, ParsePRURL = e_ParsePRURL env, PlatformGitHub = e_PlatformGitHub env,
      named_check = e_named_check env, Now = e_Now env\<rparr>"

definition NewTriggerCommandExecutor ::
  "('w, 'd, 'o, 'k) environment \<Rightarrow> 'w GitHubClient \<Rightarrow> (CreateCommand \<Rightarrow> ('w, go_error option) call)
   \<Rightarrow> TaskConfig \<Rightarrow> ('w, 'd) executor"
where
  "NewTriggerCommandExecutor env gh createSender taskCfg =
     \<lparr>ex_Operation = TriggerCommandOperation, ex_SendResultEnabled = False,
      ex_captured = trigger_of env gh createSender taskCfg\<rparr>"

text \<open>
  What \<open>CreateCommandConsumer\<close> hands to \<open>RunCommandConsumerTxDefault\<close>: the store of the
  offsets, whether unsupported commands are ignored, and the executors.
\<close>

record ('w, 'd, 'k) consumer =
  c_db :: "'k memDB"
  c_ignoreUnsupported :: bool
  c_executors :: "('w, 'd) executor list"

definition CreateCommandConsumer ::
  "('w, 'd, 'o, 'k) environment \<Rightarrow> 'k memDB \<Rightarrow> 'w GitHubClient \<Rightarrow> (CreateCommand \<Rightarrow> ('w, go_error option) call)
   \<Rightarrow> TaskConfig \<Rightarrow> ('w, 'd, 'k) consumer"
where
  "CreateCommandConsumer env db gh createSender taskCfg =
     \<lparr>c_db = db, c_ignoreUnsupported = False,
      c_executors = [NewTriggerCommandExecutor env gh createSender taskCfg]\<rparr>"

subsection \<open>The HTTP server\<close>

datatype handler =
    PrintOK
  | PrometheusMetrics
  | SetLogLevel
  | RunInBackground

text \<open>The routes of \<open>createHTTPServer\<close>, by their path templates; no route names a method.\<close>

definition http_routes :: "(string \<times> handler) list" where
  "http_routes =
     [(''/healthz'', PrintOK), (''/readiness'', PrintOK), (''/metrics'', PrometheusMetrics),
      (''/setloglevel/{level}'', SetLogLevel), (''/check'', RunInBackground)]"

subsection \<open>A deployment\<close>

text \<open>
  The three functions of \<open>Run\<close>: the poll loop over the watcher with its interval, the HTTP
  server whose \<open>/check\<close> polls the same watcher, and the command consumer. All share the
  client, the sender and the counters.
\<close>

record ('w, 'd, 'k) deployment =
  dp_watcher :: "'w watcher"
  dp_interval :: int
  dp_metrics :: prometheusMetrics
  dp_routes :: "(string \<times> handler) list"
  dp_consumer :: "('w, 'd, 'k) consumer"

definition assemble :: "('w, 'd, 'o, 'k) environment \<Rightarrow> 'w http_client wiring \<Rightarrow> ('w, 'd, 'k) deployment" where
  "assemble env x =
     (let gh = NewGitHubClient (e_http env) (Some (wr_client x));
          createSender = CreateKafkaSender (e_kafka env) (wr_topicPrefix x);
          w = CreateWatcher env gh createSender (wr_cursorPath x) (wr_startTime x) (wr_scope x)
                (wr_scopeFilter x) (wr_taskCfg x);
          commandConsumer = CreateCommandConsumer env (NewMemDB (e_kv_stats env)) gh createSender (wr_taskCfg x)
      in \<lparr>dp_watcher = w, dp_interval = wr_interval x, dp_metrics = wr_metrics x, dp_routes = http_routes,
          dp_consumer = commandConsumer\<rparr>)"

text \<open>\<open>Run\<close>, up to the point where the three functions are started.\<close>

definition Run ::
  "'w http_client platform \<Rightarrow> ('w, 'd, 'o, 'k) environment \<Rightarrow> application \<Rightarrow> registries
   \<Rightarrow> ((go_error + ('w, 'd, 'k) deployment) \<times> registries) option"
where
  "Run p env a regs =
     map_option (\<lambda>(r, regs'). (map_sum id (assemble env) r, regs')) (wire p a regs)"


lemma Run_InrD:
  assumes "Run p env a regs = Some (Inr d, regs')"
  obtains x where "wire p a regs = Some (Inr x, regs')" and "d = assemble env x"
proof -
  from assms obtain r where w: "wire p a regs = Some (r, regs')" and r: "map_sum id (assemble env) r = Inr d"
    by (auto simp: Run_def)
  from r obtain x where "r = Inr x" "d = assemble env x" by (cases r) auto
  with w that show thesis by blast
qed

lemma assemble_simps [simp]:
  "w_cfg (dp_watcher (assemble env x)) = wr_taskCfg x"
  "w_scope (dp_watcher (assemble env x)) = wr_scope x"
  "dp_interval (assemble env x) = wr_interval x"
  "c_executors (dp_consumer (assemble env x)) =
     [NewTriggerCommandExecutor env (ghClient (dp_watcher (assemble env x)))
        (SendCommand (dp_watcher (assemble env x))) (wr_taskCfg x)]"
  "uuid5 (dp_watcher (assemble env x)) = e_uuid env"
  by (simp_all add: assemble_def CreateWatcher_def NewWatcher_def CreateCommandConsumer_def Let_def)

lemma wire_slug_limit: "wire p a regs = Some (Inr x, regs') \<Longrightarrow> 0 \<le> cfg_MaxSlugLen (wr_taskCfg x)"
  using wire_InrD(1,7) [of p a regs x regs'] by (simp add: validateConfig_None_iff)

subsection \<open>A trigger returns\<close>

lemma publishCreateCommand_returns:
  assumes "0 \<le> cfg_MaxSlugLen (t_cfg t)" and "\<And>cmd wd. t_SendCommand t cmd wd \<noteq> None"
  shows "publishCreateCommand t prInfo cmd details result s \<noteq> None"
proof -
  obtain tid wd where i: "trigger_task_id t prInfo cmd details result (world s) = (tid, wd)" by fastforce
  from BuildCreateCommand_defined [OF assms(1)] obtain c
    where c: "BuildCreateCommand (trigger_pr prInfo cmd details) details tid (t_cfg t) (MatchedSpecs result) = Some c"
    by blast
  from assms(2) obtain err wd' where "t_SendCommand t c wd = Some (err, wd')"
    by (metis not_None_eq surj_pair)
  with i c show ?thesis by (cases err) (simp_all add: publishCreateCommand_def Let_def)
qed

lemma runTrigger_returns:
  assumes "0 \<le> cfg_MaxSlugLen (t_cfg t)" and "\<And>cmd wd. t_SendCommand t cmd wd \<noteq> None"
    and "reads_return (t_ghClient t)"
    and "\<And>owner repo number wd. GetPRDetails (t_ghClient t) owner repo number wd \<noteq> None"
  shows "runTrigger t data s \<noteq> None"
proof -
  have e: "Evaluate y (t_ghClient t) inp wd \<noteq> None" for y inp wd
    by (rule Evaluate_returns [OF assms(3)])
  have pub: "publishCreateCommand t prInfo cmd details result s \<noteq> None" for prInfo cmd details result s
    by (rule publishCreateCommand_returns [OF assms(1,2)])
  show ?thesis
    unfolding runTrigger_def Let_def by (intro returns assms(4) e pub)
qed

subsection \<open>What a deployment promises\<close>

text \<open>
  C16: A deployment that starts keeps running. When its configuration passes the start-up
  checks and its interval is positive, the calls to GitHub and Kafka return and every search
  ends, the poll loop survives any number of ticks without a panic and is still running
  after them, and the one command executor, registered for the trigger operation, returns
  for every payload in every state.
\<close>

theorem deployment_survives:
  assumes "Run p env a regs = Some (Inr d, regs')" and "0 < dp_interval d"
    and "calls_return (dp_watcher d)"
    and "\<And>since wd. (\<exists>chunks wd'. served (search_fetch (dp_watcher d) since) 1 wd chunks wd')
      \<or> (\<exists>e wd'. broken (search_fetch (dp_watcher d) since) 1 wd e wd')"
  shows "\<exists>s'. runPollLoop (Poll (dp_watcher d)) (dp_interval d) (replicate n Tick) s = Some (Running, s')
    \<and> (\<exists>ex. c_executors (dp_consumer d) = [ex] \<and> ex_Operation ex = ''trigger''
        \<and> (\<exists>r s2. ex_Handle ex data s = Some (r, s2)))"
proof -
  from assms(1) obtain x where x: "wire p a regs = Some (Inr x, regs')" "d = assemble env x" by (rule Run_InrD)
  have slug: "0 \<le> cfg_MaxSlugLen (w_cfg (dp_watcher d))" using wire_slug_limit [OF x(1)] by (simp add: x(2))
  have "\<exists>s'. polls (dp_watcher d) n s = Some s'"
    by (rule polls_defined) (rule Poll_defined [OF assms(3) slug assms(4)])
  then obtain s' where "runPollLoop (Poll (dp_watcher d)) (dp_interval d) (replicate n Tick) s = Some (Running, s')"
    using assms(2) poll_ticks_polls [of "dp_watcher d" n "[]" s] by (auto simp: runPollLoop_def)
  moreover let ?t = "trigger_of env (ghClient (dp_watcher d)) (SendCommand (dp_watcher d)) (wr_taskCfg x)"
  have "runTrigger ?t data s \<noteq> None"
    by (rule runTrigger_returns) (use slug assms(3) in \<open>simp_all add: trigger_of_def calls_return_def x(2)\<close>)
  ultimately show ?thesis
    by (auto simp: x(2) NewTriggerCommandExecutor_def TriggerCommandOperation_def ex_Handle_def)
qed


definition example_github :: "unit gogithub" where
  "example_github =
     \<lparr>Search_Issues = (\<lambda>query page perPage w. Some (Inr ([], \<lparr>resp_NextPage = 0, resp_Rate_Remaining = 30,
        resp_Rate_Reset = 0\<rparr>), w)),
      Get_Pull = (\<lambda>owner repo number w. Some (Inl (NewError ''unavailable''), w)),
      List_Files = (\<lambda>owner repo number page perPage w. Some (Inl (NewError ''unavailable''), w)),
      Get_Contents = (\<lambda>owner repo path ref w. Some (Inl (NewError ''unavailable''), w)),
      Format_RFC3339 = (\<lambda>t. ''1970-01-01T00:00:00Z'')\<rparr>"

definition example_environment :: "(unit, TriggerCommand, unit, unit) environment" where
  "example_environment =
     \<lparr>e_http = \<lparr>DefaultTransport = (\<lambda>q w. Some ((None, Some (NewError ''offline'')), w)),
        free_capacity = (\<lambda>n. 511), gogithub_NewClient = (\<lambda>t. example_github)\<rparr>,
      e_Done = (\<lambda>w. (False, w)), e_Disk = (\<lambda>w. (no_faults, w)), e_uuid = (\<lambda>ns k. k),
      e_yaml = example_yaml, e_codec = example_codec, e_MarshalInto = Inr,
      e_ParsePRURL = (\<lambda>url. Inl (NewError ''no pull request'')), e_PlatformGitHub = ''github'',
      e_named_check = (\<lambda>e. e), e_Now = (\<lambda>w. (0, w)),
      e_kafka = \<lparr>NewCommandObjectSender = (\<lambda>prefix. ()),
        NewCreateCommandSender = (\<lambda>sender schema cmd w. Some (None, w))\<rparr>, e_kv_stats = ()\<rparr>"

lemma example_run:
  obtains d regs' where "Run (example_platform \<lparr>Transport = None\<rparr>) example_environment example_application (\<lambda>_. [])
      = Some (Inr d, regs')"
    and "dp_interval d = 300000000000" and "ghClient (dp_watcher d) = githubClient example_github"
    and "SendCommand (dp_watcher d) = (\<lambda>cmd w. Some (None, w))"
    and "ctx_Done (dp_watcher d) = (\<lambda>w. (False, w))"
proof -
  have e: "example_application\<lparr>a_PollInterval := ''5m''\<rparr> = example_application"
    by (simp add: example_application_def)
  from example_wiring [where c = "\<lparr>Transport = None\<rparr> :: unit http_client" and i = "''5m''"] obtain x regs' where
    w: "wire (example_platform (\<lparr>Transport = None\<rparr> :: unit http_client)) example_application (\<lambda>_. []) = Some (Inr x, regs')"
    and i: "wr_interval x = 300000000000"
    unfolding e by auto
  show thesis
  proof (rule that)
    show "Run (example_platform \<lparr>Transport = None\<rparr>) example_environment example_application (\<lambda>_. [])
        = Some (Inr (assemble example_environment x), regs')"
      by (simp add: Run_def w)
    show "dp_interval (assemble example_environment x) = 300000000000" by (simp add: i)
  qed (simp_all add: assemble_def CreateWatcher_def NewWatcher_def NewGitHubClient_def example_environment_def CreateKafkaSender_def Let_def)
qed

lemma example_files: "list_files_loop example_github owner repo number page files w \<noteq> None"
  by (subst list_files_loop.simps) (simp add: example_github_def)

lemma example_github_returns: "reads_return (githubClient example_github)"
  using example_files
  by (simp add: reads_return_def githubClient_def client_ListPRFiles_def client_GetContent_def client_ListDir_def
      del: not_None_eq) (simp add: example_github_def)

lemma example_search:
  assumes "ghClient w = githubClient example_github" and "ctx_Done w = (\<lambda>w. (False, w))"
  shows "served (search_fetch w since) 1 wd [[]] wd"
proof (rule last_page)
  have "SearchPRs (ghClient w) = client_SearchPRs example_github" by (simp add: assms(1) githubClient_def)
  moreover have "client_SearchPRs example_github scope since 1 wd = Some (Inr \<lparr>PullRequests = [],
      HasNextPage = False, NextPage = 0, RateRemaining = 30, RateResetAt = 0\<rparr>, wd)" for scope
    by (simp add: client_SearchPRs_def) (simp add: example_github_def)
  ultimately show "search_fetch w since 1 wd = Some (Inr ([], None), wd)"
    by (simp add: search_fetch_def assms(2))
qed

theorem deployment_survives_witness:
  "\<exists>d regs' s'. Run (example_platform \<lparr>Transport = None\<rparr>) example_environment example_application (\<lambda>_. [])
      = Some (Inr d, regs')
    \<and> runPollLoop (Poll (dp_watcher d)) (dp_interval d) (replicate 7 Tick) example_state = Some (Running, s')"
proof -
  obtain d regs' where d: "Run (example_platform \<lparr>Transport = None\<rparr>) example_environment example_application (\<lambda>_. [])
      = Some (Inr d, regs')" and i: "dp_interval d = 300000000000"
    and g: "ghClient (dp_watcher d) = githubClient example_github" "SendCommand (dp_watcher d) = (\<lambda>cmd w. Some (None, w))"
      "ctx_Done (dp_watcher d) = (\<lambda>w. (False, w))"
    by (rule example_run)
  have "calls_return (dp_watcher d)"
    using example_github_returns
    by (simp add: calls_return_def g) (simp add: githubClient_def client_GetPRDetails_def example_github_def)
  moreover have "\<exists>chunks wd'. served (search_fetch (dp_watcher d) since) 1 wd chunks wd'" for since wd
    using example_search [OF g(1) g(3)] by blast
  ultimately show ?thesis
    using deployment_survives [OF d, of 7 example_state] d i by auto
qed

text \<open>
  C31: The configured scope cannot widen the search. In every deployment that starts, the
  query sent to GitHub is five terms: open pull requests, not archived, of exactly the
  configured user, updated since the watermark; no scope that passes the start-up checks
  smuggles in another qualifier. (A formatted time holds no space.)
\<close>

theorem scope_is_one_qualifier:
  assumes "Run p env a regs = Some (Inr d, regs')" and "CHR '' '' \<notin> set (Format_RFC3339 api since)"
  shows "split_on CHR '' '' (search_query api (w_scope (dp_watcher d)) since)
    = [''is:pr'', ''is:open'', ''archived:false'', ''user:'' @ a_RepoScope a,
       ''updated:>='' @ Format_RFC3339 api since]"
proof -
  from assms(1) obtain x where x: "wire p a regs = Some (Inr x, regs')" "d = assemble env x" by (rule Run_InrD)
  have "list_all scope_char (a_RepoScope a)"
    using wire_InrD(1) [OF x(1)] by (simp add: validateConfig_None_iff repoScopePattern_MatchString_def)
  moreover have "\<not> scope_char CHR '' ''" by (simp add: scope_char_def lower_char_def is_digit_def)
  ultimately have s: "CHR '' '' \<notin> set (''user:'' @ a_RepoScope a)" by (auto simp: list_all_iff)
  have q: "search_query api (w_scope (dp_watcher d)) since =
      ''is:pr'' @ CHR '' '' # ''is:open'' @ CHR '' '' # ''archived:false'' @ CHR '' '' #
      (''user:'' @ a_RepoScope a) @ CHR '' '' # (''updated:>='' @ Format_RFC3339 api since)"
    using wire_InrD(4) [OF x(1)] by (simp add: search_query_def x(2))
  show ?thesis
    unfolding q using s assms(2)
    by (subst split_on_append, simp)+ (subst split_on_single, simp_all)
qed

theorem scope_is_one_qualifier_witness:
  "\<exists>d regs'. Run (example_platform \<lparr>Transport = None\<rparr>) example_environment example_application (\<lambda>_. [])
      = Some (Inr d, regs')
    \<and> length (split_on CHR '' '' (search_query example_github (w_scope (dp_watcher d)) 0)) = 5"
proof -
  obtain d regs' where d: "Run (example_platform \<lparr>Transport = None\<rparr>) example_environment example_application (\<lambda>_. [])
      = Some (Inr d, regs')"
    by (rule example_run)
  have "CHR '' '' \<notin> set (Format_RFC3339 example_github 0)" by (simp add: example_github_def)
  from scope_is_one_qualifier [OF d this] d show ?thesis by simp
qed

end
