(* ===== verification/Stepping.thy ===== *)
theory Stepping
  imports Prelude
begin

text \<open>
  Machines that take a function of the program apart: a control state says where the
  function stands, and a step makes at most one call to the outside. What such a machine has
  in common with the function it was taken from is proved once, in a locale.
\<close>

inductive runs :: "('c \<Rightarrow> ('s, 'c) call) \<Rightarrow> 'c \<Rightarrow> 's \<Rightarrow> 'c \<Rightarrow> 's \<Rightarrow> bool" for step where
  runs_refl [intro]: "runs step c s c s"
| runs_step: "step c s = Some (c1, s1) \<Longrightarrow> runs step c1 s1 c2 s2 \<Longrightarrow> runs step c s c2 s2"

lemma runs_trans: "runs step c s c1 s1 \<Longrightarrow> runs step c1 s1 c2 s2 \<Longrightarrow> runs step c s c2 s2"
  by (induction rule: runs.induct) (auto intro: runs_step)

text \<open>
  The interface: \<open>rest\<close> is what is left of the function at a control state, which a step does
  not change, and every step that is not at the end comes closer to it.
\<close>

locale step_machine =
  fixes step :: "'c \<Rightarrow> ('s, 'c) call" and rest :: "'c \<Rightarrow> ('s, 'r) call"
    and final :: "'c \<Rightarrow> 'r option" and nearer :: "('c \<times> 'c) set"
  assumes rest_step: "rest c s = (case step c s of None \<Rightarrow> None | Some (c', s') \<Rightarrow> rest c' s')"
    and rest_final: "final c = Some r \<Longrightarrow> rest c s = Some (r, s)"
    and nearer_step: "final c = None \<Longrightarrow> step c s = Some (c', s') \<Longrightarrow> (c', c) \<in> nearer"
    and wf_nearer: "wf nearer"
begin

lemma rest_runs: "runs step c s c' s' \<Longrightarrow> rest c s = rest c' s'"
proof (induction rule: runs.induct)
  case (runs_step c s c1 s1 c2 s2)
  with rest_step [of c s] show ?case by simp
qed simp

lemma reaches_end: "rest c s \<noteq> None \<Longrightarrow> \<exists>c' s' r. runs step c s c' s' \<and> final c' = Some r"
proof (induction c arbitrary: s rule: wf_induct_rule [OF wf_nearer])
  case (1 c)
  show ?case
  proof (cases "final c")
    case None
    from 1(2) rest_step [of c s] obtain c1 s1 where st: "step c s = Some (c1, s1)" "rest c1 s1 \<noteq> None"
      by (cases "step c s") auto
    from 1(1) [OF nearer_step [OF None st(1)] st(2)] st(1) show ?thesis by (blast intro: runs_step)
  qed auto
qed

text \<open>The machine that runs alone computes the function.\<close>

lemma computes: "(\<exists>c'. runs step c s c' s' \<and> final c' = Some r) \<longleftrightarrow> rest c s = Some (r, s')"
proof
  assume "\<exists>c'. runs step c s c' s' \<and> final c' = Some r"
  then show "rest c s = Some (r, s')" using rest_runs rest_final by force
next
  assume *: "rest c s = Some (r, s')"
  then obtain c1 s1 r1 where r: "runs step c s c1 s1" "final c1 = Some r1" using reaches_end [of c s] by auto
  with rest_runs [OF r(1)] rest_final [OF r(2), of s1] * have "r1 = r" "s1 = s'" by simp_all
  with r show "\<exists>c'. runs step c s c' s' \<and> final c' = Some r" by blast
qed

end

end
