(* ===== verification/Evaluate_Machine.thy ===== *)
theory Evaluate_Machine
  imports Candidate Stepping
begin

text \<open>
  The evaluator taken apart: one step per read of GitHub. Between two of its reads other
  goroutines run, the pull request may get new commits, and the process may be killed.
\<close>

datatype eval_control =
    Ev_config
  | Ev_files
  | Ev_specs "string list" "string list"
  | Ev_prompts "string list"
  | Ev_done "go_error + Result"

definition eval_begin :: "Input \<Rightarrow> eval_control" where
  "eval_begin inp =
     (if \<not> in_IsDraft inp then Ev_done (Inr (skip ReasonNotDraft))
      else if in_State inp \<noteq> ''open'' then Ev_done (Inr (skip ReasonNotOpen))
      else Ev_config)"

fun eval_step ::
  "yaml_fun \<Rightarrow> ('w, 'z) ContentReader_scheme \<Rightarrow> Input \<Rightarrow> eval_control \<Rightarrow> ('w, eval_control) call"
where
  "eval_step yaml_unmarshal reader inp Ev_config w =
     do {
       (config, w) \<leftarrow> GetContent reader (in_Owner inp) (in_Repo inp) darkFactoryConfigFile (in_HeadSHA inp) w;
       case config of
         Inl err \<Rightarrow>
           if IsNotFound reader err then Some (Ev_done (Inr (skip ReasonNoDarkFactoryYML)), w)
           else Some (Ev_done (Inl (Wrapped ''get %s'' err)), w)
       | Inr _ \<Rightarrow> Some (Ev_files, w)
     }"
| "eval_step yaml_unmarshal reader inp Ev_files w =
     do {
       (files, w) \<leftarrow> ListPRFiles reader (in_Owner inp) (in_Repo inp) (in_Number inp) w;
       case files of
         Inl err \<Rightarrow>
           Some (Ev_done (Inl (Wrapped ''check approved spec in diff'' (Wrapped ''list pr files pr=%s/%s#%d'' err))), w)
       | Inr files \<Rightarrow> Some (Ev_specs files [], w)
     }"
| "eval_step yaml_unmarshal reader inp (Ev_specs [] matched) w =
     Some (if matched = [] then Ev_done (Inr (skip ReasonNoSpecInDiff)) else Ev_prompts matched, w)"
| "eval_step yaml_unmarshal reader inp (Ev_specs (file # files) matched) w =
     (if \<not> is_spec_path file then Some (Ev_specs files matched, w)
      else do {
        (content, w) \<leftarrow> GetContent reader (in_Owner inp) (in_Repo inp) file (in_HeadSHA inp) w;
        case content of
          Inl err \<Rightarrow>
            if IsNotFound reader err then Some (Ev_specs files matched, w)
            else Some (Ev_done (Inl (Wrapped ''check approved spec in diff'' (Wrapped ''get spec %s'' err))), w)
        | Inr content \<Rightarrow>
            (case specApprovedNotCompleted yaml_unmarshal content of
               Inl err \<Rightarrow>
                 Some (Ev_done (Inl (Wrapped ''check approved spec in diff'' (Wrapped ''parse spec %s'' err))), w)
             | Inr approved \<Rightarrow> Some (Ev_specs files (if approved then matched @ [file] else matched), w))
      })"
| "eval_step yaml_unmarshal reader inp (Ev_prompts matched) w =
     do {
       (promptsQueued, w) \<leftarrow> hasQueuedPrompts reader inp w;
       case promptsQueued of
         Inl err \<Rightarrow> Some (Ev_done (Inl (Wrapped ''check queued prompts'' err)), w)
       | Inr promptsQueued \<Rightarrow>
           Some (Ev_done (Inr \<lparr>Keep = True, Reason = '''', MatchedSpecs = matched,
                               PromptsQueued = promptsQueued\<rparr>), w)
     }"
| "eval_step yaml_unmarshal reader inp (Ev_done r) w = Some (Ev_done r, w)"

fun eval_result :: "eval_control \<Rightarrow> (go_error + Result) option" where
  "eval_result (Ev_done r) = Some r"
| "eval_result _ = None"

subsection \<open>The evaluator's machine computes \<open>Evaluate\<close>\<close>

definition prompts_rest ::
  "('w, 'z) ContentReader_scheme \<Rightarrow> Input \<Rightarrow> string list \<Rightarrow> ('w, go_error + Result) call"
where
  "prompts_rest reader inp matched w =
     do {
       (promptsQueued, w) \<leftarrow> hasQueuedPrompts reader inp w;
       case promptsQueued of
         Inl err \<Rightarrow> Some (Inl (Wrapped ''check queued prompts'' err), w)
       | Inr promptsQueued \<Rightarrow>
           Some (Inr \<lparr>Keep = True, Reason = '''', MatchedSpecs = matched, PromptsQueued = promptsQueued\<rparr>, w)
     }"

definition matched_rest ::
  "('w, 'z) ContentReader_scheme \<Rightarrow> Input \<Rightarrow> go_error + string list \<Rightarrow> ('w, go_error + Result) call"
where
  "matched_rest reader inp matched w =
     (case matched of
        Inl err \<Rightarrow> Some (Inl (Wrapped ''check approved spec in diff'' err), w)
      | Inr matched \<Rightarrow>
          if matched = [] then Some (Inr (skip ReasonNoSpecInDiff), w) else prompts_rest reader inp matched w)"

fun eval_rest ::
  "yaml_fun \<Rightarrow> ('w, 'z) ContentReader_scheme \<Rightarrow> Input \<Rightarrow> eval_control \<Rightarrow> ('w, go_error + Result) call"
where
  "eval_rest y reader inp Ev_config w =
     do {
       (config, w) \<leftarrow> GetContent reader (in_Owner inp) (in_Repo inp) darkFactoryConfigFile (in_HeadSHA inp) w;
       case config of
         Inl err \<Rightarrow>
           if IsNotFound reader err then Some (Inr (skip ReasonNoDarkFactoryYML), w)
           else Some (Inl (Wrapped ''get %s'' err), w)
       | Inr _ \<Rightarrow>
           do {
             (matched, w) \<leftarrow> matchedApprovedSpecsInDiff y reader inp w;
             matched_rest reader inp matched w
           }
     }"
| "eval_rest y reader inp Ev_files w =
     do { (matched, w) \<leftarrow> matchedApprovedSpecsInDiff y reader inp w; matched_rest reader inp matched w }"
| "eval_rest y reader inp (Ev_specs files matched) w =
     do { (matched, w) \<leftarrow> matched_loop y reader inp files matched w; matched_rest reader inp matched w }"
| "eval_rest y reader inp (Ev_prompts matched) w = prompts_rest reader inp matched w"
| "eval_rest y reader inp (Ev_done r) w = Some (r, w)"

lemma eval_rest_begin: "eval_rest y rd inp (eval_begin inp) w = Evaluate y rd inp w"
  by (simp add: eval_begin_def Evaluate_def matched_rest_def [abs_def] prompts_rest_def cong: sum.case_cong if_cong)

text \<open>The stages in their order, and within the specs the files that are left.\<close>

fun eval_stage :: "eval_control \<Rightarrow> nat \<times> nat" where
  "eval_stage Ev_config = (4, 0)"
| "eval_stage Ev_files = (3, 0)"
| "eval_stage (Ev_specs files matched) = (2, length files)"
| "eval_stage (Ev_prompts matched) = (1, 0)"
| "eval_stage (Ev_done r) = (0, 0)"

definition eval_nearer :: "(eval_control \<times> eval_control) set" where
  "eval_nearer = inv_image (less_than <*lex*> less_than) eval_stage"

lemma eval_rest_step:
  "eval_rest y rd inp c w =
     (case eval_step y rd inp c w of None \<Rightarrow> None | Some (c', w') \<Rightarrow> eval_rest y rd inp c' w')"
proof (cases "(y, rd, inp, c, w)" rule: eval_step.cases)
  case (1 y rd inp w)
  then show ?thesis
    by (cases "GetContent rd (in_Owner inp) (in_Repo inp) darkFactoryConfigFile (in_HeadSHA inp) w")
       (auto split: sum.split)
next
  case (2 y rd inp w)
  then show ?thesis
    by (cases "ListPRFiles rd (in_Owner inp) (in_Repo inp) (in_Number inp) w")
       (auto simp: matchedApprovedSpecsInDiff_def matched_rest_def split: sum.split)
next
  case (4 y rd inp f fs m w)
  then show ?thesis
    by (cases "GetContent rd (in_Owner inp) (in_Repo inp) f (in_HeadSHA inp) w")
       (auto simp: matched_rest_def split: sum.split)
next
  case (5 y rd inp m w)
  then show ?thesis
    by (cases "hasQueuedPrompts rd inp w") (auto simp: prompts_rest_def split: sum.split)
qed (auto simp: matched_rest_def)

lemma eval_nearer_step:
  "eval_result c = None \<Longrightarrow> eval_step y rd inp c w = Some (c', w') \<Longrightarrow> (c', c) \<in> eval_nearer"
  by (cases "(y, rd, inp, c, w)" rule: eval_step.cases)
     (auto simp: eval_nearer_def split: sum.splits if_splits)

interpretation ev: step_machine "eval_step y rd inp" "eval_rest y rd inp" eval_result eval_nearer
proof unfold_locales
  show "wf eval_nearer" unfolding eval_nearer_def by (intro wf_inv_image wf_lex_prod wf_less_than)
  show "eval_rest y rd inp c s = Some (r, s)" if "eval_result c = Some r" for c r s
    using that by (cases c) simp_all
qed (rule eval_rest_step eval_nearer_step, assumption?)+

text \<open>Run alone, the evaluator's machine ends with the verdict of \<open>Evaluate\<close>.\<close>

lemma eval_machine_computes:
  "runs (eval_step y rd inp) (eval_begin inp) w (Ev_done r) w' \<longleftrightarrow> Evaluate y rd inp w = Some (r, w')"
proof -
  have "(\<exists>c'. runs (eval_step y rd inp) (eval_begin inp) w c' w' \<and> eval_result c' = Some r)
      \<longleftrightarrow> runs (eval_step y rd inp) (eval_begin inp) w (Ev_done r) w'"
    by (metis eval_result.elims eval_result.simps(1) option.distinct(1) option.inject)
  with ev.computes [of y rd inp "eval_begin inp" w w' r] show ?thesis by (simp add: eval_rest_begin)
qed

subsection \<open>What a verdict rests on\<close>

text \<open>
  GitHub answered each read behind a verdict to keep, whatever happened between the reads:
  the config file is at the head commit, the specs are of a listing of the pull request's
  files, and each was read at the head commit and is approved and not completed.
\<close>

definition configured :: "('w, 'z) ContentReader_scheme \<Rightarrow> Input \<Rightarrow> bool" where
  "configured reader inp \<longleftrightarrow>
     (\<exists>w content w'. GetContent reader (in_Owner inp) (in_Repo inp) darkFactoryConfigFile (in_HeadSHA inp) w
        = Some (Inr content, w'))"

definition listing :: "('w, 'z) ContentReader_scheme \<Rightarrow> Input \<Rightarrow> string list \<Rightarrow> bool" where
  "listing reader inp files \<longleftrightarrow>
     (\<exists>w w'. ListPRFiles reader (in_Owner inp) (in_Repo inp) (in_Number inp) w = Some (Inr files, w'))"

definition grounded ::
  "yaml_fun \<Rightarrow> ('w, 'z) ContentReader_scheme \<Rightarrow> Input \<Rightarrow> string list \<Rightarrow> bool"
where
  "grounded y reader inp specs \<longleftrightarrow>
     in_IsDraft inp \<and> in_State inp = ''open'' \<and> configured reader inp
     \<and> (\<exists>files. listing reader inp files \<and> set specs \<subseteq> set files)
     \<and> specs \<noteq> [] \<and> (\<forall>f \<in> set specs. read_approved y reader inp f)"

fun eval_inv :: "yaml_fun \<Rightarrow> ('w, 'z) ContentReader_scheme \<Rightarrow> Input \<Rightarrow> eval_control \<Rightarrow> bool" where
  "eval_inv y rd inp Ev_config \<longleftrightarrow> in_IsDraft inp \<and> in_State inp = ''open''"
| "eval_inv y rd inp Ev_files \<longleftrightarrow> in_IsDraft inp \<and> in_State inp = ''open'' \<and> configured rd inp"
| "eval_inv y rd inp (Ev_specs files matched) \<longleftrightarrow>
     in_IsDraft inp \<and> in_State inp = ''open'' \<and> configured rd inp
     \<and> (\<exists>all. listing rd inp all \<and> set matched \<union> set files \<subseteq> set all)
     \<and> (\<forall>f \<in> set matched. read_approved y rd inp f)"
| "eval_inv y rd inp (Ev_prompts matched) \<longleftrightarrow> grounded y rd inp matched"
| "eval_inv y rd inp (Ev_done r) \<longleftrightarrow>
     (case r of Inl err \<Rightarrow> True | Inr result \<Rightarrow> Keep result \<longrightarrow> grounded y rd inp (MatchedSpecs result))"

lemma eval_inv_begin: "eval_inv y rd inp (eval_begin inp)"
  by (simp add: eval_begin_def)

lemma read_approvedI:
  "is_spec_path file \<Longrightarrow> GetContent rd (in_Owner inp) (in_Repo inp) file (in_HeadSHA inp) w = Some (Inr content, w') \<Longrightarrow>
    specApprovedNotCompleted y content = Inr True \<Longrightarrow> read_approved y rd inp file"
  by (auto simp: read_approved_def)

lemma configuredI:
  "GetContent rd (in_Owner inp) (in_Repo inp) darkFactoryConfigFile (in_HeadSHA inp) w = Some (Inr content, w') \<Longrightarrow>
    configured rd inp"
  by (auto simp: configured_def)

lemma listingI:
  "ListPRFiles rd (in_Owner inp) (in_Repo inp) (in_Number inp) w = Some (Inr files, w') \<Longrightarrow> listing rd inp files"
  by (auto simp: listing_def)

lemma eval_inv_spec:
  assumes "eval_inv y rd inp (Ev_specs (f # fs) m)" and "\<And>x. x \<in> set m' \<Longrightarrow> x \<in> set m \<or> x = f \<and> read_approved y rd inp f"
  shows "eval_inv y rd inp (Ev_specs fs m')"
proof -
  from assms(1) obtain all where "listing rd inp all" "set m \<union> set (f # fs) \<subseteq> set all" by auto
  with assms show ?thesis by fastforce
qed

lemma eval_inv_step:
  assumes "eval_inv y rd inp c" and "eval_step y rd inp c w = Some (c', w')"
  shows "eval_inv y rd inp c'"
proof (cases c)
  case Ev_files
  with assms show ?thesis by (auto split: sum.splits) (blast intro: listingI)
next
  case (Ev_specs files m)
  show ?thesis
  proof (cases files)
    case Nil
    with Ev_specs assms show ?thesis by (auto simp: grounded_def split: if_splits)
  next
    case (Cons f fs)
    note inv = assms(1) [unfolded Ev_specs Cons]
    from assms(2) Ev_specs Cons consider (same) "c' = Ev_specs fs m"
      | (failed) err where "c' = Ev_done (Inl err)"
      | (approved) "c' = Ev_specs fs (m @ [f])" "read_approved y rd inp f"
      by (auto split: if_splits sum.splits) (blast intro: read_approvedI)
    then show ?thesis
    proof cases
      case same
      then show ?thesis using eval_inv_spec [OF inv, of m] by (simp del: eval_inv.simps)
    next
      case approved
      then show ?thesis using eval_inv_spec [OF inv, of "m @ [f]"] by (simp del: eval_inv.simps) blast
    qed simp
  qed
qed (use assms in \<open>auto split: sum.splits if_splits intro: configuredI\<close>)

lemma eval_step_returns:
  assumes "reads_return rd"
  shows "eval_step y rd inp c w \<noteq> None"
proof (cases c)
  case (Ev_specs files m)
  show ?thesis
  proof (cases files)
    case (Cons f fs)
    then show ?thesis unfolding Ev_specs Cons eval_step.simps by (intro returns reads_returnD assms)
  qed (simp add: Ev_specs)
qed (simp_all only: eval_step.simps hasQueuedPrompts_def, (intro returns reads_returnD assms)+)

end
