(* ===== verification/Pr_Machine.thy ===== *)
theory Pr_Machine
  imports Watcher_Run Evaluate_Machine
begin

text \<open>
  \<open>processPR\<close> taken apart: a step for the scope filter, one for the details of the pull
  request, one for each read of the evaluator, and one for the rest, which calls the sender
  at most. The cursor and the map of new identifiers belong to the poll; counters, sent
  commands and the world are shared.
\<close>

datatype pr_control =
    Pr_begin
  | Pr_details
  | Pr_evaluate PRDetails eval_control
  | Pr_done "datetime \<times> bool"

text \<open>What follows the evaluation.\<close>

definition settle ::
  "'w watcher \<Rightarrow> PullRequest \<Rightarrow> PRDetails \<Rightarrow> go_error + Result \<Rightarrow> ('w pstate, datetime \<times> bool) call"
where
  "settle w pr details result s =
     (case result of
        Inl _ \<Rightarrow> skipped ''evaluate_error'' s
      | Inr result \<Rightarrow>
          if \<not> Keep result then
            (let s = (if Reason result = ReasonNoSpecInDiff \<or> Reason result = ReasonNotOpen
                      then clear_marker (queuedMarkerKey pr) s else s)
             in skipped (Reason result) s)
          else handle_candidate w pr details result s)"

definition pr_finish :: "((datetime \<times> bool) \<times> 'w pstate) option \<Rightarrow> (pr_control \<times> 'w pstate) option" where
  "pr_finish r = map_option (apfst Pr_done) r"

fun pr_step :: "'w watcher \<Rightarrow> PullRequest \<Rightarrow> pr_control \<Rightarrow> ('w pstate, pr_control) call" where
  "pr_step w pr Pr_begin s =
     (let s = s\<lparr>metrics := IncReposScanned (metrics s)\<rparr>
      in if scopeFilter w \<lparr>RepoKey = repoKeyOf pr\<rparr> then pr_finish (skipped ''out_of_scope'' s)
         else Some (Pr_details, s))"
| "pr_step w pr Pr_details s =
     do {
       (details, wd) \<leftarrow> GetPRDetails (ghClient w) (Owner pr) (Repo pr) (Number pr) (world s);
       let s = s\<lparr>world := wd\<rparr>;
       case details of
         Inl _ \<Rightarrow> pr_finish (skipped ''details_error'' s)
       | Inr details \<Rightarrow>
           if d_HeadSHA details = '''' then pr_finish (skipped ''empty_sha'' s)
           else Some (Pr_evaluate details (eval_begin (eval_input pr details)), s)
     }"
| "pr_step w pr (Pr_evaluate details ev) s =
     (case eval_result ev of
        Some result \<Rightarrow> pr_finish (settle w pr details result s)
      | None \<Rightarrow>
          do {
            (ev, wd) \<leftarrow> eval_step (yaml_unmarshal w) (ghClient w) (eval_input pr details) ev (world s);
            Some (Pr_evaluate details ev, s\<lparr>world := wd\<rparr>)
          })"
| "pr_step w pr (Pr_done r) s = Some (Pr_done r, s)"

fun pr_result :: "pr_control \<Rightarrow> (datetime \<times> bool) option" where
  "pr_result (Pr_done r) = Some r"
| "pr_result _ = None"

subsection \<open>The machine of a pull request computes \<open>processPR\<close>\<close>

fun pr_rest :: "'w watcher \<Rightarrow> PullRequest \<Rightarrow> pr_control \<Rightarrow> ('w pstate, datetime \<times> bool) call" where
  "pr_rest w pr Pr_begin s = processPR w pr s"
| "pr_rest w pr Pr_details s =
     do {
       (details, wd) \<leftarrow> GetPRDetails (ghClient w) (Owner pr) (Repo pr) (Number pr) (world s);
       let s = s\<lparr>world := wd\<rparr>;
       case details of
         Inl _ \<Rightarrow> skipped ''details_error'' s
       | Inr details \<Rightarrow>
           if d_HeadSHA details = '''' then skipped ''empty_sha'' s
           else
             do {
               (result, wd) \<leftarrow> Evaluate (yaml_unmarshal w) (ghClient w) (eval_input pr details) (world s);
               settle w pr details result (s\<lparr>world := wd\<rparr>)
             }
     }"
| "pr_rest w pr (Pr_evaluate details ev) s =
     do {
       (result, wd) \<leftarrow> eval_rest (yaml_unmarshal w) (ghClient w) (eval_input pr details) ev (world s);
       settle w pr details result (s\<lparr>world := wd\<rparr>)
     }"
| "pr_rest w pr (Pr_done r) s = Some (r, s)"

lemma processPR_settle:
  "processPR w pr s =
     (let s = s\<lparr>metrics := IncReposScanned (metrics s)\<rparr>
      in if scopeFilter w \<lparr>RepoKey = repoKeyOf pr\<rparr> then skipped ''out_of_scope'' s
         else pr_rest w pr Pr_details s)"
  by (simp add: processPR_def settle_def Let_def cong: sum.case_cong if_cong)

lemma finish_skipped: "pr_finish (skipped reason s) =
    Some (Pr_done (zero_time, False), s\<lparr>metrics := IncFilterSkipped reason (metrics s)\<rparr>)"
  by (simp add: pr_finish_def skipped_def)

lemma rest_finish: "(case pr_finish m of None \<Rightarrow> None | Some (c', s') \<Rightarrow> pr_rest w pr c' s') = m"
  by (cases m) (auto simp: pr_finish_def)

lemma pr_rest_step:
  "pr_rest w pr c s = (case pr_step w pr c s of None \<Rightarrow> None | Some (c', s') \<Rightarrow> pr_rest w pr c' s')"
proof (cases c)
  case Pr_begin
  then show ?thesis by (simp add: processPR_settle Let_def rest_finish del: pr_rest.simps(2))
next
  case Pr_details
  then show ?thesis
    by (cases "GetPRDetails (ghClient w) (Owner pr) (Repo pr) (Number pr) (world s)")
       (auto simp: rest_finish eval_rest_begin Let_def split: sum.split)
next
  case (Pr_evaluate details ev)
  let ?step = "eval_step (yaml_unmarshal w) (ghClient w) (eval_input pr details) ev (world s)"
  show ?thesis
  proof (cases "eval_result ev")
    case None
    with Pr_evaluate show ?thesis by (cases ?step) (auto simp: eval_rest_step [of _ _ _ ev])
  next
    case (Some r)
    then have "ev = Ev_done r" by (cases ev) simp_all
    with Pr_evaluate show ?thesis by (simp add: rest_finish)
  qed
qed simp

fun pr_stage :: "pr_control \<Rightarrow> nat \<times> nat \<times> nat" where
  "pr_stage Pr_begin = (3, 0, 0)"
| "pr_stage Pr_details = (2, 0, 0)"
| "pr_stage (Pr_evaluate details ev) = (1, eval_stage ev)"
| "pr_stage (Pr_done r) = (0, 0, 0)"

definition pr_nearer :: "(pr_control \<times> pr_control) set" where
  "pr_nearer = inv_image (less_than <*lex*> less_than <*lex*> less_than) pr_stage"

lemma finish_nearer: "pr_finish m = Some (c', s') \<Longrightarrow> pr_result c = None \<Longrightarrow> (c', c) \<in> pr_nearer"
  by (cases c) (auto simp: pr_finish_def pr_nearer_def)

lemma pr_nearer_step: "pr_result c = None \<Longrightarrow> pr_step w pr c s = Some (c', s') \<Longrightarrow> (c', c) \<in> pr_nearer"
proof (cases c)
  case (Pr_evaluate details ev)
  assume "pr_step w pr c s = Some (c', s')"
  with Pr_evaluate show ?thesis
    by (cases "eval_result ev")
       (auto simp: pr_nearer_def eval_nearer_def dest: finish_nearer [of _ _ _ c] eval_nearer_step)
qed (auto simp: Let_def finish_skipped pr_nearer_def split: sum.splits if_splits)

interpretation pm: step_machine "pr_step w pr" "pr_rest w pr" pr_result pr_nearer
proof unfold_locales
  show "wf pr_nearer" unfolding pr_nearer_def by (intro wf_inv_image wf_lex_prod wf_less_than)
  show "pr_rest w pr c s = Some (r, s)" if "pr_result c = Some r" for c r s
    using that by (cases c) simp_all
qed (rule pr_rest_step pr_nearer_step, assumption?)+

subsection \<open>What one step does\<close>

text \<open>
  Only the last step of a candidate sends, and it sends one command, whose identifier the
  cursor did not hold and holds from now on.
\<close>

lemma handle_candidate_effect:
  assumes "handle_candidate w pr details result s = Some (r, s')"
  obtains (quiet) "sent s' = sent s" "HeadSHAs (cursor s') = HeadSHAs (cursor s)"
    | (sends) cmd where "sent s' = sent s @ [cmd]"
      "BuildCreateCommand pr details (cmd_TaskIdentifier cmd) (w_cfg w) (MatchedSpecs result) = Some cmd"
      "map_get (HeadSHAs (cursor s)) (cmd_TaskIdentifier cmd) = None"
      "dom (map_get (HeadSHAs (cursor s'))) = insert (cmd_TaskIdentifier cmd) (dom (map_get (HeadSHAs (cursor s))))"
      "cmd_TaskIdentifier cmd = task_id_of w pr details result"
proof -
  obtain t ok where r: "r = (t, ok)" by (cases r)
  from assms [unfolded r] refl refl show thesis
  proof (cases rule: handle_candidate_cases)
    case (sent cmd wd h new q)
    from BuildCreateCommand_SomeD(1) [OF sent(3)] sent dom_put [OF sent(7)] show thesis
      by (intro sends [of cmd]) auto
  qed (use quiet in simp_all)
qed

lemma handle_candidate_keeps:
  assumes "handle_candidate w pr details result s = Some (r, s')"
  shows "metrics s \<le> metrics s'" and "disk s' = disk s"
proof -
  obtain t ok where r: "r = (t, ok)" by (cases r)
  from assms [unfolded r] refl refl have "metrics s \<le> metrics s' \<and> disk s' = disk s"
    by (cases rule: handle_candidate_cases) (auto intro: Inc_le)
  then show "metrics s \<le> metrics s'" "disk s' = disk s" by simp_all
qed

lemma settle_cases:
  assumes "settle w pr details result s = Some (r, s')"
  obtains (skip) reason q where "r = (zero_time, False)"
      "s' = s\<lparr>metrics := IncFilterSkipped reason (metrics s), cursor := (cursor s)\<lparr>QueuedMarkers := q\<rparr>\<rparr>"
      "q = QueuedMarkers (cursor s) \<or> q = map_delete (queuedMarkerKey pr) (QueuedMarkers (cursor s))"
    | (candidate) verdict where "result = Inr verdict" "Keep verdict"
      "handle_candidate w pr details verdict s = Some (r, s')"
proof (cases result)
  case (Inl err)
  with assms show thesis
    by (intro skip [where reason = "''evaluate_error''" and q = "QueuedMarkers (cursor s)"]) (auto simp: settle_def skipped_def)
next
  case (Inr verdict)
  show thesis
  proof (cases "Keep verdict")
    case True
    with Inr assms candidate show thesis by (simp add: settle_def)
  next
    case False
    let ?clear = "Reason verdict = ReasonNoSpecInDiff \<or> Reason verdict = ReasonNotOpen"
    from Inr False assms show thesis
      by (intro skip [where reason = "Reason verdict" and q = "if ?clear then map_delete (queuedMarkerKey pr) (QueuedMarkers (cursor s))
            else QueuedMarkers (cursor s)"])
         (auto simp: settle_def skipped_def clear_marker_def Let_def)
  qed
qed

text \<open>A step by what it may change.\<close>

lemma pr_step_cases:
  assumes "pr_step w pr c s = Some (c', s')"
  obtains (call) "cursor s' = cursor s" "newHeadSHAs s' = newHeadSHAs s" "sent s' = sent s"
      "disk s' = disk s" "metrics s \<le> metrics s'"
    | (skip) reason q where "c' = Pr_done (zero_time, False)"
      "s' = s\<lparr>metrics := IncFilterSkipped reason (metrics s), cursor := (cursor s)\<lparr>QueuedMarkers := q\<rparr>\<rparr>"
      "q = QueuedMarkers (cursor s) \<or> q = map_delete (queuedMarkerKey pr) (QueuedMarkers (cursor s))"
    | (candidate) details verdict r where "c = Pr_evaluate details (Ev_done (Inr verdict))" "Keep verdict"
      "c' = Pr_done r" "handle_candidate w pr details verdict s = Some (r, s')"
proof (cases c)
  case Pr_begin
  have "metrics s \<le> IncFilterSkipped reason (IncReposScanned (metrics s))" for reason
    by (rule order_trans [OF Inc_le(3,4)])
  with Pr_begin assms call show thesis by (auto simp: Let_def finish_skipped split: if_splits)
next
  case Pr_details
  with assms call show thesis by (auto simp: Let_def finish_skipped split: sum.splits if_splits intro: Inc_le)
next
  case (Pr_evaluate details ev)
  show thesis
  proof (cases "eval_result ev")
    case None
    with Pr_evaluate assms call show thesis by auto
  next
    case (Some result)
    then have ev: "ev = Ev_done result" by (cases ev) simp_all
    with Pr_evaluate assms obtain r where r: "settle w pr details result s = Some (r, s')" "c' = Pr_done r"
      by (auto simp: pr_finish_def)
    from r(1) show thesis
    proof (cases rule: settle_cases)
      case (skip reason q)
      with that(2) [where reason = reason and q = q] r(2) show thesis by simp
    next
      case (candidate verdict)
      with that(3) [of details verdict r] Pr_evaluate ev r(2) show thesis by simp
    qed
  qed
qed (use assms call in simp)

lemma pr_step_keeps:
  assumes "pr_step w pr c s = Some (c', s')"
  shows "metrics s \<le> metrics s'" and "disk s' = disk s"
  using assms by (cases rule: pr_step_cases; simp add: handle_candidate_keeps Inc_le)+

lemma pr_step_effect:
  assumes "pr_step w pr c s = Some (c', s')"
  obtains (quiet) "sent s' = sent s" "HeadSHAs (cursor s') = HeadSHAs (cursor s)"
    | (sends) details verdict cmd where "c = Pr_evaluate details (Ev_done (Inr verdict))" "Keep verdict"
      "sent s' = sent s @ [cmd]"
      "BuildCreateCommand pr details (cmd_TaskIdentifier cmd) (w_cfg w) (MatchedSpecs verdict) = Some cmd"
      "map_get (HeadSHAs (cursor s)) (cmd_TaskIdentifier cmd) = None"
      "dom (map_get (HeadSHAs (cursor s'))) = insert (cmd_TaskIdentifier cmd) (dom (map_get (HeadSHAs (cursor s))))"
      "cmd_TaskIdentifier cmd = task_id_of w pr details verdict"
  using assms
proof (cases rule: pr_step_cases)
  case (candidate details verdict r)
  from candidate(4) show thesis
    by (cases rule: handle_candidate_effect) (use quiet sends candidate in blast)+
qed (use quiet in simp_all)

lemma pr_step_ready:
  assumes "pr_step w pr c s = Some (c', s')" and "ready s"
  shows "ready s'"
  using assms(1)
proof (cases rule: pr_step_cases)
  case (candidate details verdict r)
  then show ?thesis using handle_candidate_ready [OF assms(2), of w pr details verdict] by (cases r) simp
qed (use assms(2) in \<open>auto simp: ready_def simp del: not_None_eq\<close>)

text \<open>What a pull request in work has behind it: it is in scope, and GitHub reported its details.\<close>

definition reported :: "('w, 'z) GitHubClient_scheme \<Rightarrow> PullRequest \<Rightarrow> PRDetails \<Rightarrow> bool" where
  "reported gh pr details \<longleftrightarrow>
     (\<exists>wd wd'. GetPRDetails gh (Owner pr) (Repo pr) (Number pr) wd = Some (Inr details, wd'))"

fun pr_inv :: "'w watcher \<Rightarrow> PullRequest \<Rightarrow> pr_control \<Rightarrow> bool" where
  "pr_inv w pr Pr_details \<longleftrightarrow> \<not> scopeFilter w \<lparr>RepoKey = repoKeyOf pr\<rparr>"
| "pr_inv w pr (Pr_evaluate details ev) \<longleftrightarrow>
     \<not> scopeFilter w \<lparr>RepoKey = repoKeyOf pr\<rparr> \<and> reported (ghClient w) pr details
     \<and> eval_inv (yaml_unmarshal w) (ghClient w) (eval_input pr details) ev"
| "pr_inv w pr _ \<longleftrightarrow> True"

lemma reportedI:
  "GetPRDetails gh (Owner pr) (Repo pr) (Number pr) wd = Some (Inr details, wd') \<Longrightarrow> reported gh pr details"
  by (auto simp: reported_def)

lemma pr_inv_step:
  assumes "pr_inv w pr c" and "pr_step w pr c s = Some (c', s')"
  shows "pr_inv w pr c'"
proof (cases c)
  case (Pr_evaluate details ev)
  with assms show ?thesis
    by (cases "eval_result ev") (auto simp: pr_finish_def intro: eval_inv_step)
next
  case Pr_details
  with assms show ?thesis
    by (auto simp: finish_skipped eval_inv_begin Let_def split: sum.splits if_splits) (blast intro: reportedI)
qed (use assms in \<open>auto simp: finish_skipped Let_def split: if_splits\<close>)

lemma pr_step_tables:
  assumes "well_encoded w" and "named_ok pr" and "tables_ok s" and "pr_inv w pr c"
    and "pr_step w pr c s = Some (c', s')"
  shows "tables_ok s'"
  using assms(5)
proof (cases rule: pr_step_cases)
  case (skip reason q)
  with assms(3) table_delete show ?thesis by (auto simp: tables_ok_def)
next
  case (candidate details verdict r)
  with assms(4) have "reported (ghClient w) pr details" by simp
  then have "valid_utf8 (d_HeadSHA details)" unfolding reported_def by (blast intro: well_encoded_sha [OF assms(1)])
  with handle_candidate_tables [OF assms(1-3)] candidate(4) show ?thesis by (cases r) blast
qed (use assms(3) in \<open>simp add: tables_ok_def\<close>)

lemma settle_returns:
  assumes "ready s" and "calls_return w" and "0 \<le> cfg_MaxSlugLen (w_cfg w)"
  shows "settle w pr details result s \<noteq> None"
  using handle_candidate_returns [OF assms] by (auto simp: settle_def skipped_def split: sum.split)

lemma pr_step_returns:
  assumes "ready s" and "calls_return w" and "0 \<le> cfg_MaxSlugLen (w_cfg w)"
  shows "pr_step w pr c s \<noteq> None"
proof (cases c)
  case Pr_details
  have "GetPRDetails (ghClient w) (Owner pr) (Repo pr) (Number pr) (world s) \<noteq> None"
    using assms(2) by (simp add: calls_return_def)
  with Pr_details show ?thesis by (auto simp: finish_skipped Let_def split: sum.split)
next
  case (Pr_evaluate details ev)
  have "eval_step (yaml_unmarshal w) (ghClient w) (eval_input pr details) ev (world s) \<noteq> None"
    using assms(2) by (intro eval_step_returns) (simp add: calls_return_def)
  with Pr_evaluate settle_returns [OF assms, of pr details] show ?thesis
    by (cases "eval_result ev") (auto simp: pr_finish_def simp del: not_None_eq split: prod.split)
qed (simp_all add: finish_skipped Let_def)

text \<open>The repository's evaluation and a candidate, apart from what the poll knows of it.\<close>

text \<open>Run alone, the machine ends with the result and the state of \<open>processPR\<close>.\<close>

lemma pr_machine_computes:
  "runs (pr_step w pr) Pr_begin s (Pr_done r) s' \<longleftrightarrow> processPR w pr s = Some (r, s')"
proof -
  have "(\<exists>c'. runs (pr_step w pr) Pr_begin s c' s' \<and> pr_result c' = Some r)
      \<longleftrightarrow> runs (pr_step w pr) Pr_begin s (Pr_done r) s'"
    by (metis pr_result.elims pr_result.simps(1) option.distinct(1) option.inject)
  with pm.computes [of w pr Pr_begin s s' r] show ?thesis by simp
qed

end
