(* ===== verification/Cursor_Race.thy ===== *)
theory Cursor_Race
  imports Cursor
begin

text \<open>
  \<open>SaveCursor\<close> step by step, for savers that run at the same time: two polls of one watcher
  can. Files are inodes with names, since a rename moves the name of a file that another
  saver may hold open. \<open>os.WriteFile\<close> opens the temporary file, truncating it or creating
  it, and writes from the start of the file it opened; then \<open>os.Rename\<close> gives it the name
  of the cursor file.
\<close>

record inodes =
  names :: "string \<rightharpoonup> nat"
  content :: "nat \<Rightarrow> string"
  next_inode :: nat

definition read_name :: "inodes \<Rightarrow> string \<Rightarrow> string option" where
  "read_name fs path = map_option (content fs) (names fs path)"

definition open_truncated :: "string \<Rightarrow> inodes \<Rightarrow> nat \<times> inodes" where
  "open_truncated path fs =
     (case names fs path of
        Some i \<Rightarrow> (i, fs\<lparr>content := (content fs)(i := [])\<rparr>)
      | None \<Rightarrow>
          (next_inode fs, fs\<lparr>names := (names fs)(path \<mapsto> next_inode fs),
             content := (content fs)(next_inode fs := []), next_inode := Suc (next_inode fs)\<rparr>))"

text \<open>Writing from the start leaves what lies behind the bytes written.\<close>

definition write_start :: "nat \<Rightarrow> string \<Rightarrow> inodes \<Rightarrow> inodes" where
  "write_start i data fs = fs\<lparr>content := (content fs)(i := data @ drop (length data) (content fs i))\<rparr>"

definition rename_inode :: "string \<Rightarrow> string \<Rightarrow> inodes \<Rightarrow> go_error option \<times> inodes" where
  "rename_inode from to_path fs =
     (case names fs from of
        None \<Rightarrow> (Some (NewError ''rename: no such file''), fs)
      | Some i \<Rightarrow> (None, fs\<lparr>names := (names fs)(from := None, to_path \<mapsto> i)\<rparr>))"

text \<open>A saver: the document it saves, the file it has open, and what its save returned.\<close>

datatype saver =
    Ready string
  | Opened string nat
  | Written string
  | Returned "go_error option"

inductive save_step ::
  "string \<Rightarrow> inodes \<times> (nat \<Rightarrow> saver) \<Rightarrow> inodes \<times> (nat \<Rightarrow> saver) \<Rightarrow> bool" for path
where
  s_open: "sv k = Ready data \<Longrightarrow> open_truncated (path @ ''.tmp'') fs = (i, fs')
    \<Longrightarrow> save_step path (fs, sv) (fs', sv(k := Opened data i))"
| s_write: "sv k = Opened data i
    \<Longrightarrow> save_step path (fs, sv) (write_start i data fs, sv(k := Written data))"
| s_rename: "sv k = Written data \<Longrightarrow> rename_inode (path @ ''.tmp'') path fs = (err, fs')
    \<Longrightarrow> save_step path (fs, sv) (fs', sv(k := Returned err))"

inductive_cases save_stepE: "save_step path (fs, sv) (fs', sv')"

lemma tmp_name [simp]: "path @ ''.tmp'' \<noteq> path" "path \<noteq> path @ ''.tmp''"
  by simp_all

subsection \<open>One saver at a time\<close>

text \<open>
  The invariant of a file system with one saver: the cursor file and the temporary file are
  never the same inode, the file open is the temporary one, and the cursor file holds the
  old document until the save is done.
\<close>

definition fresh_names :: "inodes \<Rightarrow> bool" where
  "fresh_names fs \<longleftrightarrow> (\<forall>p i. names fs p = Some i \<longrightarrow> i < next_inode fs)"

definition apart :: "string \<Rightarrow> inodes \<Rightarrow> bool" where
  "apart path fs \<longleftrightarrow> (\<forall>i. names fs path = Some i \<longrightarrow> names fs (path @ ''.tmp'') \<noteq> Some i)"

definition alone :: "string \<Rightarrow> string \<Rightarrow> string option \<Rightarrow> inodes \<Rightarrow> saver \<Rightarrow> bool" where
  "alone path data old fs s \<longleftrightarrow> fresh_names fs \<and> apart path fs \<and>
     (case s of
        Ready d \<Rightarrow> d = data \<and> read_name fs path = old
      | Opened d i \<Rightarrow> d = data \<and> read_name fs path = old
          \<and> names fs (path @ ''.tmp'') = Some i \<and> content fs i = []
      | Written d \<Rightarrow> d = data \<and> read_name fs path = old \<and> read_name fs (path @ ''.tmp'') = Some data
      | Returned e \<Rightarrow> e = None \<and> read_name fs path = Some data)"

lemma alone_open:
  assumes "alone path data old fs (Ready d)" and "open_truncated (path @ ''.tmp'') fs = (i, fs')"
  shows "alone path data old fs' (Opened d i)"
proof (cases "names fs (path @ ''.tmp'')")
  case None
  have f: "\<forall>p i. names fs p = Some i \<longrightarrow> i < next_inode fs"
    using assms(1) by (simp add: alone_def fresh_names_def)
  then have n: "names fs p \<noteq> Some (next_inode fs)" for p by blast
  have fs': "i = next_inode fs" "fs' = fs\<lparr>names := (names fs)(path @ ''.tmp'' \<mapsto> next_inode fs),
      content := (content fs)(next_inode fs := []), next_inode := Suc (next_inode fs)\<rparr>"
    using assms(2) None by (auto simp: open_truncated_def)
  have "fresh_names fs'" using f by (auto simp: fresh_names_def fs' intro: less_SucI)
  moreover have "apart path fs'" using n [of path] by (auto simp: apart_def fs')
  moreover have "read_name fs' path = read_name fs path"
    using n [of path] by (cases "names fs path") (auto simp: read_name_def fs')
  ultimately show ?thesis using assms(1) by (simp add: alone_def fs'(1)) (simp add: fs')
next
  case (Some j)
  with assms show ?thesis
    by (auto simp: alone_def open_truncated_def fresh_names_def apart_def read_name_def map_option_case
        split: option.splits)
qed

lemma alone_write:
  "alone path data old fs (Opened d i) \<Longrightarrow> alone path data old (write_start i d fs) (Written d)"
  by (auto simp: alone_def write_start_def fresh_names_def apart_def read_name_def map_option_case
      split: option.splits)

lemma alone_rename:
  assumes "alone path data old fs (Written d)" and "rename_inode (path @ ''.tmp'') path fs = (e, fs')"
  shows "alone path data old fs' (Returned e)"
  using assms
  by (auto simp: alone_def rename_inode_def fresh_names_def apart_def read_name_def
      split: option.splits if_splits)

lemma alone_step:
  assumes "save_step path (fs, sv) (fs', sv')" and "alone path data old fs (sv k)"
    and "\<forall>j. j \<noteq> k \<longrightarrow> (\<exists>e. sv j = Returned e)"
  shows "alone path data old fs' (sv' k) \<and> (\<forall>j. j \<noteq> k \<longrightarrow> (\<exists>e. sv' j = Returned e))"
proof -
  have k: "j = k" if "sv j = Ready d \<or> sv j = Opened d i \<or> sv j = Written d" for j d i
    using assms(3) that by force
  from assms(1) show ?thesis
  proof (rule save_stepE)
    fix j d i
    assume "sv' = sv(j := Opened d i)" "sv j = Ready d" "open_truncated (path @ ''.tmp'') fs = (i, fs')"
    with k [of j d i] alone_open assms(2,3) show ?thesis by force
  next
    fix j d i
    assume "fs' = write_start i d fs" "sv' = sv(j := Written d)" "sv j = Opened d i"
    with k [of j d i] alone_write assms(2,3) show ?thesis by force
  next
    fix j d e
    assume "sv' = sv(j := Returned e)" "sv j = Written d" "rename_inode (path @ ''.tmp'') path fs = (e, fs')"
    with k [of j d] alone_rename assms(2,3) show ?thesis by force
  qed
qed


text \<open>
  A saver that is alone is atomic at every step, also when it stops there: the cursor file
  holds the old document or the whole new one, and the save succeeds.
\<close>

lemma save_alone_atomic:
  assumes "(save_step path)\<^sup>*\<^sup>* (fs, sv) \<sigma>" and "sv k = Ready data"
    and "\<forall>j. j \<noteq> k \<longrightarrow> (\<exists>e. sv j = Returned e)" and "fresh_names fs" and "apart path fs"
  shows "read_name (fst \<sigma>) path \<in> {read_name fs path, Some data}"
proof -
  let ?J = "\<lambda>\<sigma>. alone path data (read_name fs path) (fst \<sigma>) (snd \<sigma> k)
    \<and> (\<forall>j. j \<noteq> k \<longrightarrow> (\<exists>e. snd \<sigma> j = Returned e))"
  from assms(1) have "?J \<sigma>"
  proof (induction rule: rtranclp_induct)
    case base
    from assms(2-) show ?case by (simp add: alone_def)
  next
    case (step \<tau> \<upsilon>)
    obtain fs1 sv1 fs2 sv2 where e: "\<tau> = (fs1, sv1)" "\<upsilon> = (fs2, sv2)" by fastforce
    from step.hyps(2) have "save_step path (fs1, sv1) (fs2, sv2)" unfolding e .
    moreover from step.IH have "alone path data (read_name fs path) fs1 (sv1 k)"
      and "\<forall>j. j \<noteq> k \<longrightarrow> (\<exists>r. sv1 j = Returned r)" by (simp_all add: e)
    ultimately show ?case unfolding e fst_conv snd_conv by (rule alone_step)
  qed
  then show ?thesis by (auto simp: alone_def split: saver.splits)
qed

text \<open>
  The three steps run without interruption are \<open>SaveCursor\<close>, where files have no second name.
\<close>

definition unlinked :: "inodes \<Rightarrow> bool" where
  "unlinked fs \<longleftrightarrow> (\<forall>p q i. names fs p = Some i \<longrightarrow> names fs q = Some i \<longrightarrow> p = q)"

definition save_steps :: "string \<Rightarrow> string \<Rightarrow> inodes \<Rightarrow> go_error option \<times> inodes" where
  "save_steps path data fs =
     (let (i, fs1) = open_truncated (path @ ''.tmp'') fs
      in rename_inode (path @ ''.tmp'') path (write_start i data fs1))"

lemma read_open_write:
  assumes "open_truncated path fs = (i, fs1)" and "fresh_names fs" and "unlinked fs"
  shows "read_name (write_start i data fs1) = (read_name fs)(path \<mapsto> data)"
    and "names (write_start i data fs1) path = Some i"
proof -
  have r: "read_name (write_start i data fs1) p = ((read_name fs)(path \<mapsto> data)) p" for p
  proof (cases "names fs path")
    case None
    with assms(1) have n: "i = next_inode fs" "fs1 = fs\<lparr>names := (names fs)(path \<mapsto> next_inode fs),
        content := (content fs)(next_inode fs := []), next_inode := Suc (next_inode fs)\<rparr>"
      by (auto simp: open_truncated_def)
    have "a \<noteq> next_inode fs" if "names fs p = Some a" for a
      using assms(2) that by (force simp: fresh_names_def)
    then show ?thesis by (cases "names fs p") (simp_all add: n write_start_def read_name_def)
  next
    case (Some j)
    with assms show ?thesis
      by (cases "names fs p") (auto simp: open_truncated_def write_start_def read_name_def unlinked_def)
  qed
  then show "read_name (write_start i data fs1) = (read_name fs)(path \<mapsto> data)" by blast
  show "names (write_start i data fs1) path = Some i"
    using assms(1) by (auto simp: open_truncated_def write_start_def split: option.splits)
qed

lemma read_rename:
  assumes "names fs from = Some i" and "rename_inode from to_path fs = (e, fs')"
  shows "e = None" and "read_name fs' = (read_name fs)(from := None, to_path := read_name fs from)"
  using assms by (auto simp: rename_inode_def read_name_def fun_eq_iff)

lemma save_steps_SaveCursor:
  assumes "fresh_names fs" and "unlinked fs" and "cursor_Marshal codec c = Inr data"
    and "save_steps path data fs = (e, fs')"
  shows "SaveCursor codec no_faults (read_name fs) path c = (e, read_name fs')"
proof -
  obtain i fs1 where o: "open_truncated (path @ ''.tmp'') fs = (i, fs1)" by fastforce
  note w = read_open_write [OF o assms(1,2), of data]
  from assms(4) o have "rename_inode (path @ ''.tmp'') path (write_start i data fs1) = (e, fs')"
    by (simp add: save_steps_def)
  from read_rename [OF w(2) this] w(1) assms(3) show ?thesis
    by (simp add: SaveCursor_def no_faults_def write_file_def rename_file_def)
qed

subsection \<open>Two savers at a time\<close>

lemma open_truncated_again:
  assumes "open_truncated path fs = (i, fs1)"
  shows "open_truncated path fs1 = (i, fs1)" and "names fs1 path = Some i" and "content fs1 i = []"
  using assms by (auto simp: open_truncated_def split: option.splits)

text \<open>
  Both open the temporary file, the longer document is written first and the shorter one
  over it, and the first rename publishes the mixture.
\<close>

lemma saves_overlap:
  assumes "sv 0 = Ready d1" and "sv 1 = Ready d2"
  shows "\<exists>fs' e. (save_step path)\<^sup>*\<^sup>* (fs, sv) (fs', sv(0 := Returned None, 1 := Returned (Some e)))
    \<and> read_name fs' path = Some (d2 @ drop (length d2) d1)"
proof -
  obtain i fs1 where o: "open_truncated (path @ ''.tmp'') fs = (i, fs1)" by fastforce
  note a = open_truncated_again [OF o]
  let ?fs2 = "write_start i d2 (write_start i d1 fs1)"
  let ?fs3 = "?fs2\<lparr>names := (names ?fs2)(path @ ''.tmp'' := None, path \<mapsto> i)\<rparr>"
  let ?e = "NewError ''rename: no such file''"
  have n: "names ?fs2 (path @ ''.tmp'') = Some i" by (simp add: write_start_def a)
  have r1: "rename_inode (path @ ''.tmp'') path ?fs2 = (None, ?fs3)" unfolding rename_inode_def n by simp
  have r2: "rename_inode (path @ ''.tmp'') path ?fs3 = (Some ?e, ?fs3)" by (simp add: rename_inode_def)
  let ?s1 = "sv(0 := Opened d1 i)"
  let ?s2 = "?s1(1 := Opened d2 i)"
  let ?s3 = "?s2(0 := Written d1)"
  let ?s4 = "?s3(1 := Written d2)"
  let ?s5 = "?s4(0 := Returned None)"
  have 1: "save_step path (fs, sv) (fs1, ?s1)" using s_open [of sv 0 d1 path fs i fs1] assms(1) o by blast
  have 2: "save_step path (fs1, ?s1) (fs1, ?s2)" using s_open [of ?s1 1 d2 path fs1 i fs1] assms(2) a(1) by simp
  have 3: "save_step path (fs1, ?s2) (write_start i d1 fs1, ?s3)" using s_write [of ?s2 0 d1 i path fs1] by simp
  have 4: "save_step path (write_start i d1 fs1, ?s3) (?fs2, ?s4)" using s_write [of ?s3 1 d2 i path "write_start i d1 fs1"] by simp
  have 5: "save_step path (?fs2, ?s4) (?fs3, ?s5)" using s_rename [of ?s4 0 d1 path ?fs2 None ?fs3] r1 by simp
  have 6: "save_step path (?fs3, ?s5) (?fs3, ?s5(1 := Returned (Some ?e)))" using s_rename [of ?s5 1 d2 path ?fs3 "Some ?e" ?fs3] r2 by simp
  have "(save_step path)\<^sup>*\<^sup>* (fs, sv) (?fs3, ?s5(1 := Returned (Some ?e)))"
    using 1 2 3 4 5 6 by (meson converse_rtranclp_into_rtranclp rtranclp.rtrancl_refl)
  moreover have "?s5(1 := Returned (Some ?e)) = sv(0 := Returned None, 1 := Returned (Some ?e))"
    by (simp add: fun_eq_iff)
  moreover have "read_name ?fs3 path = Some (d2 @ drop (length d2) d1)"
    by (simp add: read_name_def write_start_def a(3))
  ultimately show ?thesis by metis
qed

text \<open>
  C40: The temporary file makes one save atomic, but not two at a time. Two overlapping polls
  that save cursors of different sizes can end with a corrupt cursor file, although one of
  the saves reported success: both write the one temporary file, and the rename publishes a
  mixture. The next poll then starts cold, at the configured time, with no identifier and no
  marker known.
\<close>

theorem overlapping_saves_corrupt:
  assumes "storable codec c1" and "cursor_Marshal codec c1 = Inr d1"
    and "storable codec c2" and "cursor_Marshal codec c2 = Inr d2" and "length d2 < length d1"
    and "sv 0 = Ready d1" and "sv 1 = Ready d2"
  shows "\<exists>fs' e. (save_step path)\<^sup>*\<^sup>* (fs, sv) (fs', sv(0 := Returned None, 1 := Returned (Some e)))
    \<and> LoadCursor codec no_faults (read_name fs') path start = Inr (newCursor start)"
proof -
  from saves_overlap [OF assms(6,7)] obtain fs' e where
    r: "(save_step path)\<^sup>*\<^sup>* (fs, sv) (fs', sv(0 := Returned None, 1 := Returned (Some e)))"
    and f: "read_name fs' path = Some (d2 @ drop (length d2) d1)" by blast
  have "drop (length d2) d1 \<noteq> []" using assms(5) by simp
  moreover from this have "last (drop (length d2) d1) = CHR ''}''"
    using Marshal_shape(3) [OF assms(2)] by (simp add: last_drop)
  ultimately have "skip_ws (drop (length d2) d1) \<noteq> []"
    by (intro skip_ws_last) (simp_all add: is_json_space_def)
  from corrupt_tail [OF assms(3,4) this] f
  have "LoadCursor codec no_faults (read_name fs') path start = Inr (newCursor start)"
    by (simp add: LoadCursor_def no_faults_def)
  with r show ?thesis by blast
qed


text \<open>A cursor with a marker is written longer than the cold-start cursor of the same time.\<close>

definition marked_cursor :: Cursor where
  "marked_cursor = (newCursor example_time)\<lparr>QueuedMarkers := Some [(''bborbe/widget#42'', ''t1'')]\<rparr>"

lemma race_cursors:
  obtains d1 d2 where "storable example_codec marked_cursor" "cursor_Marshal example_codec marked_cursor = Inr d1"
    and "storable example_codec (newCursor example_time)"
    and "cursor_Marshal example_codec (newCursor example_time) = Inr d2" and "length d2 < length d1"
proof -
  have v: "valid_utf8 ''bborbe/widget#42''" "valid_utf8 ''t1''" by (intro ascii_valid_utf8, simp)+
  have c: "codec_ok example_codec example_time"
    using example_storable by (simp add: storable_def example_cursor_def)
  have "storable example_codec marked_cursor" "storable example_codec (newCursor example_time)"
    using c v by (simp_all add: storable_def marked_cursor_def newCursor_def make_map_def map_wf_def map_keys_def
        map_valid_utf8_def)
  moreover have "\<exists>d1 d2. cursor_Marshal example_codec marked_cursor = Inr d1
      \<and> cursor_Marshal example_codec (newCursor example_time) = Inr d2 \<and> length d2 < length d1"
    by (simp add: cursor_Marshal_def example_codec_def marked_cursor_def newCursor_def make_map_def map_keys_def)
  ultimately show thesis using that by blast
qed

definition race_start :: "string \<Rightarrow> string \<Rightarrow> inodes \<times> (nat \<Rightarrow> saver)" where
  "race_start d1 d2 = (\<lparr>names = Map.empty, content = (\<lambda>i. []), next_inode = 0\<rparr>,
     (\<lambda>i. Returned None)(0 := Ready d1, 1 := Ready d2))"

theorem overlapping_saves_corrupt_witness:
  "\<exists>d1 d2 fs' sv'. cursor_Marshal example_codec marked_cursor = Inr d1
    \<and> (save_step ''c'')\<^sup>*\<^sup>* (race_start d1 d2) (fs', sv') \<and> sv' 0 = Returned None
    \<and> LoadCursor example_codec no_faults (read_name fs') ''c'' 50 = Inr (newCursor 50)"
proof -
  obtain d1 d2 where d: "storable example_codec marked_cursor" "cursor_Marshal example_codec marked_cursor = Inr d1"
    "storable example_codec (newCursor example_time)"
    "cursor_Marshal example_codec (newCursor example_time) = Inr d2" "length d2 < length d1"
    by (rule race_cursors)
  have "snd (race_start d1 d2) 0 = Ready d1" "snd (race_start d1 d2) 1 = Ready d2"
    by (simp_all add: race_start_def)
  from overlapping_saves_corrupt [OF d this, of "''c''" "fst (race_start d1 d2)" 50] d(2)
  show ?thesis by (metis fun_upd_other fun_upd_same prod.collapse zero_neq_one)
qed

end
