(* ===== verification/Poll_Machine.thy ===== *)
theory Poll_Machine
  imports Pr_Machine Cursor_Race
begin

text \<open>
  \<open>Poll\<close> as a program with a control state: the points between which other goroutines run
  and at which the process may be killed. A poll stops before it loads the cursor, before
  each page of the search, at the \<open>select\<close> after it, before each pull request, before each
  call made for it (\<open>Pr_Machine\<close>), and before each of the three steps of \<open>SaveCursor\<close>. What it keeps between two points is in the
  control state; the world, the counters, the file system with its inodes and the history
  of sent commands are shared.
\<close>

record 'w shared =
  sh_world :: 'w
  sh_metrics :: prometheusMetrics
  sh_fs :: inodes
  sh_sent :: "CreateCommand list"

datatype control =
    At_start
  | At_page Cursor int "PullRequest list"
  | At_select Cursor "PullRequest list"
  | At_pr Cursor "(string, string) go_map" datetime "PullRequest list"
  | In_pr pr_control Cursor "(string, string) go_map" datetime PullRequest "PullRequest list"
  | At_save Cursor
  | At_write disk_faults string nat
  | At_rename disk_faults
  | Ended "go_error option"

text \<open>The state a poll of its own would see, and the shared state after it.\<close>

definition view :: "'w shared \<Rightarrow> 'w wstate" where
  "view s = \<lparr>world = sh_world s, metrics = sh_metrics s, disk = read_name (sh_fs s), sent = sh_sent s\<rparr>"

definition write_back :: "('w, 'z) wstate_scheme \<Rightarrow> 'w shared \<Rightarrow> 'w shared" where
  "write_back v s = \<lparr>sh_world = world v, sh_metrics = metrics v, sh_fs = sh_fs s, sh_sent = sent v\<rparr>"

definition batch_state :: "'w shared \<Rightarrow> Cursor \<Rightarrow> (string, string) go_map \<Rightarrow> 'w pstate" where
  "batch_state s c new = (begin_batch c (view s))\<lparr>newHeadSHAs := new\<rparr>"

definition tmp_path :: "'w watcher \<Rightarrow> string" where
  "tmp_path w = cursorPath w @ ''.tmp''"

text \<open>The cursor to save: the new map of identifiers and the advanced watermark.\<close>

definition finished :: "Cursor \<Rightarrow> (string, string) go_map \<Rightarrow> datetime \<Rightarrow> Cursor" where
  "finished c new maxUpdatedAt =
     (let c = c\<lparr>HeadSHAs := new\<rparr>
      in if maxUpdatedAt > LastUpdatedAt c then c\<lparr>LastUpdatedAt := maxUpdatedAt\<rparr> else c)"

text \<open>Whether or not the cursor was saved, the poll counts as a success.\<close>

definition end_poll :: "'w shared \<Rightarrow> (control \<times> 'w shared) option" where
  "end_poll s = Some (Ended None, s\<lparr>sh_metrics := IncPollCycle ''success'' (sh_metrics s)\<rparr>)"

fun poll_step :: "'w watcher \<Rightarrow> control \<Rightarrow> ('w shared, control) call" where
  "poll_step w At_start s =
     (let (faults, wd) = Disk w (sh_world s); s = s\<lparr>sh_world := wd\<rparr>
      in case LoadCursor (codec w) faults (read_name (sh_fs s)) (cursorPath w) (startTime w) of
           Inl err \<Rightarrow> Some (Ended (Some (Wrapped ''load cursor'' err)), s)
         | Inr c \<Rightarrow> Some (At_page c 1 [], s))"
| "poll_step w (At_page c page allPRs) s =
     (let (done, wd) = ctx_Done w (sh_world s)
      in if done then Some (At_select c [], s\<lparr>sh_world := wd\<rparr>)
         else
           do {
             (result, wd) \<leftarrow> SearchPRs (ghClient w) (w_scope w) (LastUpdatedAt c) page wd;
             let s = s\<lparr>sh_world := wd\<rparr>;
             case result of
               Inl _ \<Rightarrow> Some (Ended None, s\<lparr>sh_metrics := IncPollCycle ''github_error'' (sh_metrics s)\<rparr>)
             | Inr result \<Rightarrow>
                 if \<not> HasNextPage result then Some (At_select c (allPRs @ PullRequests result), s)
                 else Some (At_page c (NextPage result) (allPRs @ PullRequests result), s)
           })"
| "poll_step w (At_select c allPRs) s =
     (let (done, wd) = ctx_Done w (sh_world s); s = s\<lparr>sh_world := wd\<rparr>
      in if done then Some (Ended None, s)
         else Some (At_pr c make_map (LastUpdatedAt c) allPRs, s))"
| "poll_step w (At_pr c new maxUpdatedAt []) s = Some (At_save (finished c new maxUpdatedAt), s)"
| "poll_step w (At_pr c new maxUpdatedAt (pr # prs)) s =
     (let (done, wd) = ctx_Done w (sh_world s); s = s\<lparr>sh_world := wd\<rparr>
      in if done then Some (At_save (finished c new maxUpdatedAt), s)
         else Some (In_pr Pr_begin c new maxUpdatedAt pr prs, s))"
| "poll_step w (In_pr ctl c new maxUpdatedAt pr prs) s =
     (case pr_result ctl of
        Some (updatedAt, ok) \<Rightarrow>
          Some (At_pr c new (if ok \<and> updatedAt > maxUpdatedAt then updatedAt else maxUpdatedAt) prs, s)
      | None \<Rightarrow>
          do {
            (ctl, p) \<leftarrow> pr_step w pr ctl (batch_state s c new);
            Some (In_pr ctl (cursor p) (newHeadSHAs p) maxUpdatedAt pr prs, write_back p s)
          })"
| "poll_step w (At_save c) s =
     (let (faults, wd) = Disk w (sh_world s); s = s\<lparr>sh_world := wd\<rparr>
      in case cursor_Marshal (codec w) c of
           Inl _ \<Rightarrow> end_poll s
         | Inr data \<Rightarrow>
             (case write_fault faults of
                Some (None, _) \<Rightarrow> end_poll s
              | _ \<Rightarrow>
                  (let (i, fs) = open_truncated (tmp_path w) (sh_fs s)
                   in Some (At_write faults data i, s\<lparr>sh_fs := fs\<rparr>))))"
| "poll_step w (At_write faults data i) s =
     (case write_fault faults of
        Some (Some written, _) \<Rightarrow> end_poll (s\<lparr>sh_fs := write_start i (take written data) (sh_fs s)\<rparr>)
      | _ \<Rightarrow> Some (At_rename faults, s\<lparr>sh_fs := write_start i data (sh_fs s)\<rparr>))"
| "poll_step w (At_rename faults) s =
     (case rename_fault faults of
        Some _ \<Rightarrow> end_poll s
      | None \<Rightarrow> end_poll (s\<lparr>sh_fs := snd (rename_inode (tmp_path w) (cursorPath w) (sh_fs s))\<rparr>))"
| "poll_step w (Ended r) s = Some (Ended r, s)"

text \<open>A poll that runs alone.\<close>

inductive solo :: "'w watcher \<Rightarrow> control \<Rightarrow> 'w shared \<Rightarrow> control \<Rightarrow> 'w shared \<Rightarrow> bool" for w where
  solo_refl: "solo w c s c s"
| solo_step: "poll_step w c s = Some (c1, s1) \<Longrightarrow> solo w c1 s1 c2 s2 \<Longrightarrow> solo w c s c2 s2"

lemma solo_trans: "solo w c s c1 s1 \<Longrightarrow> solo w c1 s1 c2 s2 \<Longrightarrow> solo w c s c2 s2"
  by (induction rule: solo.induct) (auto intro: solo_step)

subsection \<open>What is left of a poll\<close>

text \<open>
  The rest of \<open>Poll\<close> from a control state, in terms of the functions it calls. A step of the
  machine that runs alone leaves this rest as it is, so the machine computes \<open>Poll\<close>.
\<close>

definition save_rest :: "'w watcher \<Rightarrow> Cursor \<Rightarrow> 'w wstate \<Rightarrow> go_error option \<times> 'w wstate" where
  "save_rest w c v =
     (let (faults, wd) = Disk w (world v);
          (_, files) = SaveCursor (codec w) faults (disk v) (cursorPath w) c
      in (None, v\<lparr>world := wd, metrics := IncPollCycle ''success'' (metrics v), disk := files\<rparr>))"

definition saved_rest :: "'w watcher \<Rightarrow> (datetime \<times> 'w pstate) option \<Rightarrow> (go_error option \<times> 'w wstate) option" where
  "saved_rest w r =
     do {
       (mx, p) \<leftarrow> r;
       Some (save_rest w (if mx > LastUpdatedAt (cursor p) then (cursor p)\<lparr>LastUpdatedAt := mx\<rparr> else cursor p)
               \<lparr>world = world p, metrics = metrics p, disk = disk p, sent = sent p\<rparr>)
     }"

lemma saved_rest_None [simp]: "saved_rest w r = None \<longleftrightarrow> r = None"
  by (cases r) (auto simp: saved_rest_def)

definition batch_rest ::
  "'w watcher \<Rightarrow> Cursor \<Rightarrow> (string, string) go_map \<Rightarrow> datetime \<Rightarrow> PullRequest list \<Rightarrow> 'w wstate
    \<Rightarrow> (go_error option \<times> 'w wstate) option"
where
  "batch_rest w c new mx prs v = saved_rest w (process_loop w prs mx ((begin_batch c v)\<lparr>newHeadSHAs := new\<rparr>))"

definition in_pr_rest ::
  "'w watcher \<Rightarrow> pr_control \<Rightarrow> Cursor \<Rightarrow> (string, string) go_map \<Rightarrow> datetime \<Rightarrow> PullRequest \<Rightarrow> PullRequest list
    \<Rightarrow> 'w wstate \<Rightarrow> (go_error option \<times> 'w wstate) option"
where
  "in_pr_rest w ctl c new mx pr prs v =
     saved_rest w
       (do {
          ((t, ok), p) \<leftarrow> pr_rest w pr ctl ((begin_batch c v)\<lparr>newHeadSHAs := new\<rparr>);
          process_loop w prs (if ok \<and> t > mx then t else mx) p
        })"

definition select_rest ::
  "'w watcher \<Rightarrow> Cursor \<Rightarrow> PullRequest list \<Rightarrow> 'w wstate \<Rightarrow> (go_error option \<times> 'w wstate) option"
where
  "select_rest w c prs v =
     (let (done, wd) = ctx_Done w (world v); v = v\<lparr>world := wd\<rparr>
      in if done then Some (None, v) else batch_rest w c make_map (LastUpdatedAt c) prs v)"

definition page_rest ::
  "'w watcher \<Rightarrow> Cursor \<Rightarrow> int \<Rightarrow> PullRequest list \<Rightarrow> 'w wstate \<Rightarrow> (go_error option \<times> 'w wstate) option"
where
  "page_rest w c page prs v =
     do {
       ((allPRs, abortReason), wd) \<leftarrow> fetch_loop w (LastUpdatedAt c) page prs (world v);
       let v = v\<lparr>world := wd\<rparr>;
       if abortReason \<noteq> '''' then Some (None, v\<lparr>metrics := IncPollCycle abortReason (metrics v)\<rparr>)
       else select_rest w c allPRs v
     }"

fun rest :: "'w watcher \<Rightarrow> control \<Rightarrow> 'w wstate \<Rightarrow> (go_error option \<times> 'w wstate) option" where
  "rest w At_start v = Poll w v"
| "rest w (At_page c page prs) v = page_rest w c page prs v"
| "rest w (At_select c prs) v = select_rest w c prs v"
| "rest w (At_pr c new mx prs) v = batch_rest w c new mx prs v"
| "rest w (In_pr ctl c new mx pr prs) v = in_pr_rest w ctl c new mx pr prs v"
| "rest w (At_save c) v = Some (save_rest w c v)"
| "rest w (At_write faults data i) v =
     Some (None, v\<lparr>metrics := IncPollCycle ''success'' (metrics v),
       disk := (case write_fault faults of
                  Some (Some written, _) \<Rightarrow> (disk v)(tmp_path w \<mapsto> take written data)
                | _ \<Rightarrow> snd (rename_file (rename_fault faults) (tmp_path w) (cursorPath w)
                              ((disk v)(tmp_path w \<mapsto> data))))\<rparr>)"
| "rest w (At_rename faults) v =
     Some (None, v\<lparr>metrics := IncPollCycle ''success'' (metrics v),
       disk := snd (rename_file (rename_fault faults) (tmp_path w) (cursorPath w) (disk v))\<rparr>)"
| "rest w (Ended r) v = Some (r, v)"

subsection \<open>The file system under the steps of a save\<close>

definition files_ok :: "inodes \<Rightarrow> bool" where
  "files_ok fs \<longleftrightarrow> fresh_names fs \<and> unlinked fs"

lemma write_nothing: "write_start i [] fs = fs"
  by (simp add: write_start_def)

lemma open_ok:
  assumes "open_truncated p fs = (i, fs1)" and "files_ok fs"
  shows "read_name fs1 = (read_name fs)(p \<mapsto> [])" and "names fs1 p = Some i"
    and "content fs1 i = []" and "files_ok fs1"
proof -
  show "read_name fs1 = (read_name fs)(p \<mapsto> [])" "names fs1 p = Some i"
    using read_open_write [OF assms(1), of "[]"] assms(2) by (simp_all add: files_ok_def write_nothing)
  show "content fs1 i = []" by (rule open_truncated_again [OF assms(1)])
  show "files_ok fs1"
  proof (cases "names fs p")
    case None
    with assms(1) have n: "names fs1 = (names fs)(p \<mapsto> next_inode fs)" "next_inode fs1 = Suc (next_inode fs)"
      by (auto simp: open_truncated_def)
    have less: "j < next_inode fs" if "names fs q = Some j" for q j
      using assms(2) that by (simp add: files_ok_def fresh_names_def)
    have "fresh_names fs1" using less by (auto simp: fresh_names_def n intro: less_SucI)
    moreover have "unlinked fs1"
      using assms(2) less by (force simp: files_ok_def unlinked_def n split: if_splits)
    ultimately show ?thesis by (simp add: files_ok_def)
  next
    case (Some j)
    with assms show ?thesis
      by (auto simp: open_truncated_def files_ok_def fresh_names_def unlinked_def)
  qed
qed

lemma write_ok:
  assumes "names fs p = Some i" and "content fs i = []" and "files_ok fs"
  shows "read_name (write_start i data fs) = (read_name fs)(p \<mapsto> data)"
proof
  fix q
  show "read_name (write_start i data fs) q = ((read_name fs)(p \<mapsto> data)) q"
    using assms by (cases "names fs q") (auto simp: write_start_def read_name_def files_ok_def unlinked_def)
qed

lemma files_ok_write [simp]: "files_ok (write_start i data fs) = files_ok fs"
  by (simp add: files_ok_def fresh_names_def unlinked_def write_start_def)

lemma rename_ok:
  assumes "rename_inode from to_path fs = (e, fs')"
  shows "rename_file None from to_path (read_name fs) = (e, read_name fs')"
    and "files_ok fs \<Longrightarrow> files_ok fs'"
proof -
  show "rename_file None from to_path (read_name fs) = (e, read_name fs')"
    using assms
    by (cases "names fs from") (auto simp: rename_inode_def rename_file_def read_name_def fun_eq_iff)
  show "files_ok fs'" if "files_ok fs"
  proof (cases "names fs from")
    case None
    with assms that show ?thesis by (simp add: rename_inode_def)
  next
    case (Some i)
    with assms have fs': "fs' = fs\<lparr>names := (names fs)(from := None, to_path \<mapsto> i)\<rparr>"
      by (simp add: rename_inode_def)
    from that have f: "fresh_names fs" and u: "unlinked fs" by (simp_all add: files_ok_def)
    have "fresh_names fs'" using f Some by (auto simp: fs' fresh_names_def)
    moreover have "unlinked fs'"
    proof -
      have "q = from" if "names fs q = Some i" for q
        using u that Some unfolding unlinked_def by blast
      with u show ?thesis unfolding unlinked_def fs' by (auto split: if_splits)
    qed
    ultimately show ?thesis by (simp add: files_ok_def)
  qed
qed

subsection \<open>A step leaves the rest as it is\<close>

fun fits :: "'w watcher \<Rightarrow> control \<Rightarrow> inodes \<Rightarrow> bool" where
  "fits w (At_write faults data i) fs \<longleftrightarrow>
     names fs (tmp_path w) = Some i \<and> content fs i = [] \<and> (\<forall>err. write_fault faults \<noteq> Some (None, err))"
| "fits w _ fs \<longleftrightarrow> True"

lemma view_simps [simp]:
  "world (view s) = sh_world s" "metrics (view s) = sh_metrics s"
  "disk (view s) = read_name (sh_fs s)" "sent (view s) = sh_sent s"
  "(view s)\<lparr>world := wd\<rparr> = view (s\<lparr>sh_world := wd\<rparr>)"
  "(view s)\<lparr>metrics := m\<rparr> = view (s\<lparr>sh_metrics := m\<rparr>)"
  by (simp_all add: view_def)

lemma view_disk: "(view s)\<lparr>disk := read_name fs\<rparr> = view (s\<lparr>sh_fs := fs\<rparr>)"
  by (simp add: view_def)

lemma batch_of_Poll:
  "do {
     (maxUpdatedAt, p) \<leftarrow> processPRs w prs (begin_batch c v);
     let c' = (if maxUpdatedAt > LastUpdatedAt (cursor p)
               then (cursor p)\<lparr>LastUpdatedAt := maxUpdatedAt\<rparr> else cursor p);
     let (faults, wd) = Disk w (world p);
     let (_, files) = SaveCursor (codec w) faults (disk p) (cursorPath w) c';
     Some (None, \<lparr>world = wd, metrics = IncPollCycle ''success'' (metrics p), disk = files, sent = sent p\<rparr>)
   } = batch_rest w c make_map (LastUpdatedAt c) prs v"
  by (simp add: batch_rest_def saved_rest_def processPRs_def begin_batch_def save_rest_def Let_def case_prod_beta')

lemma poll_rest_page: "poll_rest w c v = page_rest w c 1 [] v"
  unfolding poll_rest_def page_rest_def select_rest_def fetchAllPRs_def batch_of_Poll ..

lemma rest_start:
  assumes "poll_step w At_start s = Some (c', s')"
  shows "Poll w (view s) = rest w c' (view s') \<and> sh_fs s' = sh_fs s"
  using assms by (auto simp: Poll_phases poll_load_def poll_rest_page split: prod.splits sum.splits)

lemma rest_page:
  "page_rest w c page prs (view s) =
     (case poll_step w (At_page c page prs) s of None \<Rightarrow> None | Some (c', s') \<Rightarrow> rest w c' (view s'))"
proof -
  obtain d wd where d: "ctx_Done w (sh_world s) = (d, wd)" by fastforce
  note f = fetch_loop.simps [of w "LastUpdatedAt c" page prs "sh_world s"]
  show ?thesis
  proof (cases "d \<or> SearchPRs (ghClient w) (w_scope w) (LastUpdatedAt c) page wd = None")
    case True
    with d f show ?thesis by (cases d) (simp_all add: page_rest_def)
  next
    case False
    then obtain result wd2 where
      "SearchPRs (ghClient w) (w_scope w) (LastUpdatedAt c) page wd = Some (result, wd2)" by fastforce
    with False d f show ?thesis by (cases result) (simp_all add: page_rest_def)
  qed
qed

lemma rest_select:
  "select_rest w c prs (view s) =
     (case poll_step w (At_select c prs) s of None \<Rightarrow> None | Some (c', s') \<Rightarrow> rest w c' (view s'))"
  by (auto simp: select_rest_def Let_def split: prod.split)

text \<open>A pull request changes nothing on the disk.\<close>

lemma batch_state_back:
  "disk p = read_name (sh_fs s) \<Longrightarrow> batch_state (write_back p s) (cursor p) (newHeadSHAs p) = p"
  by (cases p) (simp add: batch_state_def begin_batch_def write_back_def view_def)

lemma pr_step_back:
  "pr_step w pr ctl (batch_state s c new) = Some (ctl', p) \<Longrightarrow>
    batch_state (write_back p s) (cursor p) (newHeadSHAs p) = p"
  by (rule batch_state_back) (use pr_step_keeps(2) in \<open>force simp: batch_state_def begin_batch_def view_def\<close>)

lemma batch_rest_state: "batch_rest w c new mx prs (view s) = saved_rest w (process_loop w prs mx (batch_state s c new))"
  by (simp add: batch_rest_def batch_state_def)

lemma in_pr_rest_state:
  "in_pr_rest w ctl c new mx pr prs (view s) =
     saved_rest w
       (do {
          ((t, ok), p) \<leftarrow> pr_rest w pr ctl (batch_state s c new);
          process_loop w prs (if ok \<and> t > mx then t else mx) p
        })"
  by (simp add: in_pr_rest_def batch_state_def)

lemma batch_state_world:
  "(batch_state s c new)\<lparr>world := wd\<rparr> = batch_state (s\<lparr>sh_world := wd\<rparr>) c new"
  "world (batch_state s c new) = sh_world s"
  by (simp_all add: batch_state_def begin_batch_def)

lemma rest_stop:
  "process_loop w prs mx (batch_state s c new) = Some (mx, commit_heads (batch_state s1 c new)) \<Longrightarrow>
    batch_rest w c new mx prs (view s) = rest w (At_save (finished c new mx)) (view s1)"
  unfolding batch_rest_state
  by (simp add: saved_rest_def batch_state_def begin_batch_def commit_heads_def finished_def view_def Let_def)

lemma rest_pr:
  "batch_rest w c new mx prs (view s) =
     (case poll_step w (At_pr c new mx prs) s of None \<Rightarrow> None | Some (c', s') \<Rightarrow> rest w c' (view s'))"
proof (cases prs)
  case Nil
  then show ?thesis using rest_stop [of w prs mx s c new s] by simp
next
  case (Cons pr prs')
  obtain d wd where d: "ctx_Done w (sh_world s) = (d, wd)" by fastforce
  let ?s = "s\<lparr>sh_world := wd\<rparr>"
  show ?thesis
  proof (cases d)
    case True
    with Cons d rest_stop [of w prs mx s c new ?s] show ?thesis by (simp add: batch_state_world)
  next
    case False
    with Cons d show ?thesis by (simp add: batch_rest_state in_pr_rest_state batch_state_world)
  qed
qed

lemma rest_in_pr:
  "in_pr_rest w ctl c new mx pr prs (view s) =
     (case poll_step w (In_pr ctl c new mx pr prs) s of None \<Rightarrow> None | Some (c', s') \<Rightarrow> rest w c' (view s'))"
proof (cases "pr_result ctl")
  case None
  show ?thesis
  proof (cases "pr_step w pr ctl (batch_state s c new)")
    case None
    with \<open>pr_result ctl = None\<close> pr_rest_step [of w pr ctl "batch_state s c new"] show ?thesis
      by (simp add: in_pr_rest_state saved_rest_def)
  next
    case (Some r)
    then obtain ctl' p where r: "pr_step w pr ctl (batch_state s c new) = Some (ctl', p)" by (cases r) auto
    from None pr_rest_step [of w pr ctl "batch_state s c new"] r pr_step_back [OF r] show ?thesis
      by (simp add: in_pr_rest_state)
  qed
next
  case (Some r)
  then have "ctl = Pr_done r" by (cases ctl) simp_all
  then show ?thesis by (cases r) (simp add: in_pr_rest_state batch_rest_state)
qed

lemma rest_save:
  assumes "files_ok (sh_fs s)" and "poll_step w (At_save c) s = Some (c', s')"
  shows "Some (save_rest w c (view s)) = rest w c' (view s') \<and> files_ok (sh_fs s') \<and> fits w c' (sh_fs s')"
proof -
  obtain faults wd where f: "Disk w (sh_world s) = (faults, wd)" by fastforce
  obtain i fs where o: "open_truncated (tmp_path w) (sh_fs s) = (i, fs)" by fastforce
  note fs = open_ok [OF o assms(1)]
  show ?thesis
  proof (cases "cursor_Marshal (codec w) c")
    case (Inl err)
    with assms f show ?thesis
      by (auto simp: save_rest_def SaveCursor_def end_poll_def Let_def view_def)
  next
    case (Inr data)
    consider err where "write_fault faults = Some (None, err)"
      | n err where "write_fault faults = Some (Some n, err)" | "write_fault faults = None"
      by (metis option.exhaust prod.exhaust)
    then show ?thesis
    proof cases
      case 1
      with Inr assms f show ?thesis
        by (auto simp: save_rest_def SaveCursor_def write_file_def end_poll_def Let_def view_def)
    next
      case 2
      with Inr assms f o fs show ?thesis
        by (auto simp: save_rest_def SaveCursor_def write_file_def tmp_path_def Let_def view_def)
    next
      case 3
      with Inr assms f o fs show ?thesis
        by (auto simp: save_rest_def SaveCursor_def write_file_def tmp_path_def Let_def view_def
            split: prod.split option.split)
    qed
  qed
qed

lemma rest_write:
  assumes "files_ok (sh_fs s)" and "fits w (At_write faults data i) (sh_fs s)"
    and "poll_step w (At_write faults data i) s = Some (c', s')"
  shows "rest w (At_write faults data i) (view s) = rest w c' (view s') \<and> files_ok (sh_fs s') \<and> fits w c' (sh_fs s')"
proof -
  from assms(2) have n: "names (sh_fs s) (tmp_path w) = Some i" "content (sh_fs s) i = []" by simp_all
  note r = write_ok [OF n assms(1)]
  consider k err where "write_fault faults = Some (Some k, err)" | "write_fault faults = None"
    using assms(2) by (cases "write_fault faults") auto
  then show ?thesis using assms(1,3) r by cases (auto simp: end_poll_def view_def)
qed

lemma rest_rename:
  assumes "files_ok (sh_fs s)" and "poll_step w (At_rename faults) s = Some (c', s')"
  shows "rest w (At_rename faults) (view s) = rest w c' (view s') \<and> files_ok (sh_fs s') \<and> fits w c' (sh_fs s')"
proof -
  obtain e fs where r: "rename_inode (tmp_path w) (cursorPath w) (sh_fs s) = (e, fs)" by fastforce
  from rename_ok [OF r] assms r show ?thesis
    by (cases "rename_fault faults") (auto simp: end_poll_def view_def rename_file_def)
qed

lemma search_keeps_files:
  "poll_step w (At_page c page prs) s = Some (c', s') \<Longrightarrow> sh_fs s' = sh_fs s \<and> fits w c' fs"
  "poll_step w (At_select c prs) s = Some (c', s') \<Longrightarrow> sh_fs s' = sh_fs s \<and> fits w c' fs"
  "poll_step w (At_pr c new mx prs) s = Some (c', s') \<Longrightarrow> sh_fs s' = sh_fs s \<and> fits w c' fs"
  "poll_step w At_start s = Some (c', s') \<Longrightarrow> sh_fs s' = sh_fs s \<and> fits w c' fs"
  "poll_step w (In_pr ctl c new mx pr prs) s = Some (c', s') \<Longrightarrow> sh_fs s' = sh_fs s \<and> fits w c' fs"
  subgoal by (auto simp: Let_def split: prod.splits sum.splits if_splits)
  subgoal by (auto simp: Let_def split: prod.splits if_splits)
  subgoal by (cases prs) (auto simp: Let_def split: prod.splits if_splits)
  subgoal by (auto simp: Let_def split: prod.splits sum.splits)
  subgoal by (auto simp: write_back_def split: option.splits prod.splits)
  done

lemma rest_step:
  assumes "poll_step w c s = Some (c', s')" and "files_ok (sh_fs s)" and "fits w c (sh_fs s)"
  shows "rest w c (view s) = rest w c' (view s')" and "files_ok (sh_fs s')" and "fits w c' (sh_fs s')"
proof -
  have "rest w c (view s) = rest w c' (view s') \<and> files_ok (sh_fs s') \<and> fits w c' (sh_fs s')"
  proof (cases c)
    case At_start
    with assms rest_start [of w s c' s'] search_keeps_files(4) [of w s c' s'] show ?thesis by simp
  next
    case (At_page c0 page prs)
    with assms rest_page [of w c0 page prs s] search_keeps_files(1) [of w c0 page prs s c' s'] show ?thesis by simp
  next
    case (At_select c0 prs)
    with assms rest_select [of w c0 prs s] search_keeps_files(2) [of w c0 prs s c' s'] show ?thesis by simp
  next
    case (At_pr c0 new mx prs)
    with assms rest_pr [of w c0 new mx prs s] search_keeps_files(3) [of w c0 new mx prs s c' s'] show ?thesis by simp
  next
    case (In_pr ctl c0 new mx pr prs)
    with assms rest_in_pr [of w ctl c0 new mx pr prs s] search_keeps_files(5) [of w ctl c0 new mx pr prs s c' s']
    show ?thesis by (simp del: poll_step.simps)
  next
    case (At_save c0)
    with assms rest_save [of s w c0 c' s'] show ?thesis by simp
  next
    case (At_write faults data i)
    with assms rest_write [of s w faults data i c' s'] show ?thesis by blast
  next
    case (At_rename faults)
    with assms rest_rename [of s w faults c' s'] show ?thesis by blast
  next
    case (Ended r)
    with assms show ?thesis by simp
  qed
  then show "rest w c (view s) = rest w c' (view s')" "files_ok (sh_fs s')" "fits w c' (sh_fs s')" by auto
qed

subsection \<open>The machine computes \<open>Poll\<close>\<close>

lemma solo_rest:
  "solo w c s c' s' \<Longrightarrow> files_ok (sh_fs s) \<Longrightarrow> fits w c (sh_fs s) \<Longrightarrow>
    rest w c (view s) = rest w c' (view s') \<and> files_ok (sh_fs s') \<and> fits w c' (sh_fs s')"
proof (induction rule: solo.induct)
  case (solo_step c s c1 s1 c2 s2)
  from rest_step [OF solo_step.hyps(1) solo_step.prems] solo_step.IH show ?case by simp
qed simp

definition ends :: "'w watcher \<Rightarrow> control \<Rightarrow> 'w shared \<Rightarrow> bool" where
  "ends w c s \<longleftrightarrow> (\<exists>r s'. solo w c s (Ended r) s')"

lemma ends_step: "poll_step w c s = Some (c1, s1) \<Longrightarrow> ends w c1 s1 \<Longrightarrow> ends w c s"
  by (auto simp: ends_def intro: solo_step)

lemma ends_Ended [simp]: "ends w (Ended r) s"
  by (auto simp: ends_def intro: solo_refl)

lemma ends_stepI:
  "poll_step w c s \<noteq> None \<Longrightarrow> (\<And>c1 s1. poll_step w c s = Some (c1, s1) \<Longrightarrow> ends w c1 s1) \<Longrightarrow> ends w c s"
  by (cases "poll_step w c s") (auto intro: ends_step)

lemma ends_end_poll [simp]: "end_poll s = Some (c1, s1) \<Longrightarrow> ends w c1 s1" "\<exists>c1 s1. end_poll s = Some (c1, s1)"
  by (auto simp: end_poll_def)

lemma ends_rename: "ends w (At_rename faults) s"
  by (rule ends_stepI) (auto split: option.splits)

lemma ends_write: "ends w (At_write faults data i) s"
  by (rule ends_stepI) (auto intro: ends_rename split: option.splits)

lemma ends_save: "ends w (At_save c) s"
  by (rule ends_stepI) (auto simp: Let_def intro: ends_write split: prod.splits sum.splits option.splits)

lemma ends_in_pr:
  assumes later: "\<And>mx s c new. process_loop w prs mx (batch_state s c new) \<noteq> None \<Longrightarrow> ends w (At_pr c new mx prs) s"
  shows "in_pr_rest w ctl c new mx pr prs (view s) \<noteq> None \<Longrightarrow> ends w (In_pr ctl c new mx pr prs) s"
proof (induction ctl arbitrary: c new s rule: wf_induct_rule [OF pm.wf_nearer])
  case (1 ctl)
  show ?case
  proof (cases "pr_result ctl")
    case None
    from 1(2) None rest_in_pr [of w ctl c new mx pr prs s] obtain ctl' p where
      r: "pr_step w pr ctl (batch_state s c new) = Some (ctl', p)"
      by (cases "pr_step w pr ctl (batch_state s c new)") auto
    with 1(2) None rest_in_pr [of w ctl c new mx pr prs s]
    have "in_pr_rest w ctl' (cursor p) (newHeadSHAs p) mx pr prs (view (write_back p s)) \<noteq> None" by simp
    from 1(1) [OF pr_nearer_step [OF None r] this] None r show ?thesis by (intro ends_step [OF _ \<open>ends _ _ _\<close>]) simp
  next
    case (Some r)
    with 1(2) rest_in_pr [of w ctl c new mx pr prs s] later show ?thesis
      by (cases r) (auto simp: batch_rest_state saved_rest_def intro!: ends_step [of w "In_pr ctl c new mx pr prs"])
  qed
qed

lemma ends_pr: "process_loop w prs mx (batch_state s c new) \<noteq> None \<Longrightarrow> ends w (At_pr c new mx prs) s"
proof (induction prs arbitrary: mx s c new)
  case Nil
  show ?case by (rule ends_step) (auto intro: ends_save)
next
  case (Cons pr prs)
  obtain d wd where d: "ctx_Done w (sh_world s) = (d, wd)" by fastforce
  let ?s = "s\<lparr>sh_world := wd\<rparr>"
  show ?case
  proof (cases d)
    case True
    with d show ?thesis by (intro ends_step [OF _ ends_save]) simp
  next
    case False
    with Cons.prems d have "in_pr_rest w Pr_begin c new mx pr prs (view ?s) \<noteq> None"
      by (auto simp: in_pr_rest_state saved_rest_def batch_state_world split: option.splits)
    from ends_in_pr [OF Cons.IH this] d False show ?thesis
      by (intro ends_step [of w "At_pr c new mx (pr # prs)" s]) simp_all
  qed
qed

lemma ends_select:
  assumes "select_rest w c prs (view s) \<noteq> None"
  shows "ends w (At_select c prs) s"
proof -
  obtain d wd where d: "ctx_Done w (sh_world s) = (d, wd)" by fastforce
  show ?thesis
  proof (cases d)
    case True
    with d show ?thesis by (intro ends_step [OF _ ends_Ended]) simp
  next
    case False
    with assms d have "ends w (At_pr c make_map (LastUpdatedAt c) prs) (s\<lparr>sh_world := wd\<rparr>)"
      by (intro ends_pr) (auto simp: select_rest_def batch_rest_state)
    with d False show ?thesis by (intro ends_step [of w "At_select c prs" s]) simp_all
  qed
qed

text \<open>The search reaches its end on the machine as the pages say.\<close>

lemma page_step:
  assumes "search_fetch w (LastUpdatedAt c) page (sh_world s) = Some (r, wd)"
  shows "poll_step w (At_page c page acc) s =
    Some (case r of
            Inl reason \<Rightarrow>
              if reason = '''' then (At_select c [], s\<lparr>sh_world := wd\<rparr>)
              else (Ended None, s\<lparr>sh_world := wd, sh_metrics := IncPollCycle ''github_error'' (sh_metrics s)\<rparr>)
          | Inr (xs, None) \<Rightarrow> (At_select c (acc @ xs), s\<lparr>sh_world := wd\<rparr>)
          | Inr (xs, Some p) \<Rightarrow> (At_page c p (acc @ xs), s\<lparr>sh_world := wd\<rparr>))"
  using assms by (auto simp: search_fetch_def Let_def split: prod.splits sum.splits if_splits)

lemma served_solo:
  "served (search_fetch w (LastUpdatedAt c)) page wd chunks wd' \<Longrightarrow> sh_world s = wd \<Longrightarrow>
    solo w (At_page c page acc) s (At_select c (acc @ concat chunks)) (s\<lparr>sh_world := wd'\<rparr>)"
proof (induction arbitrary: acc s rule: served.induct)
  case (last_page page wd xs wd')
  with page_step [of w c page s _ wd' acc] show ?case by (auto intro: solo_step solo_refl)
next
  case (next_page page wd xs q wd1 chunks wd')
  with page_step [of w c page s "Inr (xs, Some q)" wd1 acc]
    next_page.IH [of "s\<lparr>sh_world := wd1\<rparr>" "acc @ xs"] show ?case
    by (auto intro: solo_step)
qed

lemma broken_ends:
  "broken (search_fetch w (LastUpdatedAt c)) page wd e wd' \<Longrightarrow> sh_world s = wd \<Longrightarrow>
    solo w (At_page c page acc) s (At_select c []) (s\<lparr>sh_world := wd'\<rparr>) \<or> ends w (At_page c page acc) s"
proof (induction arbitrary: acc s rule: broken.induct)
  case (error_page page wd e wd')
  with page_step [of w c page s "Inl e" wd' acc] show ?case
    by (cases "e = ''''") (auto intro: solo_step solo_refl ends_step)
next
  case (later_error page wd xs q wd1 e wd')
  with page_step [of w c page s "Inr (xs, Some q)" wd1 acc]
    later_error.IH [of "s\<lparr>sh_world := wd1\<rparr>" "acc @ xs"] show ?case
    by (auto intro: solo_step ends_step)
qed

lemma ends_solo: "solo w c s c1 s1 \<Longrightarrow> ends w c1 s1 \<Longrightarrow> ends w c s"
  by (auto simp: ends_def intro: solo_trans)

lemma ends_page:
  assumes "page_rest w c page prs (view s) \<noteq> None" and "files_ok (sh_fs s)"
  shows "ends w (At_page c page prs) s"
proof -
  have sel: "ends w (At_page c page prs) s" if "solo w (At_page c page prs) s (At_select c xs) s'" for xs s'
  proof -
    from solo_rest [OF that assms(2)] assms(1) have "select_rest w c xs (view s') \<noteq> None" by simp
    from ends_solo [OF that ends_select [OF this]] show ?thesis .
  qed
  from assms(1) obtain r where "fetch_loop w (LastUpdatedAt c) page prs (sh_world s) = Some r"
    by (auto simp: page_rest_def)
  from search.returned [OF this] consider
      chunks wd' where "served (search_fetch w (LastUpdatedAt c)) page (sh_world s) chunks wd'"
    | e wd' where "broken (search_fetch w (LastUpdatedAt c)) page (sh_world s) e wd'"
    by blast
  then show ?thesis
  proof cases
    case 1
    from sel [OF served_solo [OF 1 refl]] show ?thesis .
  next
    case 2
    from broken_ends [OF 2 refl, of prs] sel show ?thesis by blast
  qed
qed

text \<open>
  C11: A poll that runs alone computes \<open>Poll\<close>: from a file system without second names the
  machine ends with a result and a state exactly when \<open>Poll\<close> returns this result, with the
  same world, counters, files and commands sent.
\<close>

theorem machine_computes_Poll:
  assumes "files_ok (sh_fs s)"
  shows "(\<exists>s'. solo w At_start s (Ended r) s' \<and> view s' = v) \<longleftrightarrow> Poll w (view s) = Some (r, v)"
proof
  assume "\<exists>s'. solo w At_start s (Ended r) s' \<and> view s' = v"
  then show "Poll w (view s) = Some (r, v)" using solo_rest [of w At_start s "Ended r"] assms by auto
next
  assume p: "Poll w (view s) = Some (r, v)"
  have "ends w At_start s"
  proof (rule ends_stepI)
    show "poll_step w At_start s \<noteq> None" by (auto simp: Let_def split: prod.split sum.split)
    fix c1 s1
    assume st: "poll_step w At_start s = Some (c1, s1)"
    from rest_start [OF st] p have "rest w c1 (view s1) = Some (r, v)" "sh_fs s1 = sh_fs s" by auto
    moreover from st have "(\<exists>e. c1 = Ended e) \<or> (\<exists>c. c1 = At_page c 1 [])"
      by (auto simp: Let_def split: prod.splits sum.splits)
    ultimately show "ends w c1 s1" using assms ends_page [of w _ 1 "[]" s1] by auto
  qed
  then obtain r' s' where "solo w At_start s (Ended r') s'" by (auto simp: ends_def)
  with solo_rest [OF this assms] p show "\<exists>s'. solo w At_start s (Ended r) s' \<and> view s' = v" by auto
qed

theorem machine_computes_Poll_witness:
  "\<exists>s s' v. files_ok (sh_fs s) \<and> Poll (example_watcher [failing_pr, example_pr]) (view s) = Some (None, v)
    \<and> solo (example_watcher [failing_pr, example_pr]) At_start s (Ended None) s' \<and> view s' = v
    \<and> sh_sent s' = [example_command]"
proof -
  let ?w = "example_watcher [failing_pr, example_pr]"
  define s where "s = \<lparr>sh_world = (), sh_metrics = no_metrics,
    sh_fs = \<lparr>names = Map.empty, content = (\<lambda>i. []), next_inode = 0\<rparr>, sh_sent = []\<rparr>"
  have v: "view s = example_state"
    by (simp add: s_def view_def example_state_def read_name_def fun_eq_iff)
  have ok: "files_ok (sh_fs s)" by (simp add: s_def files_ok_def fresh_names_def unlinked_def)
  from example_poll obtain t where t: "Poll ?w example_state = Some (None, t)" "sent t = [example_command]"
    by blast
  from machine_computes_Poll [OF ok, of ?w None t] t(1) obtain s' where
    "solo ?w At_start s (Ended None) s'" "view s' = t" by (auto simp: v)
  with ok t v show ?thesis
    by (intro exI [of _ s] exI [of _ s'] exI [of _ t]) (auto simp flip: view_simps(4))
qed

end
