(* ===== verification/Poll_Crash.thy ===== *)
theory Poll_Crash
  imports Poll_Machine
begin

text \<open>
  Polls one after the other in a process that may be killed at any point of a poll and is
  started again: what a later poll finds in the cursor file.
\<close>

text \<open>History: the cursor being saved, and the last one whose file was put in place.\<close>

type_synonym saves_seen = "Cursor option \<times> Cursor option"

fun track :: "control \<Rightarrow> saves_seen \<Rightarrow> saves_seen" where
  "track (At_save c) (pending, saved) = (Some c, saved)"
| "track (At_rename faults) (pending, saved) =
     (if rename_fault faults = None then (pending, pending) else (pending, saved))"
| "track _ h = h"

text \<open>
  A run starts with a poll. Each poll runs to its end, with any change of the world before
  the next one, or the process is killed, whatever it was doing; then the files stay as they
  are, the counters start again, the new process has a start time of its own and polls.
\<close>

inductive serial ::
  "'w watcher \<Rightarrow> 'w shared \<Rightarrow> 'w watcher \<Rightarrow> control \<Rightarrow> 'w shared \<Rightarrow> saves_seen \<Rightarrow> bool"
  for w0 s0 where
  sr_begin: "serial w0 s0 w0 At_start s0 (None, None)"
| sr_step: "serial w0 s0 w c s h \<Longrightarrow> poll_step w c s = Some (c', s') \<Longrightarrow> serial w0 s0 w c' s' (track c h)"
| sr_next: "serial w0 s0 w (Ended r) s h \<Longrightarrow> serial w0 s0 w At_start (s\<lparr>sh_world := wd\<rparr>) h"
| sr_kill: "serial w0 s0 w c s h \<Longrightarrow>
    serial w0 s0 (w\<lparr>startTime := now\<rparr>) At_start (s\<lparr>sh_world := wd, sh_metrics := m\<rparr>) h"

subsection \<open>The invariant\<close>

definition tables :: "Cursor \<Rightarrow> bool" where
  "tables c \<longleftrightarrow> table_ok (HeadSHAs c) \<and> table_ok (QueuedMarkers c)"

text \<open>The file is the document of the last cursor saved, or is missing when there is none.\<close>

definition stores :: "'w watcher \<Rightarrow> files \<Rightarrow> Cursor option \<Rightarrow> bool" where
  "stores w files saved \<longleftrightarrow>
     (case saved of
        None \<Rightarrow> files (cursorPath w) = None
      | Some c \<Rightarrow> storable (codec w) c
          \<and> (\<exists>data. cursor_Marshal (codec w) c = Inr data \<and> files (cursorPath w) = Some data))"

fun control_ok :: "'w watcher \<Rightarrow> Cursor option \<Rightarrow> control \<Rightarrow> inodes \<Rightarrow> bool" where
  "control_ok w k (At_page c page prs) fs \<longleftrightarrow> tables c \<and> (\<forall>pr \<in> set prs. named_ok pr)"
| "control_ok w k (At_select c prs) fs \<longleftrightarrow> tables c \<and> (\<forall>pr \<in> set prs. named_ok pr)"
| "control_ok w k (At_pr c new mx prs) fs \<longleftrightarrow> tables c \<and> table_ok new \<and> (\<forall>pr \<in> set prs. named_ok pr)"
| "control_ok w k (In_pr ctl c new mx pr prs) fs \<longleftrightarrow>
     tables c \<and> table_ok new \<and> pr_inv w pr ctl \<and> (\<forall>pr \<in> set (pr # prs). named_ok pr)"
| "control_ok w k (At_save c) fs \<longleftrightarrow> tables c"
| "control_ok w k (At_write faults data i) fs \<longleftrightarrow> fits w (At_write faults data i) fs
     \<and> (\<exists>c. k = Some c \<and> storable (codec w) c \<and> cursor_Marshal (codec w) c = Inr data)"
| "control_ok w k (At_rename faults) fs \<longleftrightarrow>
     (\<exists>c data. k = Some c \<and> storable (codec w) c \<and> cursor_Marshal (codec w) c = Inr data
        \<and> read_name fs (tmp_path w) = Some data)"
| "control_ok w k _ fs \<longleftrightarrow> True"

definition serial_inv :: "'w watcher \<Rightarrow> control \<Rightarrow> inodes \<Rightarrow> saves_seen \<Rightarrow> bool" where
  "serial_inv w c fs h \<longleftrightarrow> files_ok fs \<and> stores w (read_name fs) (snd h) \<and> control_ok w (fst h) c fs"

lemma tmp_path_simps [simp]: "tmp_path w \<noteq> cursorPath w" "cursorPath w \<noteq> tmp_path w"
  by (simp_all add: tmp_path_def)

lemma stores_other: "files' (cursorPath w) = files (cursorPath w) \<Longrightarrow> stores w files' k = stores w files k"
  by (cases k) (simp_all add: stores_def)

lemma stores_load:
  assumes "stores w files saved"
  obtains c where "LoadCursor (codec w) no_faults files (cursorPath w) (startTime w) = Inr c"
    and "cursor_view c = cursor_view (case saved of None \<Rightarrow> newCursor (startTime w) | Some k \<Rightarrow> k)"
proof (cases saved)
  case None
  with assms that [of "newCursor (startTime w)"] show thesis
    by (simp add: stores_def LoadCursor_def no_faults_def)
next
  case (Some k)
  with assms Unmarshal_Marshal [of "codec w" k] that show thesis
    by (force simp: stores_def LoadCursor_def no_faults_def cursor_view_def)
qed

lemma load_tables:
  assumes "well_encoded w" and "stores w files saved"
    and "LoadCursor (codec w) faults files (cursorPath w) (startTime w) = Inr c"
  shows "tables c"
proof -
  from assms(2) have "holds w files (case saved of None \<Rightarrow> newCursor (startTime w) | Some k \<Rightarrow> k)"
    by (auto simp: stores_def holds_def split: option.splits)
  moreover from assms(3) have "load w files = Inr c"
    by (auto simp: load_def LoadCursor_def no_faults_def split: option.splits)
  ultimately show ?thesis using holds_load assms(1) by (auto simp: tables_def)
qed

lemma finished_tables: "tables c \<Longrightarrow> table_ok new \<Longrightarrow> tables (finished c new mx)"
  by (simp add: tables_def finished_def Let_def)

lemma inv_start:
  assumes "well_encoded w" and "serial_inv w At_start (sh_fs s) h" and "poll_step w At_start s = Some (c', s')"
  shows "serial_inv w c' (sh_fs s') h"
proof -
  from assms(2) have h: "stores w (read_name (sh_fs s)) (snd h)" by (simp add: serial_inv_def)
  from assms(2,3) load_tables [OF assms(1) h] show ?thesis
    by (auto simp: serial_inv_def Let_def split: prod.splits sum.splits)
qed

lemma inv_page:
  assumes "well_encoded w" and "serial_inv w (At_page c page prs) (sh_fs s) h"
    and "poll_step w (At_page c page prs) s = Some (c', s')"
  shows "serial_inv w c' (sh_fs s') h"
  using assms(2,3) well_encoded_named [OF assms(1)]
  by (auto simp: serial_inv_def Let_def split: prod.splits sum.splits if_splits)

lemma inv_select:
  assumes "serial_inv w (At_select c prs) (sh_fs s) h" and "poll_step w (At_select c prs) s = Some (c', s')"
  shows "serial_inv w c' (sh_fs s') h"
  using assms by (auto simp: serial_inv_def Let_def split: prod.splits if_splits)

lemma inv_pr:
  assumes "serial_inv w (At_pr c new mx prs) (sh_fs s) h" and "poll_step w (At_pr c new mx prs) s = Some (c', s')"
  shows "serial_inv w c' (sh_fs s') h"
  using assms by (cases prs) (auto simp: serial_inv_def finished_tables Let_def split: prod.splits if_splits)

lemma inv_in_pr:
  assumes "well_encoded w" and "serial_inv w (In_pr ctl c new mx pr prs) (sh_fs s) h"
    and "poll_step w (In_pr ctl c new mx pr prs) s = Some (c', s')"
  shows "serial_inv w c' (sh_fs s') h"
proof (cases "pr_result ctl")
  case None
  with assms(3) obtain ctl' p where r: "pr_step w pr ctl (batch_state s c new) = Some (ctl', p)"
    and e: "c' = In_pr ctl' (cursor p) (newHeadSHAs p) mx pr prs" "sh_fs s' = sh_fs s"
    by (auto simp: write_back_def)
  from assms(2) have inv: "tables_ok (batch_state s c new)" "named_ok pr" "pr_inv w pr ctl"
    by (simp_all add: serial_inv_def tables_ok_def tables_def batch_state_def begin_batch_def)
  from pr_step_tables [OF assms(1) inv(2,1,3) r] pr_inv_step [OF inv(3) r] assms(2) e show ?thesis
    by (simp add: serial_inv_def tables_ok_def tables_def)
next
  case (Some r)
  with assms(2,3) show ?thesis by (cases r) (auto simp: serial_inv_def)
qed

lemma inv_save:
  assumes "well_encoded w" and "serial_inv w (At_save c) (sh_fs s) h" and "poll_step w (At_save c) s = Some (c', s')"
  shows "serial_inv w c' (sh_fs s') (track (At_save c) h)"
proof -
  have st: "storable (codec w) c"
    using assms(1,2) by (simp add: serial_inv_def storable_iff well_encoded_def tables_def)
  obtain i fs where o: "open_truncated (tmp_path w) (sh_fs s) = (i, fs)" by fastforce
  have ok: "files_ok (sh_fs s)" using assms(2) by (simp add: serial_inv_def)
  note fs = open_ok [OF o ok]
  have hl: "stores w (read_name fs) (snd h)"
    using assms(2) by (subst stores_other [where files = "read_name (sh_fs s)"]) (simp_all add: fs serial_inv_def)
  from assms(2,3) st o fs hl show ?thesis
    by (cases h) (auto simp: serial_inv_def end_poll_def Let_def split: prod.splits sum.splits option.splits)
qed

lemma inv_write:
  assumes "serial_inv w (At_write faults data i) (sh_fs s) h"
    and "poll_step w (At_write faults data i) s = Some (c', s')"
  shows "serial_inv w c' (sh_fs s') h"
proof -
  have ok: "files_ok (sh_fs s)" and n: "names (sh_fs s) (tmp_path w) = Some i" "content (sh_fs s) i = []"
    using assms(1) by (simp_all add: serial_inv_def)
  note r = write_ok [OF n ok]
  have hl: "stores w (read_name (write_start i d (sh_fs s))) (snd h)" for d
    using assms(1) by (subst stores_other [where files = "read_name (sh_fs s)"]) (simp_all add: r serial_inv_def)
  from assms hl r show ?thesis
    by (auto simp: serial_inv_def end_poll_def split: option.splits)
qed

lemma inv_rename:
  assumes "serial_inv w (At_rename faults) (sh_fs s) h" and "poll_step w (At_rename faults) s = Some (c', s')"
  shows "serial_inv w c' (sh_fs s') (track (At_rename faults) h)"
proof (cases "rename_fault faults")
  case (Some err)
  with assms show ?thesis by (cases h) (auto simp: serial_inv_def end_poll_def)
next
  case None
  obtain e fs where r: "rename_inode (tmp_path w) (cursorPath w) (sh_fs s) = (e, fs)" by fastforce
  from assms(1) obtain k data where d: "fst h = Some k" "storable (codec w) k"
    "cursor_Marshal (codec w) k = Inr data" "read_name (sh_fs s) (tmp_path w) = Some data"
    by (auto simp: serial_inv_def)
  from rename_ok(1) [OF r] d(4) have "read_name fs (cursorPath w) = Some data"
    by (auto simp: rename_file_def dest: fun_cong [of _ _ "cursorPath w"])
  with d have "stores w (read_name fs) (fst h)" by (simp add: stores_def)
  moreover have "files_ok fs" using rename_ok(2) [OF r] assms(1) by (simp add: serial_inv_def)
  ultimately show ?thesis using assms(2) r None by (cases h) (auto simp: serial_inv_def end_poll_def)
qed

lemma inv_step:
  assumes "well_encoded w" and "serial_inv w c (sh_fs s) h" and "poll_step w c s = Some (c', s')"
  shows "serial_inv w c' (sh_fs s') (track c h)"
proof (cases c)
  case At_start
  with inv_start [OF assms(1)] assms(2,3) show ?thesis by simp
next
  case (At_page c0 page prs)
  with inv_page [OF assms(1)] assms(2,3) show ?thesis by (simp del: poll_step.simps)
next
  case (At_select c0 prs)
  with inv_select assms(2,3) show ?thesis by (simp del: poll_step.simps)
next
  case (At_pr c0 new mx prs)
  with inv_pr assms(2,3) show ?thesis by (simp del: poll_step.simps)
next
  case (In_pr ctl c0 new mx pr prs)
  with inv_in_pr [OF assms(1)] assms(2,3) show ?thesis by (simp del: poll_step.simps)
next
  case (At_save c0)
  with inv_save [OF assms(1)] assms(2,3) show ?thesis by blast
next
  case (At_write faults data i)
  with inv_write assms(2,3) show ?thesis by (simp del: poll_step.simps)
next
  case (At_rename faults)
  with inv_rename assms(2,3) show ?thesis by blast
next
  case (Ended r)
  with assms(3) have "c' = c" "s' = s" by simp_all
  with Ended assms(2) show ?thesis by simp
qed

lemma well_encoded_start [simp]: "well_encoded (w\<lparr>startTime := now\<rparr>) = well_encoded w"
  by (simp add: well_encoded_def)

lemma stores_start [simp]: "stores (w\<lparr>startTime := now\<rparr>) = stores w"
  by (intro ext) (simp add: stores_def split: option.split)

lemma serial_invariant:
  "serial w0 s0 w c s h \<Longrightarrow> well_encoded w0 \<Longrightarrow> files_ok (sh_fs s0) \<Longrightarrow>
    names (sh_fs s0) (cursorPath w0) = None \<Longrightarrow> well_encoded w \<and> serial_inv w c (sh_fs s) h"
proof (induction rule: serial.induct)
  case sr_begin
  then show ?case by (simp add: serial_inv_def stores_def read_name_def)
next
  case (sr_step w c s h c' s')
  then show ?case by (blast intro: inv_step)
qed (simp_all add: serial_inv_def)

text \<open>
  C5: The cursor file survives the process. Let one process after the other poll, each one
  killed at any point (inside the search, between any two calls for a pull request, with the
  temporary file open or half written), with saves that fail to write or to rename. Whenever
  the cursor is loaded, it is the one of the last save that put its file in place, with its
  watermark, identifiers and markers, and the cold-start one of the running process before
  any did.
\<close>

theorem crash_consistent:
  assumes "well_encoded w0" and "files_ok (sh_fs s0)" and "names (sh_fs s0) (cursorPath w0) = None"
    and "serial w0 s0 w c s (pending, saved)"
  shows "\<exists>k. LoadCursor (codec w) no_faults (read_name (sh_fs s)) (cursorPath w) (startTime w) = Inr k
    \<and> cursor_view k = cursor_view (case saved of None \<Rightarrow> newCursor (startTime w) | Some c' \<Rightarrow> c')"
proof -
  from serial_invariant [OF assms(4,1-3)] have "stores w (read_name (sh_fs s)) saved"
    by (simp add: serial_inv_def)
  then show ?thesis by (rule stores_load) blast
qed

lemma serial_solo:
  "solo w c s c' s' \<Longrightarrow> serial w0 s0 w c s h \<Longrightarrow> \<exists>h'. serial w0 s0 w c' s' h'"
  by (induction arbitrary: h rule: solo.induct) (blast intro: sr_step)+

definition empty_disk :: inodes where
  "empty_disk = \<lparr>names = Map.empty, content = (\<lambda>i. []), next_inode = 0\<rparr>"

definition example_shared :: "unit shared" where
  "example_shared = \<lparr>sh_world = (), sh_metrics = no_metrics, sh_fs = empty_disk, sh_sent = []\<rparr>"

lemma example_shared:
  "files_ok (sh_fs example_shared)" "names (sh_fs example_shared) path = None"
  "view example_shared = example_state"
  by (simp_all add: example_shared_def empty_disk_def files_ok_def fresh_names_def unlinked_def
      view_def example_state_def read_name_def fun_eq_iff)

text \<open>A poll runs to its end; the process is killed in the next one, and a new one starts.\<close>

theorem crash_consistent_witness:
  "\<exists>s h s1 k. serial run_watcher example_shared run_watcher (Ended None) s h
    \<and> serial run_watcher example_shared (run_watcher\<lparr>startTime := 7\<rparr>) At_start s1 h
    \<and> LoadCursor decimal_codec no_faults (read_name (sh_fs s1)) (cursorPath run_watcher) 7 = Inr k
    \<and> cursor_view k = cursor_view (case snd h of None \<Rightarrow> newCursor 7 | Some c' \<Rightarrow> c')"
proof -
  from run_poll obtain r v where "Poll run_watcher example_state = Some (r, v)" by blast
  moreover from this have "r = None"
    by (cases rule: Poll_cases) (simp_all add: disk_outcomes_def no_faults_def image_iff)
  ultimately obtain s where s: "solo run_watcher At_start example_shared (Ended None) s"
    using machine_computes_Poll [OF example_shared(1), of run_watcher] by (auto simp: example_shared(3))
  from serial_solo [OF s sr_begin] obtain h where h: "serial run_watcher example_shared run_watcher (Ended None) s h"
    by blast
  obtain c1 s1 where st: "poll_step run_watcher At_start (s\<lparr>sh_world := ()\<rparr>) = Some (c1, s1)"
    by (cases "poll_step run_watcher At_start (s\<lparr>sh_world := ()\<rparr>)") (auto simp: Let_def split: prod.splits sum.splits)
  let ?w = "run_watcher\<lparr>startTime := 7\<rparr>" and ?s2 = "s1\<lparr>sh_world := (), sh_metrics := no_metrics\<rparr>"
  from sr_step [OF sr_next [OF h] st] have "serial run_watcher example_shared run_watcher c1 s1 h" by simp
  from sr_kill [OF this] have k: "serial run_watcher example_shared ?w At_start ?s2 (fst h, snd h)" by simp
  have w: "codec ?w = decimal_codec" "cursorPath ?w = cursorPath run_watcher" "startTime ?w = 7" by simp_all
  from crash_consistent [OF run_hypotheses(2) example_shared(1,2) k, unfolded w] h k
  show ?thesis unfolding prod.collapse by (intro exI [of _ s] exI [of _ h] exI [of _ ?s2]) blast
qed

end
