(* ===== verification/Trigger_Machine.thy ===== *)
theory Trigger_Machine
  imports Trigger Pr_Machine
begin

text \<open>
  \<open>runTrigger\<close> taken apart: the check of the command, a step for the details, one for each
  read of the evaluator, one that names the task, with a look at the clock when it is forced,
  and one that sends.
\<close>

datatype 'd trigger_control =
    Tr_begin 'd
  | Tr_details TriggerCommand PRInfo
  | Tr_evaluate TriggerCommand PRInfo PRDetails eval_control
  | Tr_send TriggerCommand PRInfo PRDetails Result string
  | Tr_done "go_error option"

text \<open>The end of \<open>publishCreateCommand\<close>, when the task has its identifier.\<close>

definition send_create ::
  "('w, 'd) trigger \<Rightarrow> TriggerCommand \<Rightarrow> PRInfo \<Rightarrow> PRDetails \<Rightarrow> Result \<Rightarrow> string
    \<Rightarrow> ('w wstate, go_error option) call"
where
  "send_create t cmd prInfo details result taskIDStr s =
     do {
       createCmd \<leftarrow> BuildCreateCommand (trigger_pr prInfo cmd details) details taskIDStr (t_cfg t)
                       (MatchedSpecs result);
       (err, wd) \<leftarrow> t_SendCommand t createCmd (world s);
       let s = s\<lparr>world := wd\<rparr>;
       case err of
         Some err \<Rightarrow>
           Some (Some (Wrapped ''send create task command for %s'' err),
                 s\<lparr>metrics := IncPublished ''error'' (metrics s)\<rparr>)
       | None \<Rightarrow>
           Some (None,
                 s\<lparr>metrics := IncPublished (if PromptsQueued result then ''create_queued'' else ''create'')
                                (metrics s),
                   sent := sent s @ [createCmd]\<rparr>)
     }"

fun trigger_step :: "('w, 'd) trigger \<Rightarrow> 'd trigger_control \<Rightarrow> ('w wstate, 'd trigger_control) call" where
  "trigger_step t (Tr_begin data) s =
     (case unmarshalAndValidate t data of
        Inl err \<Rightarrow> Some (Tr_done (Some err), s)
      | Inr cmd \<Rightarrow>
          (case ParsePRURL t (tc_URL cmd) of
             Inl err \<Rightarrow>
               Some (Tr_done (Some (Wrapped ''parse url %q: %v'' (Sentinel ErrCommandObjectSkipped))), s)
           | Inr prInfo \<Rightarrow> Some (Tr_details cmd prInfo, s)))"
| "trigger_step t (Tr_details cmd prInfo) s =
     do {
       (details, wd) \<leftarrow>
         GetPRDetails (t_ghClient t) (pi_Owner prInfo) (pi_Repo prInfo) (pi_Number prInfo) (world s);
       let s = s\<lparr>world := wd\<rparr>;
       case details of
         Inl err \<Rightarrow> Some (Tr_done (Some (Wrapped ''get PR details for %s'' err)), s)
       | Inr details \<Rightarrow> Some (Tr_evaluate cmd prInfo details (eval_begin (trigger_input prInfo details)), s)
     }"
| "trigger_step t (Tr_evaluate cmd prInfo details ev) s =
     (case eval_result ev of
        None \<Rightarrow>
          do {
            (ev, wd) \<leftarrow> eval_step (t_yaml t) (t_ghClient t) (trigger_input prInfo details) ev (world s);
            Some (Tr_evaluate cmd prInfo details ev, s\<lparr>world := wd\<rparr>)
          }
      | Some (Inl err) \<Rightarrow> Some (Tr_done (Some (Wrapped ''evaluate candidate for %s'' err)), s)
      | Some (Inr result) \<Rightarrow>
          if \<not> Keep result then
            Some (Tr_done (Some (Wrapped ''candidate rejected pr=%s/%s#%d reason=%s''
                                   (Sentinel ErrCommandObjectSkipped))),
                  s\<lparr>metrics := IncFilterSkipped (Reason result) (metrics s)\<rparr>)
          else
            (case trigger_task_id t prInfo cmd details result (world s) of
               (taskIDStr, wd) \<Rightarrow> Some (Tr_send cmd prInfo details result taskIDStr, s\<lparr>world := wd\<rparr>)))"
| "trigger_step t (Tr_send cmd prInfo details result taskIDStr) s =
     map_option (apfst Tr_done) (send_create t cmd prInfo details result taskIDStr s)"
| "trigger_step t (Tr_done r) s = Some (Tr_done r, s)"

fun trigger_result :: "'d trigger_control \<Rightarrow> go_error option option" where
  "trigger_result (Tr_done r) = Some r"
| "trigger_result _ = None"

subsection \<open>The machine of a trigger computes \<open>runTrigger\<close>\<close>

text \<open>What follows the evaluation.\<close>

definition trigger_settle ::
  "('w, 'd) trigger \<Rightarrow> TriggerCommand \<Rightarrow> PRInfo \<Rightarrow> PRDetails \<Rightarrow> go_error + Result
    \<Rightarrow> ('w wstate, go_error option) call"
where
  "trigger_settle t cmd prInfo details result s =
     (case result of
        Inl err \<Rightarrow> Some (Some (Wrapped ''evaluate candidate for %s'' err), s)
      | Inr result \<Rightarrow>
          if \<not> Keep result then
            Some (Some (Wrapped ''candidate rejected pr=%s/%s#%d reason=%s'' (Sentinel ErrCommandObjectSkipped)),
                  s\<lparr>metrics := IncFilterSkipped (Reason result) (metrics s)\<rparr>)
          else publishCreateCommand t prInfo cmd details result s)"

fun trigger_rest :: "('w, 'd) trigger \<Rightarrow> 'd trigger_control \<Rightarrow> ('w wstate, go_error option) call" where
  "trigger_rest t (Tr_begin data) s = runTrigger t data s"
| "trigger_rest t (Tr_details cmd prInfo) s =
     do {
       (details, wd) \<leftarrow>
         GetPRDetails (t_ghClient t) (pi_Owner prInfo) (pi_Repo prInfo) (pi_Number prInfo) (world s);
       let s = s\<lparr>world := wd\<rparr>;
       case details of
         Inl err \<Rightarrow> Some (Some (Wrapped ''get PR details for %s'' err), s)
       | Inr details \<Rightarrow>
           do {
             (result, wd) \<leftarrow> Evaluate (t_yaml t) (t_ghClient t) (trigger_input prInfo details) (world s);
             trigger_settle t cmd prInfo details result (s\<lparr>world := wd\<rparr>)
           }
     }"
| "trigger_rest t (Tr_evaluate cmd prInfo details ev) s =
     do {
       (result, wd) \<leftarrow> eval_rest (t_yaml t) (t_ghClient t) (trigger_input prInfo details) ev (world s);
       trigger_settle t cmd prInfo details result (s\<lparr>world := wd\<rparr>)
     }"
| "trigger_rest t (Tr_send cmd prInfo details result tid) s = send_create t cmd prInfo details result tid s"
| "trigger_rest t (Tr_done r) s = Some (r, s)"

lemma runTrigger_settle:
  "runTrigger t data s =
     (case unmarshalAndValidate t data of
        Inl err \<Rightarrow> Some (Some err, s)
      | Inr cmd \<Rightarrow>
          (case ParsePRURL t (tc_URL cmd) of
             Inl err \<Rightarrow> Some (Some (Wrapped ''parse url %q: %v'' (Sentinel ErrCommandObjectSkipped)), s)
           | Inr prInfo \<Rightarrow> trigger_rest t (Tr_details cmd prInfo) s))"
  by (simp add: runTrigger_def trigger_settle_def Let_def cong: sum.case_cong if_cong)

lemma publish_sends:
  "publishCreateCommand t prInfo cmd details result s =
     (case trigger_task_id t prInfo cmd details result (world s) of
        (tid, wd) \<Rightarrow> send_create t cmd prInfo details result tid (s\<lparr>world := wd\<rparr>))"
  by (simp add: publishCreateCommand_def send_create_def split: prod.split)

lemma trigger_rest_step:
  "trigger_rest t c s = (case trigger_step t c s of None \<Rightarrow> None | Some (c', s') \<Rightarrow> trigger_rest t c' s')"
proof (cases c)
  case (Tr_begin data)
  then show ?thesis by (simp add: runTrigger_settle split: sum.split del: trigger_rest.simps(2))
next
  case (Tr_details cmd prInfo)
  then show ?thesis
    by (cases "GetPRDetails (t_ghClient t) (pi_Owner prInfo) (pi_Repo prInfo) (pi_Number prInfo) (world s)")
       (auto simp: eval_rest_begin Let_def split: sum.split)
next
  case (Tr_evaluate cmd prInfo details ev)
  show ?thesis
  proof (cases "eval_result ev")
    case None
    with Tr_evaluate show ?thesis
      by (cases "eval_step (t_yaml t) (t_ghClient t) (trigger_input prInfo details) ev (world s)")
         (auto simp: eval_rest_step [of _ _ _ ev])
  next
    case (Some r)
    then have "ev = Ev_done r" by (cases ev) simp_all
    with Tr_evaluate show ?thesis by (cases r) (simp_all add: trigger_settle_def publish_sends split: prod.split)
  qed
next
  case (Tr_send cmd prInfo details result tid)
  then show ?thesis by (cases "send_create t cmd prInfo details result tid s") auto
qed simp

fun trigger_stage :: "'d trigger_control \<Rightarrow> nat \<times> nat \<times> nat" where
  "trigger_stage (Tr_begin data) = (4, 0, 0)"
| "trigger_stage (Tr_details cmd prInfo) = (3, 0, 0)"
| "trigger_stage (Tr_evaluate cmd prInfo details ev) = (2, eval_stage ev)"
| "trigger_stage (Tr_send cmd prInfo details result tid) = (1, 0, 0)"
| "trigger_stage (Tr_done r) = (0, 0, 0)"

definition trigger_nearer :: "('d trigger_control \<times> 'd trigger_control) set" where
  "trigger_nearer = inv_image (less_than <*lex*> less_than <*lex*> less_than) trigger_stage"

lemma trigger_nearer_step:
  "trigger_result c = None \<Longrightarrow> trigger_step t c s = Some (c', s') \<Longrightarrow> (c', c) \<in> trigger_nearer"
proof (cases c)
  case (Tr_evaluate cmd prInfo details ev)
  assume "trigger_step t c s = Some (c', s')"
  with Tr_evaluate show ?thesis
    by (cases "eval_result ev")
       (auto simp: trigger_nearer_def eval_nearer_def dest: eval_nearer_step split: sum.splits if_splits prod.splits)
qed (auto simp: Let_def trigger_nearer_def split: sum.splits)

interpretation tm: step_machine "trigger_step t" "trigger_rest t" trigger_result trigger_nearer
proof unfold_locales
  show "wf trigger_nearer" unfolding trigger_nearer_def by (intro wf_inv_image wf_lex_prod wf_less_than)
  show "trigger_rest t c s = Some (r, s)" if "trigger_result c = Some r" for c r s
    using that by (cases c) simp_all
qed (rule trigger_rest_step trigger_nearer_step, assumption?)+

text \<open>Run alone, the machine ends with the result and the state of \<open>runTrigger\<close>.\<close>

lemma trigger_machine_computes:
  "runs (trigger_step t) (Tr_begin data) s (Tr_done r) s' \<longleftrightarrow> runTrigger t data s = Some (r, s')"
proof -
  have "(\<exists>c'. runs (trigger_step t) (Tr_begin data) s c' s' \<and> trigger_result c' = Some r)
      \<longleftrightarrow> runs (trigger_step t) (Tr_begin data) s (Tr_done r) s'"
    by (metis trigger_result.elims trigger_result.simps(1) option.distinct(1) option.inject)
  with tm.computes [of t "Tr_begin data" s s' r] show ?thesis by simp
qed

subsection \<open>What one step does\<close>

lemma send_create_cases:
  assumes "send_create t cmd prInfo details result tid s = Some (r, s')"
  obtains (failed) err wd where "r = Some (Wrapped ''send create task command for %s'' err)"
      "s' = s\<lparr>world := wd, metrics := IncPublished ''error'' (metrics s)\<rparr>"
    | (sends) createCmd wd where
      "BuildCreateCommand (trigger_pr prInfo cmd details) details tid (t_cfg t) (MatchedSpecs result) = Some createCmd"
      "r = None"
      "s' = s\<lparr>world := wd, metrics := IncPublished (publishedStatus (PromptsQueued result)) (metrics s),
              sent := sent s @ [createCmd]\<rparr>"
proof -
  from assms obtain createCmd err wd where
    "BuildCreateCommand (trigger_pr prInfo cmd details) details tid (t_cfg t) (MatchedSpecs result) = Some createCmd"
    and "t_SendCommand t createCmd (world s) = Some (err, wd)"
    by (auto simp: send_create_def)
  with assms that show thesis by (cases err) (auto simp: send_create_def publishedStatus_def)
qed

lemma trigger_step_cases:
  assumes "trigger_step t c s = Some (c', s')"
  obtains (call) "sent s' = sent s" "metrics s \<le> metrics s'"
    | (sends) cmd prInfo details result tid createCmd where "c = Tr_send cmd prInfo details result tid"
      "c' = Tr_done None" "sent s' = sent s @ [createCmd]" "metrics s \<le> metrics s'"
      "BuildCreateCommand (trigger_pr prInfo cmd details) details tid (t_cfg t) (MatchedSpecs result) = Some createCmd"
proof (cases c)
  case (Tr_send cmd prInfo details result tid)
  with assms obtain r where r: "send_create t cmd prInfo details result tid s = Some (r, s')" "c' = Tr_done r"
    by auto
  from r(1) show thesis
    by (cases rule: send_create_cases) (use call sends [OF Tr_send] r(2) in auto)
next
  case (Tr_evaluate cmd prInfo details ev)
  with assms call show thesis
    by (cases "eval_result ev") (auto split: sum.splits if_splits prod.splits)
qed (use assms call in \<open>auto simp: Let_def split: sum.splits\<close>)

text \<open>The trigger a pull request in work goes back to, and what GitHub answered for it.\<close>

definition requested :: "('w, 'd) trigger \<Rightarrow> TriggerCommand \<Rightarrow> PRInfo \<Rightarrow> bool" where
  "requested t cmd prInfo \<longleftrightarrow> (\<exists>data. accepted t data = Some (cmd, prInfo))"

fun trigger_inv :: "('w, 'd) trigger \<Rightarrow> 'd trigger_control \<Rightarrow> bool" where
  "trigger_inv t (Tr_details cmd prInfo) \<longleftrightarrow> requested t cmd prInfo"
| "trigger_inv t (Tr_evaluate cmd prInfo details ev) \<longleftrightarrow>
     requested t cmd prInfo \<and> reported (t_ghClient t) (trigger_pr prInfo cmd details) details
     \<and> eval_inv (t_yaml t) (t_ghClient t) (trigger_input prInfo details) ev"
| "trigger_inv t (Tr_send cmd prInfo details result tid) \<longleftrightarrow>
     requested t cmd prInfo \<and> reported (t_ghClient t) (trigger_pr prInfo cmd details) details
     \<and> grounded (t_yaml t) (t_ghClient t) (trigger_input prInfo details) (MatchedSpecs result)
     \<and> (\<exists>wd. tid = fst (trigger_task_id t prInfo cmd details result wd))"
| "trigger_inv t _ \<longleftrightarrow> True"

lemma trigger_pr_simps [simp]:
  "Owner (trigger_pr prInfo cmd details) = pi_Owner prInfo" "Repo (trigger_pr prInfo cmd details) = pi_Repo prInfo"
  "Number (trigger_pr prInfo cmd details) = pi_Number prInfo"
  by (simp_all add: trigger_pr_def)

lemma trigger_input_pr: "trigger_input prInfo details = eval_input (trigger_pr prInfo cmd details) details"
  by (simp add: trigger_input_def eval_input_def)

lemma trigger_inv_step:
  assumes "trigger_inv t c" and "trigger_step t c s = Some (c', s')"
  shows "trigger_inv t c'"
proof (cases c)
  case (Tr_begin data)
  with assms show ?thesis by (auto simp: requested_def accepted_def split: sum.splits intro!: exI [of _ data])
next
  case (Tr_details cmd prInfo)
  with assms show ?thesis by (auto simp: eval_inv_begin Let_def split: sum.splits) (auto simp: reported_def)
next
  case (Tr_evaluate cmd prInfo details ev)
  show ?thesis
  proof (cases "eval_result ev")
    case None
    with Tr_evaluate assms show ?thesis by (auto intro: eval_inv_step)
  next
    case (Some r)
    then have "ev = Ev_done r" by (cases ev) simp_all
    with Tr_evaluate assms show ?thesis
      by (auto split: sum.splits if_splits prod.splits) (metis fst_conv)
  qed
qed (use assms in auto)

lemma trigger_step_returns:
  assumes "reads_return (t_ghClient t)" and "0 \<le> cfg_MaxSlugLen (t_cfg t)"
    and "\<And>owner repo number wd. GetPRDetails (t_ghClient t) owner repo number wd \<noteq> None"
    and "\<And>cmd wd. t_SendCommand t cmd wd \<noteq> None"
  shows "trigger_step t c s \<noteq> None"
proof (cases c)
  case (Tr_details cmd prInfo)
  with assms(3) [of "pi_Owner prInfo" "pi_Repo prInfo" "pi_Number prInfo" "world s"] show ?thesis
    by (auto simp: Let_def split: sum.split)
next
  case (Tr_evaluate cmd prInfo details ev)
  with eval_step_returns [OF assms(1), of "t_yaml t" "trigger_input prInfo details" ev "world s"] show ?thesis
    by (cases "eval_result ev") (auto split: sum.split prod.split)
next
  case (Tr_send cmd prInfo details result tid)
  from BuildCreateCommand_defined [OF assms(2)] obtain createCmd where
    c: "BuildCreateCommand (trigger_pr prInfo cmd details) details tid (t_cfg t) (MatchedSpecs result) = Some createCmd"
    by blast
  from assms(4) [of createCmd "world s"] Tr_send c show ?thesis
    by (auto simp: send_create_def Let_def split: option.split)
qed (auto split: sum.split)

end
