(* ===== verification/Watcher_Overlap.thy ===== *)
theory Watcher_Overlap
  imports Watcher_Run
begin

text \<open>
  Two callers poll the same watcher, the ticker of the poll loop and the \<open>/check\<close> route, and
  nothing keeps them apart. A poll is split where it matters for the other one: it reads the
  cursor file first and writes it last. The steps of the pollers interleave; what one poller
  does between its two steps is taken as one step, so the runs below are runs of the program
  though not all of them.
\<close>

datatype poller =
    Idle
  | Loaded Cursor

text \<open>A run of the pollers, with the number of polls it finished.\<close>

inductive overlap :: "'w watcher \<Rightarrow> 'w wstate \<times> (nat \<Rightarrow> poller) \<Rightarrow> nat \<Rightarrow> 'w wstate \<times> (nat \<Rightarrow> poller) \<Rightarrow> bool"
  for w and start where
  o_start: "overlap w start 0 start"
| o_load: "overlap w start n (s, ps) \<Longrightarrow> ps i = Idle \<Longrightarrow> poll_load w s = (Inr c, s')
    \<Longrightarrow> overlap w start n (s', ps(i := Loaded c))"
| o_fail: "overlap w start n (s, ps) \<Longrightarrow> ps i = Idle \<Longrightarrow> poll_load w s = (Inl err, s')
    \<Longrightarrow> overlap w start n (s', ps)"
| o_rest: "overlap w start n (s, ps) \<Longrightarrow> ps i = Loaded c \<Longrightarrow> poll_rest w c s = Some (r, s')
    \<Longrightarrow> overlap w start (Suc n) (s', ps(i := Idle))"

text \<open>A poller that is left alone polls, so the runs of polls one after the other are among them.\<close>

lemma overlap_poll:
  assumes "overlap w start n (s, ps)" and "ps i = Idle" and "Poll w s = Some (r, s')"
  shows "\<exists>m \<le> Suc n. overlap w start m (s', ps)"
proof -
  obtain l s1 where l: "poll_load w s = (l, s1)" by fastforce
  show ?thesis
  proof (cases l)
    case (Inl err)
    with assms(3) l have "s' = s1" by (simp add: Poll_phases)
    with l Inl have "poll_load w s = (Inl err, s')" by simp
    from o_fail [OF assms(1,2) this] show ?thesis by (intro exI [of _ n]) simp
  next
    case (Inr c)
    with assms(3) l have rest: "poll_rest w c s1 = Some (r, s')" by (simp add: Poll_phases)
    from l Inr have "poll_load w s = (Inr c, s1)" by simp
    from o_rest [OF o_load [OF assms(1,2) this] _ rest, of i]
    have "overlap w start (Suc n) (s', ps(i := Idle))" by simp
    moreover have "ps(i := Idle) = ps" using assms(2) by (rule fun_upd_idem)
    ultimately show ?thesis by (intro exI [of _ "Suc n"]) simp
  qed
qed

lemma polls_overlap:
  "overlap w start m (s, ps) \<Longrightarrow> ps i = Idle \<Longrightarrow> polls w n s = Some s' \<Longrightarrow>
    \<exists>k \<le> m + n. overlap w start k (s', ps)"
proof (induction n arbitrary: m s)
  case 0
  then show ?case by auto
next
  case (Suc n)
  from Suc.prems(3) obtain r s1 where p: "Poll w s = Some (r, s1)" and n: "polls w n s1 = Some s'"
    by auto
  from overlap_poll [OF Suc.prems(1,2) p] obtain k where "k \<le> Suc m" "overlap w start k (s1, ps)" by blast
  with Suc.IH [OF _ Suc.prems(2) n] obtain l where "l \<le> k + n" "overlap w start l (s', ps)" by blast
  with \<open>k \<le> Suc m\<close> show ?case by (intro exI [of _ l]) simp
qed

subsection \<open>What a poll sends, whoever runs beside it\<close>

lemma rest_sends_once:
  assumes "poll_rest w c s = Some (r, s')"
  obtains cmds where "sent s' = sent s @ cmds" and "distinct (map cmd_TaskIdentifier cmds)"
  using assms
proof (cases rule: poll_rest_cases)
  case (success prs ls c' faults err)
  from success(3) have "sent s' = sent s @ commands_of ls" by (rule polledE)
  from this polled_ids(1) [OF success(3)] show thesis by (rule that)
qed (use that [of "[]"] in simp_all)

lemma load_keeps_sent: "poll_load w s = (l, s') \<Longrightarrow> sent s' = sent s"
  by (auto simp: poll_load_def split: prod.splits)

definition times_sent :: "string \<Rightarrow> 'w wstate \<Rightarrow> nat" where
  "times_sent tid s = count_list (map cmd_TaskIdentifier (sent s)) tid"

lemma distinct_count_list: "distinct xs \<Longrightarrow> count_list xs x \<le> 1"
  by (induction xs) auto

lemma rest_times_sent: "poll_rest w c s = Some (r, s') \<Longrightarrow> times_sent tid s' \<le> Suc (times_sent tid s)"
proof (elim rest_sends_once)
  fix cmds :: "CreateCommand list"
  assume d: "distinct (map cmd_TaskIdentifier cmds)" and s: "sent s' = sent s @ cmds"
  have "count_list (map cmd_TaskIdentifier cmds) tid \<le> 1"
    using d by (rule distinct_count_list)
  then show "times_sent tid s' \<le> Suc (times_sent tid s)" by (simp add: times_sent_def s)
qed

lemma overlap_times_sent:
  "overlap w start n \<sigma> \<Longrightarrow> times_sent tid (fst \<sigma>) \<le> times_sent tid (fst start) + n"
proof (induction rule: overlap.induct)
  case (o_rest n s ps i c r s')
  then show ?case using rest_times_sent [OF o_rest(3), of tid] by simp
qed (auto simp: times_sent_def dest: load_keeps_sent)


subsection \<open>Two polls at once\<close>

text \<open>The example's batch from any state: the sender and GitHub answer as before.\<close>

lemma example_rest:
  assumes "world s = ()"
  shows "\<exists>s'. poll_rest (example_watcher [example_pr]) (newCursor 50) s = Some (None, s')
    \<and> sent s' = sent s @ [example_command]"
proof -
  let ?w = "example_watcher [example_pr]"
  have "served (search_fetch ?w 50) 1 () [[example_pr]] ()"
    by (rule last_page) (simp add: search_fetch_def example_client_def)
  from search.served_returns [OF this, of "[]"]
  have f: "fetchAllPRs ?w 50 () = Some (([example_pr], ''''), ())"
    by (simp add: fetchAllPRs_def found_def)
  have "LastUpdatedAt (newCursor 50) = 50" by (simp add: newCursor_def)
  moreover have "\<exists>mx p. processPRs ?w [example_pr] (begin_batch (newCursor 50) s) = Some (mx, p)
      \<and> sent p = sent s @ [example_command]"
    by (simp add: processPRs_def begin_batch_def newCursor_def make_map_def example_processed
        example_after_def commit_heads_def)
  ultimately show ?thesis
    using assms by (auto simp: poll_rest_def f Let_def split: prod.splits)
qed

lemma example_load:
  assumes "disk s ''c'' = None"
  shows "poll_load (example_watcher prs) s = (Inr (newCursor 50), s)"
  using assms by (simp add: poll_load_def LoadCursor_def no_faults_def)


text \<open>
  What duplication overlapping polls can cause, and no more. However the pollers of one
  watcher interleave (the ticker's poll and any number started by \<open>/check\<close>), no task
  identifier is sent more often than polls finished. The bound is reached: nothing locks the
  cursor file, and two polls that both read it before either saves it send the same command
  twice, which a single poll or polls one after the other never do.
\<close>

lemma overlapping_polls:
  assumes "overlap w (s, \<lambda>i. Idle) n (s', ps)"
  shows "times_sent tid s' \<le> times_sent tid s + n"
  using overlap_times_sent [OF assms] by simp

lemma overlapping_polls_witness:
  "\<exists>s' ps. overlap (example_watcher [example_pr]) (example_state, \<lambda>i. Idle) 2 (s', ps)
    \<and> sent s' = [example_command, example_command]
    \<and> times_sent (cmd_TaskIdentifier example_command) s' = 2
    \<and> times_sent (cmd_TaskIdentifier example_command) s'
        \<le> times_sent (cmd_TaskIdentifier example_command) example_state + 2"
proof -
  let ?w = "example_watcher [example_pr]" and ?s0 = "example_state"
  have d: "disk ?s0 ''c'' = None" by (simp add: example_state_fields)
  have l: "poll_load ?w ?s0 = (Inr (newCursor 50), ?s0)" by (rule example_load [OF d])
  let ?ps1 = "(\<lambda>i. Idle)(0 := Loaded (newCursor 50))"
  let ?ps2 = "?ps1(1 := Loaded (newCursor 50))"
  have 1: "overlap ?w (?s0, \<lambda>i. Idle) 0 (?s0, ?ps1)" by (rule o_load [OF o_start _ l]) simp
  have 2: "overlap ?w (?s0, \<lambda>i. Idle) 0 (?s0, ?ps2)" by (rule o_load [OF 1 _ l]) simp
  from example_rest obtain s1 where r1: "poll_rest ?w (newCursor 50) ?s0 = Some (None, s1)"
    and s1: "sent s1 = [example_command]" by (metis append_Nil example_state_fields(4) unit_eq)
  have 3: "overlap ?w (?s0, \<lambda>i. Idle) (Suc 0) (s1, ?ps2(0 := Idle))" by (rule o_rest [OF 2 _ r1]) simp
  from example_rest [of s1] s1 obtain s2 where r2: "poll_rest ?w (newCursor 50) s1 = Some (None, s2)"
    and s2: "sent s2 = [example_command, example_command]" by auto
  have 4: "overlap ?w (?s0, \<lambda>i. Idle) 2 (s2, ?ps2(0 := Idle, 1 := Idle))"
    unfolding numeral_2_eq_2 by (rule o_rest [OF 3 _ r2]) simp
  from overlapping_polls [OF 4, of "cmd_TaskIdentifier example_command"] 4 s2 show ?thesis
    by (intro exI [of _ s2] exI) (auto simp: times_sent_def example_state_fields)
qed

end
