(* ===== verification/Poll_System.thy ===== *)
theory Poll_System
  imports Deployment Poll_Crash Trigger_Machine Watcher_Overlap
begin

text \<open>
  A deployment as a whole: any number of polls at once, of the ticker and of \<open>/check\<close>, and of
  trigger commands, whose steps interleave call by call (\<open>Poll_Machine\<close>, \<open>Trigger_Machine\<close>),
  and a process that is killed and started again at any point. Files, sent commands and the
  world outlive it.
\<close>

datatype ('w, 'd) process =
    Polling control
  | Handling "('w, 'd) trigger" "'d trigger_control"
  | Killed

text \<open>The start time is that of the operating system's process the poll runs in.\<close>

fun process_step :: "('w, 'd, 'k) deployment \<Rightarrow> datetime \<Rightarrow> ('w, 'd) process \<Rightarrow> ('w shared, ('w, 'd) process) call" where
  "process_step d now (Polling c) s =
     map_option (apfst Polling) (poll_step ((dp_watcher d)\<lparr>startTime := now\<rparr>) c s)"
| "process_step d now (Handling t c) s =
     map_option (\<lambda>(c', v). (Handling t c', write_back v s)) (trigger_step t c (view s))"
| "process_step d now Killed s = Some (Killed, s)"

text \<open>
  A run, with everything that was started in it and how far it got. GitHub and the files may
  change at any time also by other hands.
\<close>

inductive running ::
  "('w, 'd, 'k) deployment \<Rightarrow> 'w shared \<Rightarrow> 'w shared \<Rightarrow> ('w, 'd) process list \<Rightarrow> bool"
  for d s0 where
  rn_begin: "running d s0 s0 []"
| rn_poll: "running d s0 s ps \<Longrightarrow> running d s0 s (ps @ [Polling At_start])"
| rn_trigger: "running d s0 s ps \<Longrightarrow> ex \<in> set (c_executors (dp_consumer d)) \<Longrightarrow>
    running d s0 s (ps @ [Handling (ex_captured ex) (Tr_begin data)])"
| rn_step: "running d s0 s ps \<Longrightarrow> i < length ps \<Longrightarrow> process_step d now (ps ! i) s = Some (p', s') \<Longrightarrow>
    running d s0 s' (ps[i := p'])"
| rn_world: "running d s0 s ps \<Longrightarrow> running d s0 (s\<lparr>sh_world := wd\<rparr>) ps"
| rn_files: "running d s0 s ps \<Longrightarrow> running d s0 (s\<lparr>sh_fs := fs\<rparr>) ps"
| rn_kill: "running d s0 s ps \<Longrightarrow> running d s0 (s\<lparr>sh_metrics := dp_metrics d\<rparr>) (map (\<lambda>p. Killed) ps)"

text \<open>What every process keeps while it steps, it keeps in a run.\<close>

lemma running_processes:
  assumes "running d s0 s ps" and "p \<in> set ps" and "P (Polling At_start)" and "P Killed"
    and "\<And>ex data. ex \<in> set (c_executors (dp_consumer d)) \<Longrightarrow> P (Handling (ex_captured ex) (Tr_begin data))"
    and "\<And>now p s p' s'. P p \<Longrightarrow> process_step d now p s = Some (p', s') \<Longrightarrow> P p'"
  shows "P p"
  using assms(1,2)
proof (induction arbitrary: p rule: running.induct)
  case (rn_step s ps i now p' s')
  then have "P (ps ! i)" by simp
  from assms(6) [OF this rn_step.hyps(3)] rn_step show ?case
    by (auto dest: set_update_subset_insert [THEN subsetD])
qed (use assms(3-5) in auto)

lemma running_trans:
  assumes "running d s0 s ps" and "runs (process_step d now) p s p' s'" and "i < length ps" and "ps ! i = p"
  shows "running d s0 s' (ps[i := p'])"
  using assms(2,1,3,4)
proof (induction arbitrary: ps rule: runs.induct)
  case (runs_refl p s)
  then show ?case by (simp add: list_update_same_conv [THEN iffD2])
next
  case (runs_step p s p1 s1 p2 s2)
  from rn_step [OF runs_step.prems(1,2), of now p1 s1] runs_step have "running d s0 s1 (ps[i := p1])" by simp
  with runs_step.IH [OF this] runs_step.prems(2) show ?case by simp
qed

lemma write_back_view: "view (write_back v s) = v\<lparr>disk := read_name (sh_fs s)\<rparr>" for v :: "'w wstate"
  by (simp add: view_def write_back_def)

text \<open>A trigger that runs alone in the deployment.\<close>

lemma trigger_keeps_disk: "trigger_step t c v = Some (c', v') \<Longrightarrow> disk v' = disk v"
proof (cases c)
  case (Tr_send cmd prInfo details result tid)
  assume "trigger_step t c v = Some (c', v')"
  with Tr_send show ?thesis by (auto elim!: send_create_cases)
next
  case (Tr_evaluate cmd prInfo details ev)
  assume "trigger_step t c v = Some (c', v')"
  with Tr_evaluate show ?thesis by (cases "eval_result ev") (auto split: sum.splits if_splits prod.splits)
qed (auto simp: Let_def split: sum.splits)

lemma handling_runs:
  "runs (trigger_step t) c v c' v' \<Longrightarrow> v = view s \<Longrightarrow>
    runs (process_step d now) (Handling t c) s (Handling t c') (write_back v' s)"
proof (induction arbitrary: s rule: runs.induct)
  case (runs_refl c v)
  have "write_back v s = s" using runs_refl by (simp add: write_back_def view_def)
  then show ?case by (simp add: runs.runs_refl)
next
  case (runs_step c v c1 v1 c2 v2)
  have "disk v1 = read_name (sh_fs s)" using trigger_keeps_disk [OF runs_step.hyps(1)] runs_step.prems by simp
  then have v1: "v1 = view (write_back v1 s)" by (simp add: write_back_view)
  have "write_back v2 (write_back v1 s) = write_back v2 s" by (simp add: write_back_def)
  with runs_step.IH [OF v1]
  have r: "runs (process_step d now) (Handling t c1) (write_back v1 s) (Handling t c2) (write_back v2 s)" by metis
  from runs_step.hyps(1) [unfolded runs_step.prems]
  have "process_step d now (Handling t c) s = Some (Handling t c1, write_back v1 s)" by simp
  from runs.runs_step [OF this r] show ?case .
qed

lemma trigger_handled:
  assumes "running d s0 s ps" and "ex \<in> set (c_executors (dp_consumer d))"
    and "ex_Handle ex data (view s) = Some (r, v)"
  shows "running d s0 (write_back v s) (ps @ [Handling (ex_captured ex) (Tr_done r)])"
proof -
  let ?ps = "ps @ [Handling (ex_captured ex) (Tr_begin data)]"
  from assms(3) have "runs (trigger_step (ex_captured ex)) (Tr_begin data) (view s) (Tr_done r) v"
    by (simp add: ex_Handle_def trigger_machine_computes)
  from handling_runs [OF this refl] have
    "runs (process_step d now) (Handling (ex_captured ex) (Tr_begin data)) s (Handling (ex_captured ex) (Tr_done r))
      (write_back v s)" for now .
  from running_trans [OF rn_trigger [OF assms(1,2)] this, of _ data] show ?thesis
    by (metis length_append_singleton lessI list_update_length nth_append_length)
qed

subsection \<open>What one step sends and counts\<close>

lemma write_back_simps [simp]:
  "sh_sent (write_back v s) = sent v" "sh_metrics (write_back v s) = metrics v"
  by (simp_all add: write_back_def)

lemma batch_state_simps [simp]:
  "sent (batch_state s k new) = sh_sent s" "metrics (batch_state s k new) = sh_metrics s"
  "cursor (batch_state s k new) = k" "newHeadSHAs (batch_state s k new) = new"
  by (simp_all add: batch_state_def begin_batch_def)

text \<open>What a poll may still send of an identifier: once, as long as it does not know it.\<close>

fun may_poll :: "string \<Rightarrow> control \<Rightarrow> nat" where
  "may_poll tid At_start = 1"
| "may_poll tid (At_page c page prs) = 1"
| "may_poll tid (At_select c prs) = 1"
| "may_poll tid (At_pr c new mx prs) = (if tid \<in> dom (map_get (HeadSHAs c)) then 0 else 1)"
| "may_poll tid (In_pr ctl c new mx pr prs) = (if tid \<in> dom (map_get (HeadSHAs c)) then 0 else 1)"
| "may_poll tid _ = 0"

fun may_send :: "string \<Rightarrow> ('w, 'd) process \<Rightarrow> nat" where
  "may_send tid (Polling c) = may_poll tid c"
| "may_send tid (Handling t c) = (if trigger_result c = None then 1 else 0)"
| "may_send tid Killed = 0"

lemma may_poll_le: "may_poll tid c \<le> 1"
  by (cases "(tid, c)" rule: may_poll.cases) simp_all

text \<open>Only a step inside a pull request sends.\<close>

lemma poll_step_cases:
  assumes "poll_step w c s = Some (c', s')"
  obtains (quiet) "sh_sent s' = sh_sent s" "sh_metrics s \<le> sh_metrics s'" "\<And>tid. may_poll tid c' \<le> may_poll tid c"
    | (pull_request) ctl k new mx pr prs ctl' p where "c = In_pr ctl k new mx pr prs"
      "pr_step w pr ctl (batch_state s k new) = Some (ctl', p)"
      "c' = In_pr ctl' (cursor p) (newHeadSHAs p) mx pr prs" "s' = write_back p s"
proof (cases c)
  case (At_pr k new mx rest)
  with assms quiet show thesis by (cases rest) (auto simp: Let_def split: prod.splits if_splits)
next
  case (In_pr ctl k new mx pr prs)
  show thesis
  proof (cases "pr_result ctl")
    case None
    with In_pr assms obtain ctl' p where "pr_step w pr ctl (batch_state s k new) = Some (ctl', p)"
      "c' = In_pr ctl' (cursor p) (newHeadSHAs p) mx pr prs" "s' = write_back p s"
      by auto
    with In_pr pull_request show thesis by blast
  next
    case (Some r)
    with In_pr assms quiet show thesis by (cases r) auto
  qed
qed (use assms quiet in \<open>auto simp: Let_def end_poll_def split: prod.splits sum.splits option.splits if_splits\<close>)

text \<open>What a step sends, as far as the number of commands and the counters go.\<close>

lemma process_sends:
  assumes "process_step d now p s = Some (p', s')"
  obtains (quiet) "sh_sent s' = sh_sent s" "sh_metrics s \<le> sh_metrics s'" "\<And>tid. may_send tid p' \<le> may_send tid p"
    | (sends) cmd where "sh_sent s' = sh_sent s @ [cmd]" "sh_metrics s \<le> sh_metrics s'"
      "\<And>tid. may_send tid p' + (if tid = cmd_TaskIdentifier cmd then 1 else 0) \<le> may_send tid p"
proof (cases p)
  case (Polling c)
  with assms obtain c' where c: "poll_step ((dp_watcher d)\<lparr>startTime := now\<rparr>) c s = Some (c', s')" "p' = Polling c'"
    by auto
  from c(1) show thesis
  proof (cases rule: poll_step_cases)
    case quiet
    with Polling c(2) that(1) show thesis by simp
  next
    case (pull_request ctl k new mx pr prs ctl' v)
    note m = pr_step_keeps(1) [OF pull_request(2)]
    from pull_request(2) show thesis
    proof (cases rule: pr_step_effect)
      case quiet
      with Polling c(2) pull_request m that(1) show thesis by simp
    next
      case (sends details verdict cmd)
      with Polling c(2) pull_request m show thesis by (intro that(2) [of cmd]) (auto simp: domIff)
    qed
  qed
next
  case (Handling t c)
  with assms obtain c' v where c: "trigger_step t c (view s) = Some (c', v)" "p' = Handling t c'" "s' = write_back v s"
    by auto
  have over: "trigger_result c' = Some r" if "trigger_result c = Some r" for r
    using that c(1) by (cases c) auto
  from c(1) show thesis
  proof (cases rule: trigger_step_cases)
    case call
    with Handling c over that(1) show thesis by (cases "trigger_result c") auto
  next
    case (sends cmd prInfo details result tid createCmd)
    with BuildCreateCommand_SomeD(1) [OF sends(5)] Handling c show thesis
      by (intro that(2) [of createCmd]) auto
  qed
qed (use assms that(1) in simp)

lemma sum_list_bound: "(\<And>x. x \<in> set xs \<Longrightarrow> f x \<le> 1) \<Longrightarrow> sum_list (map f xs) \<le> (length xs :: nat)"
  by (induction xs) (auto intro: order_trans [OF add_mono])

lemma step_times_sent:
  "process_step d now p s = Some (p', s') \<Longrightarrow>
    times_sent tid (view s') + may_send tid p' \<le> times_sent tid (view s) + may_send tid p"
proof (erule process_sends)
  fix cmd
  assume "sh_sent s' = sh_sent s @ [cmd]"
    and "\<And>tid. may_send tid p' + (if tid = cmd_TaskIdentifier cmd then 1 else 0) \<le> may_send tid p"
  from this(1) this(2) [of tid] show ?thesis by (auto simp: times_sent_def split: if_splits)
qed (simp add: times_sent_def)

lemma running_times_sent:
  assumes "running d s0 s ps"
  shows "times_sent tid (view s) + sum_list (map (may_send tid) ps) \<le> times_sent tid (view s0) + length ps"
  using assms
proof (induction rule: running.induct)
  case (rn_step s ps i now p' s')
  have "sum_list (map (may_send tid) (ps[i := p'])) + may_send tid (ps ! i)
      = sum_list (map (may_send tid) ps) + may_send tid p'"
    using rn_step.hyps(2) elem_le_sum_list [of i "map (may_send tid) ps"] by (simp add: map_update sum_list_update)
  with rn_step.IH step_times_sent [OF rn_step.hyps(3), of tid] show ?case by simp
next
  case (rn_kill s ps)
  have "sum_list (map (may_send tid) (map (\<lambda>p. Killed) ps)) = 0" by (induction ps) simp_all
  with rn_kill.IH show ?case by (simp add: times_sent_def comp_def)
qed (simp_all add: times_sent_def)

lemma running_counts: "running d s0 s ps \<Longrightarrow> dp_metrics d \<le> sh_metrics s0 \<Longrightarrow> dp_metrics d \<le> sh_metrics s"
proof (induction rule: running.induct)
  case (rn_step s ps i now p' s')
  from rn_step.hyps(3) have "sh_metrics s \<le> sh_metrics s'" by (cases rule: process_sends)
  with rn_step.IH [OF rn_step.prems] show ?case by (rule order_trans)
qed simp_all

text \<open>What follows a state while the process lives: the rules of a run, the kill apart.\<close>

inductive living ::
  "('w, 'd, 'k) deployment \<Rightarrow> 'w shared \<Rightarrow> ('w, 'd) process list \<Rightarrow> 'w shared \<Rightarrow> ('w, 'd) process list \<Rightarrow> bool"
  for d s0 ps0 where
  lv_begin: "living d s0 ps0 s0 ps0"
| lv_poll: "living d s0 ps0 s ps \<Longrightarrow> living d s0 ps0 s (ps @ [Polling At_start])"
| lv_trigger: "living d s0 ps0 s ps \<Longrightarrow> ex \<in> set (c_executors (dp_consumer d)) \<Longrightarrow>
    living d s0 ps0 s (ps @ [Handling (ex_captured ex) (Tr_begin data)])"
| lv_step: "living d s0 ps0 s ps \<Longrightarrow> i < length ps \<Longrightarrow> process_step d now (ps ! i) s = Some (p', s') \<Longrightarrow>
    living d s0 ps0 s' (ps[i := p'])"
| lv_world: "living d s0 ps0 s ps \<Longrightarrow> living d s0 ps0 (s\<lparr>sh_world := wd\<rparr>) ps"
| lv_files: "living d s0 ps0 s ps \<Longrightarrow> living d s0 ps0 (s\<lparr>sh_fs := fs\<rparr>) ps"

lemma living_running: "living d s ps s' ps' \<Longrightarrow> running d s0 s ps \<Longrightarrow> running d s0 s' ps'"
  by (induction rule: living.induct) (auto intro: running.intros)

lemma living_counts: "living d s ps s' ps' \<Longrightarrow> sh_metrics s \<le> sh_metrics s'"
proof (induction rule: living.induct)
  case (lv_step s ps i now p' s')
  from lv_step.hyps(3) have "sh_metrics s \<le> sh_metrics s'" by (cases rule: process_sends)
  with lv_step.IH show ?case by (rule order_trans)
qed simp_all

subsection \<open>What every command rests on\<close>

text \<open>The executors of a deployment run triggers over its client, sender and configuration.\<close>

lemma deployment_captured:
  assumes "Run p env a regs = Some (Inr d, regs')" and "ex \<in> set (c_executors (dp_consumer d))"
  shows "t_ghClient (ex_captured ex) = ghClient (dp_watcher d)"
    and "t_yaml (ex_captured ex) = yaml_unmarshal (dp_watcher d)"
    and "t_cfg (ex_captured ex) = w_cfg (dp_watcher d)"
    and "t_SendCommand (ex_captured ex) = SendCommand (dp_watcher d)"
    and "t_uuid (ex_captured ex) = uuid5 (dp_watcher d)"
proof -
  from assms(1) obtain x where "d = assemble env x" by (rule Run_InrD)
  with assms(2) show "t_ghClient (ex_captured ex) = ghClient (dp_watcher d)"
    "t_yaml (ex_captured ex) = yaml_unmarshal (dp_watcher d)" "t_cfg (ex_captured ex) = w_cfg (dp_watcher d)"
    "t_SendCommand (ex_captured ex) = SendCommand (dp_watcher d)"
    "t_uuid (ex_captured ex) = uuid5 (dp_watcher d)"
    by (simp_all add: assemble_def CreateWatcher_def NewWatcher_def CreateCommandConsumer_def
        NewTriggerCommandExecutor_def trigger_of_def Let_def)
qed

text \<open>
  Where the pull request of a command comes from: the search for the configured scope found
  it and the allowlist admits its repository, or a trigger command named it.
\<close>

definition searched :: "'w watcher \<Rightarrow> PullRequest \<Rightarrow> bool" where
  "searched w pr \<longleftrightarrow>
     (\<exists>since page wd result wd'. SearchPRs (ghClient w) (w_scope w) since page wd = Some (Inr result, wd')
        \<and> pr \<in> set (PullRequests result))"

definition from_search :: "'w watcher \<Rightarrow> PullRequest \<Rightarrow> bool" where
  "from_search w pr \<longleftrightarrow> searched w pr \<and> \<not> scopeFilter w \<lparr>RepoKey = repoKeyOf pr\<rparr>"

definition from_trigger :: "('w, 'd, 'k) deployment \<Rightarrow> PullRequest \<Rightarrow> PRDetails \<Rightarrow> bool" where
  "from_trigger d pr details \<longleftrightarrow>
     (\<exists>ex \<in> set (c_executors (dp_consumer d)). \<exists>cmd prInfo. requested (ex_captured ex) cmd prInfo
        \<and> pr = trigger_pr prInfo cmd details)"

definition justified :: "('w, 'd, 'k) deployment \<Rightarrow> CreateCommand \<Rightarrow> bool" where
  "justified d cmd \<longleftrightarrow>
     (\<exists>pr details specs. (from_search (dp_watcher d) pr \<or> from_trigger d pr details)
        \<and> reported (ghClient (dp_watcher d)) pr details
        \<and> grounded (yaml_unmarshal (dp_watcher d)) (ghClient (dp_watcher d)) (eval_input pr details) specs
        \<and> BuildCreateCommand pr details (cmd_TaskIdentifier cmd) (w_cfg (dp_watcher d)) specs = Some cmd)"

text \<open>
  The same with the name of the task: a poll derives the identifier from the repository, the
  number, the head commit and the state of the queue, a forced trigger from a nonce instead
  of the latter.
\<close>

definition derived :: "'w watcher \<Rightarrow> PullRequest \<Rightarrow> PRDetails \<Rightarrow> string \<Rightarrow> bool" where
  "derived w pr details tid \<longleftrightarrow>
     (\<exists>queued. tid = DeriveTaskID (uuid5 w) (Owner pr) (Repo pr) (Number pr) (d_HeadSHA details) queued)"

definition derived_force :: "'w watcher \<Rightarrow> PullRequest \<Rightarrow> PRDetails \<Rightarrow> string \<Rightarrow> bool" where
  "derived_force w pr details tid \<longleftrightarrow>
     (\<exists>nonce. tid = DeriveTaskIDForce (uuid5 w) (Owner pr) (Repo pr) (Number pr) (d_HeadSHA details) nonce)"

definition work_of ::
  "('w, 'd, 'k) deployment \<Rightarrow> PullRequest \<Rightarrow> PRDetails \<Rightarrow> string \<Rightarrow> bool"
where
  "work_of d pr details tid \<longleftrightarrow>
     from_search (dp_watcher d) pr \<and> derived (dp_watcher d) pr details tid
     \<or> (\<exists>ex \<in> set (c_executors (dp_consumer d)). \<exists>cmd prInfo. requested (ex_captured ex) cmd prInfo
          \<and> pr = trigger_pr prInfo cmd details
          \<and> (if tc_Force cmd then derived_force (dp_watcher d) pr details tid
             else derived (dp_watcher d) pr details tid))"

definition based :: "('w, 'd, 'k) deployment \<Rightarrow> CreateCommand \<Rightarrow> bool" where
  "based d cmd \<longleftrightarrow>
     (\<exists>pr details specs. work_of d pr details (cmd_TaskIdentifier cmd)
        \<and> reported (ghClient (dp_watcher d)) pr details
        \<and> grounded (yaml_unmarshal (dp_watcher d)) (ghClient (dp_watcher d)) (eval_input pr details) specs
        \<and> BuildCreateCommand pr details (cmd_TaskIdentifier cmd) (w_cfg (dp_watcher d)) specs = Some cmd)"

lemma based_justified: "based d cmd \<Longrightarrow> justified d cmd"
  unfolding based_def work_of_def justified_def from_trigger_def by blast

text \<open>A poll works on pull requests its search found, and knows what it has read so far.\<close>

fun poll_inv :: "'w watcher \<Rightarrow> control \<Rightarrow> bool" where
  "poll_inv w (At_page c page prs) \<longleftrightarrow> (\<forall>pr \<in> set prs. searched w pr)"
| "poll_inv w (At_select c prs) \<longleftrightarrow> (\<forall>pr \<in> set prs. searched w pr)"
| "poll_inv w (At_pr c new mx prs) \<longleftrightarrow> (\<forall>pr \<in> set prs. searched w pr)"
| "poll_inv w (In_pr ctl c new mx pr prs) \<longleftrightarrow> pr_inv w pr ctl \<and> (\<forall>pr \<in> set (pr # prs). searched w pr)"
| "poll_inv w _ \<longleftrightarrow> True"

fun process_inv :: "('w, 'd, 'k) deployment \<Rightarrow> ('w, 'd) process \<Rightarrow> bool" where
  "process_inv d (Polling c) \<longleftrightarrow> poll_inv (dp_watcher d) c"
| "process_inv d (Handling t c) \<longleftrightarrow>
     (\<exists>ex \<in> set (c_executors (dp_consumer d)). t = ex_captured ex) \<and> trigger_inv t c"
| "process_inv d Killed \<longleftrightarrow> True"

lemma start_irrelevant:
  "searched (w\<lparr>startTime := now\<rparr>) pr = searched w pr" "pr_inv (w\<lparr>startTime := now\<rparr>) pr ctl = pr_inv w pr ctl"
  "poll_inv (w\<lparr>startTime := now\<rparr>) c = poll_inv w c"
proof -
  show f: "searched (w\<lparr>startTime := now\<rparr>) pr = searched w pr" for pr by (simp add: searched_def)
  show p: "pr_inv (w\<lparr>startTime := now\<rparr>) pr ctl = pr_inv w pr ctl" for pr ctl by (cases ctl) simp_all
  show "poll_inv (w\<lparr>startTime := now\<rparr>) c = poll_inv w c" by (cases c) (simp_all add: f p)
qed

lemma searchedI:
  "SearchPRs (ghClient w) (w_scope w) since page wd = Some (Inr result, wd') \<Longrightarrow> pr \<in> set (PullRequests result) \<Longrightarrow>
    searched w pr"
  unfolding searched_def by blast

lemma poll_inv_step:
  assumes "poll_inv w c" and "poll_step w c s = Some (c', s')"
  shows "poll_inv w c'"
proof (cases c)
  case (At_page k page prs)
  obtain b wd where d: "ctx_Done w (sh_world s) = (b, wd)" by fastforce
  show ?thesis
  proof (cases b)
    case True
    with At_page assms d show ?thesis by auto
  next
    case False
    with At_page assms d obtain r wd2 where
      r: "SearchPRs (ghClient w) (w_scope w) (LastUpdatedAt k) page wd = Some (r, wd2)" by auto
    have "\<forall>pr \<in> set (PullRequests result). searched w pr" if "r = Inr result" for result
      using searchedI [OF r [unfolded that]] by simp
    with At_page assms d False r show ?thesis by (cases r) (auto simp: Let_def split: if_splits)
  qed
next
  case (At_pr k new mx rest)
  with assms show ?thesis by (cases rest) (auto simp: Let_def split: prod.splits if_splits)
next
  case (In_pr ctl k new mx pr prs)
  show ?thesis
  proof (cases "pr_result ctl")
    case None
    with In_pr assms show ?thesis by (auto intro: pr_inv_step)
  next
    case (Some r)
    with In_pr assms show ?thesis by (cases r) auto
  qed
qed (use assms in \<open>auto simp: Let_def end_poll_def split: prod.splits sum.splits option.splits if_splits\<close>)

lemma process_inv_step:
  assumes "process_inv d p" and "process_step d now p s = Some (p', s')"
  shows "process_inv d p'"
proof (cases p)
  case (Polling c)
  with assms poll_inv_step [of "(dp_watcher d)\<lparr>startTime := now\<rparr>" c s] show ?thesis
    by (auto simp: start_irrelevant)
next
  case (Handling t c)
  with assms show ?thesis by (auto intro: trigger_inv_step)
qed (use assms in simp)

lemma running_inv: "running d s0 s ps \<Longrightarrow> p \<in> set ps \<Longrightarrow> process_inv d p"
  by (erule (1) running_processes) (auto intro: process_inv_step)

lemma trigger_identifier:
  assumes "tid = fst (trigger_task_id t prInfo cmd details result wd)" and "t_uuid t = uuid5 w"
  shows "if tc_Force cmd then derived_force w (trigger_pr prInfo cmd details) details tid
    else derived w (trigger_pr prInfo cmd details) details tid"
  using assms by (auto simp: trigger_task_id_def derived_def derived_force_def split: prod.splits)

lemma step_based:
  assumes "Run q env a regs = Some (Inr d, regs')" and "process_inv d p"
    and "process_step d now p s = Some (p', s')"
  shows "\<exists>cmds. sh_sent s' = sh_sent s @ cmds \<and> (\<forall>cmd \<in> set cmds. based d cmd)"
proof (cases p)
  case (Polling c)
  let ?w = "(dp_watcher d)\<lparr>startTime := now\<rparr>"
  from Polling assms(3) obtain c' where "poll_step ?w c s = Some (c', s')" by auto
  then show ?thesis
  proof (cases rule: poll_step_cases)
    case (pull_request ctl k new mx pr prs ctl' v)
    from pull_request(2) show ?thesis
    proof (cases rule: pr_step_effect)
      case (sends details verdict cmd)
      from assms(2) Polling pull_request(1) sends(1,2) have "from_search (dp_watcher d) pr"
        and g: "reported (ghClient (dp_watcher d)) pr details"
        "grounded (yaml_unmarshal (dp_watcher d)) (ghClient (dp_watcher d)) (eval_input pr details) (MatchedSpecs verdict)"
        by (simp_all add: from_search_def)
      moreover have "derived (dp_watcher d) pr details (cmd_TaskIdentifier cmd)"
        unfolding sends(7) derived_def
        by (rule exI [of _ "PromptsQueued verdict"]) (simp add: task_id_of_def taskIDsFor_def)
      ultimately have "work_of d pr details (cmd_TaskIdentifier cmd)" by (simp add: work_of_def)
      with g sends(4) have "based d cmd" unfolding based_def by auto
      with sends(3) pull_request(4) show ?thesis by simp
    qed (use pull_request(4) in simp)
  qed simp
next
  case (Handling t c)
  with assms(3) obtain c' v where c: "trigger_step t c (view s) = Some (c', v)" "s' = write_back v s" by auto
  from Handling assms(2) obtain ex where ex: "ex \<in> set (c_executors (dp_consumer d))" "t = ex_captured ex"
    and inv: "trigger_inv t c" by auto
  note t = deployment_captured [OF assms(1) ex(1), folded ex(2)]
  from c(1) show ?thesis
  proof (cases rule: trigger_step_cases)
    case (sends cmd prInfo details result tid createCmd)
    let ?pr = "trigger_pr prInfo cmd details"
    from inv sends(1) have rq: "requested t cmd prInfo" and r: "reported (ghClient (dp_watcher d)) ?pr details"
      "grounded (yaml_unmarshal (dp_watcher d)) (ghClient (dp_watcher d)) (eval_input ?pr details) (MatchedSpecs result)"
      and tid: "\<exists>wd. tid = fst (trigger_task_id t prInfo cmd details result wd)"
      by (simp_all add: t trigger_input_pr [of prInfo details cmd])
    from tid trigger_identifier [OF _ t(5)] have
      "if tc_Force cmd then derived_force (dp_watcher d) ?pr details tid else derived (dp_watcher d) ?pr details tid"
      by blast
    with ex rq have "work_of d ?pr details tid" unfolding work_of_def by blast
    with r sends(5) BuildCreateCommand_SomeD(1) [OF sends(5)] have "based d createCmd"
      unfolding based_def by (auto simp: t)
    with sends(3) c(2) show ?thesis by simp
  qed (use c(2) in simp)
qed (use assms(3) in simp)

lemma running_based:
  assumes "Run q env a regs = Some (Inr d, regs')" and "running d s0 s ps"
  shows "\<exists>cmds. sh_sent s = sh_sent s0 @ cmds \<and> (\<forall>cmd \<in> set cmds. based d cmd)"
  using assms(2)
proof (induction rule: running.induct)
  case (rn_step s ps i now p' s')
  from rn_step.hyps(2) have "process_inv d (ps ! i)" by (intro running_inv [OF rn_step.hyps(1)]) simp
  from rn_step.IH step_based [OF assms(1) this rn_step.hyps(3)] show ?case by fastforce
qed simp_all

subsection \<open>Progress\<close>

text \<open>The maps a poll will write to are not nil.\<close>

fun poll_ready :: "control \<Rightarrow> bool" where
  "poll_ready (At_page c page prs) \<longleftrightarrow> usable c"
| "poll_ready (At_select c prs) \<longleftrightarrow> usable c"
| "poll_ready (At_pr c new mx prs) \<longleftrightarrow> usable c \<and> new \<noteq> None"
| "poll_ready (In_pr ctl c new mx pr prs) \<longleftrightarrow> usable c \<and> new \<noteq> None"
| "poll_ready _ \<longleftrightarrow> True"

fun maps_ready :: "('w, 'd) process \<Rightarrow> bool" where
  "maps_ready (Polling c) \<longleftrightarrow> poll_ready c"
| "maps_ready _ \<longleftrightarrow> True"

lemma batch_ready: "ready (batch_state s c new) \<longleftrightarrow> usable c \<and> new \<noteq> None"
  by (simp add: ready_def usable_def)

lemma poll_step_ready:
  assumes "poll_step w c s = Some (c', s')" and "poll_ready c"
  shows "poll_ready c'"
proof (cases c)
  case At_start
  with assms LoadCursor_usable show ?thesis by (auto simp: Let_def split: prod.splits sum.splits)
next
  case (At_pr k new mx rest)
  with assms show ?thesis by (cases rest) (auto simp: Let_def split: prod.splits if_splits)
next
  case (In_pr ctl k new mx pr prs)
  show ?thesis
  proof (cases "pr_result ctl")
    case None
    with In_pr assms obtain ctl' p where p: "pr_step w pr ctl (batch_state s k new) = Some (ctl', p)"
      "c' = In_pr ctl' (cursor p) (newHeadSHAs p) mx pr prs"
      by auto
    from pr_step_ready [OF p(1)] assms(2) In_pr have "ready p" by (simp add: batch_ready)
    with p(2) show ?thesis by (simp add: ready_def usable_def)
  next
    case (Some r)
    with In_pr assms show ?thesis by (cases r) auto
  qed
qed (use assms in \<open>auto simp: Let_def end_poll_def make_map_def
    split: prod.splits sum.splits option.splits if_splits\<close>)

lemma poll_step_returns:
  assumes "poll_ready c" and "calls_return w" and "0 \<le> cfg_MaxSlugLen (w_cfg w)"
    and "\<And>since page wd. SearchPRs (ghClient w) (w_scope w) since page wd \<noteq> None"
  shows "poll_step w c s \<noteq> None"
proof (cases c)
  case (At_page k page prs)
  obtain b wd where d: "ctx_Done w (sh_world s) = (b, wd)" by fastforce
  from assms(4) obtain r wd2 where "SearchPRs (ghClient w) (w_scope w) (LastUpdatedAt k) page wd = Some (r, wd2)"
    by (metis not_None_eq surj_pair)
  with At_page d show ?thesis by (cases r) (simp_all add: Let_def)
next
  case (At_pr k new mx rest)
  then show ?thesis by (cases rest) (auto simp: Let_def split: prod.split)
next
  case (In_pr ctl k new mx pr prs)
  with assms(1) have "ready (batch_state s k new)" by (simp add: batch_ready)
  from pr_step_returns [OF this assms(2,3), of pr ctl] In_pr show ?thesis
    by (cases "pr_result ctl") auto
qed (auto simp: Let_def end_poll_def split: prod.split sum.split option.split)

lemma running_ready:
  assumes "running d s0 s ps" and "p \<in> set ps"
  shows "maps_ready p"
proof (rule running_processes [OF assms])
  fix now and p p' :: "('a, 'b) process" and s s'
  assume "maps_ready p" "process_step d now p s = Some (p', s')"
  then show "maps_ready p'" by (cases p) (auto intro: poll_step_ready)
qed simp_all

end
