(* ===== verification/System_Claims.thy ===== *)
theory System_Claims
  imports Poll_System
begin

text \<open>
  What the runs of \<open>Poll_System\<close> promise for a deployment: what is sent, where to and how
  often, that no step of a poll or trigger panics, that every process comes to its end and that
  counters only go up; with a deployment to try it on.
\<close>

subsection \<open>Every process ends\<close>

text \<open>GitHub's pages come to an end, or to an error, from wherever a search stands.\<close>

definition search_ends :: "'w watcher \<Rightarrow> bool" where
  "search_ends w \<longleftrightarrow>
     (\<forall>since page wd. (\<exists>chunks wd'. served (search_fetch w since) page wd chunks wd')
        \<or> (\<exists>e wd'. broken (search_fetch w since) page wd e wd'))"

fun ended :: "('w, 'd) process \<Rightarrow> bool" where
  "ended (Polling c) \<longleftrightarrow> (\<exists>r. c = Ended r)"
| "ended (Handling t c) \<longleftrightarrow> (\<exists>r. c = Tr_done r)"
| "ended Killed \<longleftrightarrow> True"

lemma solo_runs:
  "solo w c s c' s' \<Longrightarrow> w = (dp_watcher d)\<lparr>startTime := now\<rparr> \<Longrightarrow>
    runs (process_step d now) (Polling c) s (Polling c') s'"
  by (induction rule: solo.induct) (auto intro: runs.runs_refl runs.runs_step)

lemma batch_ends:
  assumes "calls_return w" and "0 \<le> cfg_MaxSlugLen (w_cfg w)" and "usable c" and "new \<noteq> None"
  shows "ends w (At_pr c new mx prs) s"
  by (rule ends_pr, rule process_loop_returns) (use assms in \<open>simp_all add: batch_ready\<close>)

lemma pull_request_ends:
  assumes "calls_return w" and "0 \<le> cfg_MaxSlugLen (w_cfg w)"
  shows "usable c \<Longrightarrow> new \<noteq> None \<Longrightarrow> ends w (In_pr ctl c new mx pr prs) s"
proof (induction ctl arbitrary: c new s rule: wf_induct_rule [OF pm.wf_nearer])
  case (1 ctl c new s)
  show ?case
  proof (cases "pr_result ctl")
    case None
    have ready: "ready (batch_state s c new)" using 1(2,3) by (simp add: batch_ready)
    with pr_step_returns [OF _ assms] obtain ctl' p where p: "pr_step w pr ctl (batch_state s c new) = Some (ctl', p)"
      by (metis not_None_eq surj_pair)
    from pr_step_ready [OF p ready] have "usable (cursor p)" "newHeadSHAs p \<noteq> None"
      by (simp_all add: ready_def usable_def)
    note later = 1(1) [OF pr_nearer_step [OF None p] this]
    from None p have "poll_step w (In_pr ctl c new mx pr prs) s
        = Some (In_pr ctl' (cursor p) (newHeadSHAs p) mx pr prs, write_back p s)" by simp
    from ends_step [OF this later] show ?thesis .
  next
    case (Some r)
    with batch_ends [OF assms 1(2,3)] show ?thesis
      by (cases r) (auto intro: ends_step [of w "In_pr ctl c new mx pr prs"])
  qed
qed

lemma select_ends:
  assumes "calls_return w" and "0 \<le> cfg_MaxSlugLen (w_cfg w)" and "usable c"
  shows "ends w (At_select c prs) s"
  by (rule ends_stepI) (use assms in \<open>auto simp: Let_def make_map_def intro!: batch_ends split: prod.splits if_splits\<close>)

lemma search_then_ends:
  assumes "calls_return w" and "0 \<le> cfg_MaxSlugLen (w_cfg w)" and "search_ends w" and "usable c"
  shows "ends w (At_page c page prs) s"
proof -
  note select = select_ends [OF assms(1,2,4)]
  from assms(3) consider
      chunks wd where "served (search_fetch w (LastUpdatedAt c)) page (sh_world s) chunks wd"
    | e wd where "broken (search_fetch w (LastUpdatedAt c)) page (sh_world s) e wd"
    unfolding search_ends_def by blast
  then show ?thesis
  proof cases
    case 1
    from ends_solo [OF served_solo [OF 1 refl] select] show ?thesis .
  next
    case 2
    from broken_ends [OF 2 refl, of prs] ends_solo [OF _ select] show ?thesis by blast
  qed
qed

lemma poll_ends:
  assumes "calls_return w" and "0 \<le> cfg_MaxSlugLen (w_cfg w)" and "search_ends w" and "poll_ready c"
  shows "ends w c s"
proof (cases c)
  case At_start
  then show ?thesis
    using search_then_ends [OF assms(1-3)] LoadCursor_usable
    by (auto intro!: ends_stepI [of w At_start] simp: Let_def split: prod.splits sum.splits)
next
  case (At_page k page prs)
  with search_then_ends [OF assms(1-3)] assms(4) show ?thesis by simp
next
  case (At_select k prs)
  with select_ends [OF assms(1,2)] assms(4) show ?thesis by simp
next
  case (At_pr k new mx prs)
  with batch_ends [OF assms(1,2)] assms(4) show ?thesis by simp
next
  case (In_pr ctl k new mx pr prs)
  with pull_request_ends [OF assms(1,2)] assms(4) show ?thesis by simp
qed (simp_all add: ends_save ends_write ends_rename)

lemma trigger_ends:
  assumes "\<And>c v. trigger_step t c v \<noteq> None"
  shows "\<exists>r s'. runs (process_step d now) (Handling t c) s (Handling t (Tr_done r)) s'"
proof (induction c arbitrary: s rule: wf_induct_rule [OF tm.wf_nearer])
  case (1 c)
  show ?case
  proof (cases "trigger_result c")
    case None
    obtain c' v where st: "trigger_step t c (view s) = Some (c', v)" by (metis assms not_None_eq surj_pair)
    then have "process_step d now (Handling t c) s = Some (Handling t c', write_back v s)" by simp
    with 1 [OF trigger_nearer_step [OF None st]] show ?thesis by (blast intro: runs.runs_step)
  next
    case (Some r)
    then have "c = Tr_done r" by (cases c) simp_all
    then show ?thesis by (auto intro: runs.runs_refl)
  qed
qed

subsection \<open>A deployment to try the properties on\<close>

text \<open>
  GitHub serves the evaluator's example repository to it, through the real client, and every
  URL names pull request 42.
\<close>

definition live_pull :: gh_pull where
  "live_pull = \<lparr>p_Head = Some \<lparr>h_SHA = Some ''abc1234567'', h_Ref = Some ''feature'', h_Repo = None\<rparr>,
     p_State = Some ''open'', p_Draft = Some True, p_Title = Some ''Fix Bug!'', p_UpdatedAt = Some 100\<rparr>"

definition live_github :: "unit gogithub" where
  "live_github = snapshot_api
     (example_github\<lparr>Get_Pull := \<lambda>owner repo number w. Some (Inr live_pull, w)\<rparr>) example_snapshot"

definition live_environment :: "(unit, TriggerCommand, unit, unit) environment" where
  "live_environment = example_environment
     \<lparr>e_http := (e_http example_environment)\<lparr>gogithub_NewClient := \<lambda>t. live_github\<rparr>,
      e_ParsePRURL := \<lambda>url. Inr example_pr_info\<rparr>"

lemma live_verdict:
  assumes "in_IsDraft inp" and "in_State inp = ''open''"
  shows "Evaluate example_yaml (githubClient live_github) inp () = Some (Inr example_result, ())"
proof -
  let ?tree = "\<lambda>path. if path = promptsDir then None else sn_tree example_snapshot path"
  have diff: "sn_diff example_snapshot = [''x.go'', ''specs/in-progress/1.md'']"
    by (simp add: sn_diff_def example_snapshot_def)
  have tree: "?tree ''specs/in-progress/1.md'' = Some example_spec" "?tree darkFactoryConfigFile = Some ''''"
    by (simp_all add: example_snapshot_def promptsDir_def darkFactoryConfigFile_def)
  have "candidate_spec example_yaml inp (sn_diff example_snapshot) ?tree (sn_listing example_snapshot)
      = Inr example_result"
    using tree example_spec_approved assms
    by (simp add: candidate_spec_def diff approved_at_def spec_errors_def queued_at_def example_result_def sn_listing_def)
       (simp add: example_snapshot_def has_suffix_def)
  with snapshot.evaluate_meets_spec [where inp = inp and w = "()", OF refl refl refl refl] show ?thesis
    by (auto simp: live_github_def)
qed

lemma live_trigger:
  assumes "0 \<le> cfg_MaxSlugLen cfg"
  defines "t \<equiv> trigger_of live_environment (githubClient live_github) (\<lambda>cmd w. Some (None, w)) cfg"
  shows "\<exists>v' c. runTrigger t example_trigger_command v = Some (None, v') \<and> sent v' = sent v @ [c]
    \<and> cmd_TaskIdentifier c = ''bborbe/widget#42@queued''"
proof -
  let ?data = example_trigger_command
  let ?d = "\<lparr>d_HeadSHA = ''abc1234567'', d_CloneURL = '''', d_Branch = ''feature'', d_State = ''open'',
    d_IsDraft = True, d_Title = ''Fix Bug!'', d_UpdatedAt = 100\<rparr>"
  have f: "t_ghClient t = githubClient live_github" "t_yaml t = example_yaml" "t_cfg t = cfg"
    "t_SendCommand t c w = Some (None, w)" "ParsePRURL t url = Inr example_pr_info" "t_uuid t = (\<lambda>ns k. k)" for c w url
    by (simp_all add: t_def trigger_of_def live_environment_def example_environment_def)
  have u: "unmarshalAndValidate t ?data = Inr ?data"
    by (simp add: unmarshalAndValidate_def TriggerCommand_Validate_def check_url_def t_def trigger_of_def
        live_environment_def example_environment_def example_trigger_command_def example_pr_info_def)
  have g: "GetPRDetails (githubClient live_github) owner repo number () = Some (Inr ?d, ())" for owner repo number
    by (simp add: githubClient_def client_GetPRDetails_def live_github_def snapshot_api_def live_pull_def)
  have e: "Evaluate example_yaml (githubClient live_github) (trigger_input example_pr_info ?d) ()
      = Some (Inr example_result, ())"
    by (rule live_verdict) (simp_all add: trigger_input_def)
  have r: "Keep example_result" "PromptsQueued example_result" by (simp_all add: example_result_def)
  have i: "trigger_task_id t example_pr_info ?data ?d example_result () = (''bborbe/widget#42@queued'', ())"
    by (simp add: trigger_task_id_def f r example_trigger_command_def example_pr_info_def DeriveTaskID_def
        task_key_def pr_ref_def itoa_42)
  from BuildCreateCommand_defined [OF assms(1)] obtain c where
    c: "BuildCreateCommand (trigger_pr example_pr_info ?data ?d) ?d ''bborbe/widget#42@queued'' cfg
      (MatchedSpecs example_result) = Some c" by blast
  then have "cmd_TaskIdentifier c = ''bborbe/widget#42@queued''" by (rule BuildCreateCommand_SomeD(1))
  with c show ?thesis by (simp add: runTrigger_def u f g e r publishCreateCommand_def i)
qed

text \<open>The same unforced trigger, handled twice, with a poll started and the process killed in between.\<close>

lemma live_run:
  obtains d regs' s0 s t where
    "Run (example_platform \<lparr>Transport = None\<rparr>) live_environment example_application (\<lambda>_. []) = Some (Inr d, regs')"
    and "sh_metrics s0 = dp_metrics d" and "sh_sent s0 = []"
    and "running d s0 s [Killed, Killed, Handling t (Tr_done None)]"
    and "map cmd_TaskIdentifier (sh_sent s) = [''bborbe/widget#42@queued'', ''bborbe/widget#42@queued'']"
proof -
  let ?p = "example_platform (\<lparr>Transport = None\<rparr> :: unit http_client)"
  have e: "example_application\<lparr>a_PollInterval := ''5m''\<rparr> = example_application"
    by (simp add: example_application_def)
  from example_wiring [where c = "\<lparr>Transport = None\<rparr> :: unit http_client" and i = "''5m''"] obtain x regs' where
    w: "wire ?p example_application (\<lambda>_. []) = Some (Inr x, regs')"
    unfolding e by auto
  define d where "d = assemble live_environment x"
  have run: "Run ?p live_environment example_application (\<lambda>_. []) = Some (Inr d, regs')"
    by (simp add: Run_def w d_def)
  let ?t = "trigger_of live_environment (githubClient live_github) (\<lambda>cmd w. Some (None, w)) (wr_taskCfg x)"
  let ?ex = "NewTriggerCommandExecutor live_environment (githubClient live_github) (\<lambda>cmd w. Some (None, w)) (wr_taskCfg x)"
  have ex: "?ex \<in> set (c_executors (dp_consumer d))"
    by (simp add: d_def assemble_def CreateCommandConsumer_def Let_def NewGitHubClient_def live_environment_def
        example_environment_def CreateKafkaSender_def)
  have h: "\<exists>v' c. ex_Handle ?ex example_trigger_command v = Some (None, v') \<and> sent v' = sent v @ [c]
      \<and> cmd_TaskIdentifier c = ''bborbe/widget#42@queued''" for v
    unfolding NewTriggerCommandExecutor_def ex_Handle_def executor.simps
    by (rule live_trigger [OF wire_slug_limit [OF w]])
  define s0 where "s0 = example_shared\<lparr>sh_metrics := dp_metrics d\<rparr>"
  from h [of "view s0"] obtain v1 c1 where v1: "ex_Handle ?ex example_trigger_command (view s0) = Some (None, v1)"
    "sent v1 = [c1]" "cmd_TaskIdentifier c1 = ''bborbe/widget#42@queued''"
    by (auto simp: s0_def example_shared_def)
  let ?s1 = "(write_back v1 s0)\<lparr>sh_metrics := dp_metrics d\<rparr>"
  from rn_kill [OF rn_poll [OF trigger_handled [OF rn_begin ex v1(1)]]]
  have r1: "running d s0 ?s1 [Killed, Killed]" by simp
  from h [of "view ?s1"] obtain v2 c2 where v2: "ex_Handle ?ex example_trigger_command (view ?s1) = Some (None, v2)"
    "sent v2 = [c1, c2]" "cmd_TaskIdentifier c2 = ''bborbe/widget#42@queued''"
    using v1(2) by auto
  from trigger_handled [OF r1 ex v2(1)]
  have "running d s0 (write_back v2 ?s1) [Killed, Killed, Handling (ex_captured ?ex) (Tr_done None)]" by simp
  with run v1 v2 show thesis
    by (intro that [of d regs' s0 "write_back v2 ?s1" "ex_captured ?ex"]) (simp_all add: s0_def example_shared_def)
qed

lemma live_reads: "reads_return (githubClient live_github)"
proof -
  have "client_ListPRFiles live_github owner repo number w \<noteq> None" for owner repo number w
    by (simp add: live_github_def snapshot_files)
  then show ?thesis
    by (auto simp: reads_return_def githubClient_def client_GetContent_def client_ListDir_def live_github_def
        snapshot_api_def snapshot_Get_Contents_def split: option.splits)
qed

text \<open>The calls of this deployment return, and its search has one empty page.\<close>

lemma live_calls:
  assumes "Run p live_environment a regs = Some (Inr d, regs')"
  shows "calls_return (dp_watcher d)" and "SearchPRs (ghClient (dp_watcher d)) scope since page wd \<noteq> None"
    and "search_ends (dp_watcher d)"
proof -
  from assms obtain x where x: "d = assemble live_environment x" by (rule Run_InrD)
  have w: "ghClient (dp_watcher d) = githubClient live_github" "SendCommand (dp_watcher d) = (\<lambda>cmd w. Some (None, w))"
    "ctx_Done (dp_watcher d) = (\<lambda>w. (False, w))"
    by (simp_all add: x assemble_def CreateWatcher_def NewWatcher_def NewGitHubClient_def live_environment_def
        example_environment_def CreateKafkaSender_def Let_def)
  have "GetPRDetails (githubClient live_github) owner repo number wd \<noteq> None" for owner repo number wd
    by (simp add: githubClient_def client_GetPRDetails_def live_github_def snapshot_api_def)
  with live_reads show "calls_return (dp_watcher d)" by (simp add: calls_return_def w)
  have sr: "SearchPRs (ghClient (dp_watcher d)) scope since page wd = Some (Inr \<lparr>PullRequests = [],
      HasNextPage = False, NextPage = 0, RateRemaining = 30, RateResetAt = 0\<rparr>, wd)" for scope since page wd
    unfolding w githubClient_def
    by (simp add: client_SearchPRs_def live_github_def snapshot_api_def) (simp add: example_github_def)
  then show "SearchPRs (ghClient (dp_watcher d)) scope since page wd \<noteq> None" by simp
  have "served (search_fetch (dp_watcher d) since) page wd [[]] wd" for since page wd
    by (rule last_page) (simp add: search_fetch_def sr w(3))
  then show "search_ends (dp_watcher d)" unfolding search_ends_def by blast
qed

subsection \<open>Properties of a deployment\<close>

text \<open>
  C3: Nothing a deployment does makes the controller work on anything but a candidate.
  However its polls and triggers interleave, call by call, whatever happens on GitHub in
  between and whenever it is killed, each command it ever sends rests on answers GitHub
  gave: for a pull request that the search of the configured scope found in a repository the
  allowlist admits, or that an accepted trigger names, GitHub reported details with an open
  draft and served the config file at its head commit, and each of the specs, at least one
  and all from a listing of the changed files, was read at that commit and is approved and
  not completed; the command is the one built from these details and specs.
\<close>

theorem commands_justified:
  assumes "Run p env a regs = Some (Inr d, regs')" and "running d s0 s ps"
  shows "\<exists>cmds. sh_sent s = sh_sent s0 @ cmds \<and> (\<forall>cmd \<in> set cmds. justified d cmd)"
  using running_based [OF assms] based_justified by blast

theorem commands_justified_witness:
  "\<exists>(d :: (unit, TriggerCommand, unit) deployment) s0 s ps. running d s0 s ps
    \<and> length (sh_sent s) = 2 \<and> (\<forall>cmd \<in> set (sh_sent s). justified d cmd)"
proof -
  obtain d regs' s0 s t where l:
    "Run (example_platform \<lparr>Transport = None\<rparr>) live_environment example_application (\<lambda>_. []) = Some (Inr d, regs')"
    "sh_sent s0 = []" "running d s0 s [Killed, Killed, Handling t (Tr_done None)]"
    "map cmd_TaskIdentifier (sh_sent s) = [''bborbe/widget#42@queued'', ''bborbe/widget#42@queued'']"
    by (rule live_run)
  from l(4) have "length (sh_sent s) = 2" by (metis length_map length_Cons list.size(3) numeral_2_eq_2)
  with commands_justified [OF l(1,3)] l(2,3) show ?thesis by auto
qed

text \<open>The parts of a command that is based on a pull request, with what the start-up checks give.\<close>

lemma based_command:
  assumes "Run p env a regs = Some (Inr d, regs')" and "based d cmd"
  obtains pr details where "reported (ghClient (dp_watcher d)) pr details"
    "work_of d pr details (cmd_TaskIdentifier cmd)"
    "map_get (cmd_Frontmatter cmd) ''repo'' = Some (FmString (Owner pr @ ''/'' @ Repo pr))"
    "map_get (cmd_Frontmatter cmd) ''pr_number'' = Some (FmInt (Number pr))"
    "map_get (cmd_Frontmatter cmd) ''ref'' = Some (FmString (d_HeadSHA details))"
    "map_get (cmd_Frontmatter cmd) ''branch'' = Some (FmString (d_Branch details))"
    "map_get (cmd_Frontmatter cmd) ''stage'' = Some (FmString (a_Stage a))"
    "map_get (cmd_Frontmatter cmd) ''task_identifier'' = Some (FmString (cmd_TaskIdentifier cmd))"
    "map_wf (cmd_Frontmatter cmd)"
    "has_suffix (cmd_Title cmd) (suffix_part (a_TaskSuffix a))"
    "int (length (cmd_Title cmd)) \<le> max (a_MaxTitleLen a) (int (length (suffix_part (a_TaskSuffix a))))"
    "cmd_TargetVault cmd = targetVault pr (w_cfg (dp_watcher d))"
proof -
  from assms(1) obtain x where x: "wire p a regs = Some (Inr x, regs')" "d = assemble env x" by (rule Run_InrD)
  have cfg: "cfg_Stage (w_cfg (dp_watcher d)) = a_Stage a" "cfg_TaskSuffix (w_cfg (dp_watcher d)) = a_TaskSuffix a"
    "cfg_MaxTitleLen (w_cfg (dp_watcher d)) = a_MaxTitleLen a"
    using wire_InrD(8,12,13) [OF x(1)] by (simp_all add: x(2))
  have slug: "0 \<le> cfg_MaxSlugLen (w_cfg (dp_watcher d))" using wire_slug_limit [OF x(1)] by (simp add: x(2))
  from assms(2) obtain pr details specs where b: "work_of d pr details (cmd_TaskIdentifier cmd)"
    "reported (ghClient (dp_watcher d)) pr details"
    "BuildCreateCommand pr details (cmd_TaskIdentifier cmd) (w_cfg (dp_watcher d)) specs = Some cmd"
    unfolding based_def by blast
  from BuildCreateCommand_contract [OF slug, of pr details "cmd_TaskIdentifier cmd" specs] b(3)
    BuildCreateCommand_SomeD(2) [OF b(3)] that [OF b(2,1)]
  show thesis by (simp add: cfg)
qed

definition consistent ::
  "(string \<Rightarrow> string \<Rightarrow> string) \<Rightarrow> application \<Rightarrow> ('w, 'z) GitHubClient_scheme \<Rightarrow> CreateCommand \<Rightarrow> bool"
where
  "consistent uuid a gh cmd \<longleftrightarrow> (\<exists>owner repo number details wd wd'.
     GetPRDetails gh owner repo number wd = Some (Inr details, wd')
     \<and> map_get (cmd_Frontmatter cmd) ''repo'' = Some (FmString (owner @ ''/'' @ repo))
     \<and> map_get (cmd_Frontmatter cmd) ''pr_number'' = Some (FmInt number)
     \<and> map_get (cmd_Frontmatter cmd) ''ref'' = Some (FmString (d_HeadSHA details))
     \<and> map_get (cmd_Frontmatter cmd) ''branch'' = Some (FmString (d_Branch details))
     \<and> map_get (cmd_Frontmatter cmd) ''stage'' = Some (FmString (a_Stage a))
     \<and> map_get (cmd_Frontmatter cmd) ''task_identifier'' = Some (FmString (cmd_TaskIdentifier cmd))
     \<and> ((\<exists>queued. cmd_TaskIdentifier cmd = DeriveTaskID uuid owner repo number (d_HeadSHA details) queued)
        \<or> (\<exists>nonce. cmd_TaskIdentifier cmd = DeriveTaskIDForce uuid owner repo number (d_HeadSHA details) nonce))
     \<and> map_wf (cmd_Frontmatter cmd)
     \<and> has_suffix (cmd_Title cmd) (suffix_part (a_TaskSuffix a))
     \<and> int (length (cmd_Title cmd)) \<le> max (a_MaxTitleLen a) (int (length (suffix_part (a_TaskSuffix a)))))"

lemma based_consistent:
  assumes "Run p env a regs = Some (Inr d, regs')" and "based d cmd"
  shows "consistent (e_uuid env) a (ghClient (dp_watcher d)) cmd"
  using assms
proof (rule based_command)
  fix pr details
  assume r: "reported (ghClient (dp_watcher d)) pr details" "work_of d pr details (cmd_TaskIdentifier cmd)"
    and fm: "map_get (cmd_Frontmatter cmd) ''repo'' = Some (FmString (Owner pr @ ''/'' @ Repo pr))"
    "map_get (cmd_Frontmatter cmd) ''pr_number'' = Some (FmInt (Number pr))"
    "map_get (cmd_Frontmatter cmd) ''ref'' = Some (FmString (d_HeadSHA details))"
    "map_get (cmd_Frontmatter cmd) ''branch'' = Some (FmString (d_Branch details))"
    "map_get (cmd_Frontmatter cmd) ''stage'' = Some (FmString (a_Stage a))"
    "map_get (cmd_Frontmatter cmd) ''task_identifier'' = Some (FmString (cmd_TaskIdentifier cmd))"
    "map_wf (cmd_Frontmatter cmd)" "has_suffix (cmd_Title cmd) (suffix_part (a_TaskSuffix a))"
    "int (length (cmd_Title cmd)) \<le> max (a_MaxTitleLen a) (int (length (suffix_part (a_TaskSuffix a))))"
  from assms(1) obtain x where x: "d = assemble env x" by (rule Run_InrD)
  have u: "uuid5 (dp_watcher d) = e_uuid env" by (simp add: x)
  from r(1) obtain wd wd' where
    g: "GetPRDetails (ghClient (dp_watcher d)) (Owner pr) (Repo pr) (Number pr) wd = Some (Inr details, wd')"
    by (auto simp: reported_def)
  from r(2) have "derived (dp_watcher d) pr details (cmd_TaskIdentifier cmd)
      \<or> derived_force (dp_watcher d) pr details (cmd_TaskIdentifier cmd)"
    by (auto simp: work_of_def split: if_splits)
  with g fm show ?thesis
    unfolding consistent_def derived_def derived_force_def u
    by (intro exI [of _ "Owner pr"] exI [of _ "Repo pr"] exI [of _ "Number pr"] exI [of _ details]
        exI [of _ wd] exI [of _ wd'] conjI)
qed

text \<open>
  C20: The parts of a command agree. However its polls and triggers interleave, in each
  command a deployment sends the repository, the number, the head commit and the branch in the
  frontmatter are those of one pull request, as GitHub reported it for this very repository
  and number; the task identifier, in the frontmatter and outside, is the one derived from
  them; the commit is the full one, the stage the configured one, no key is set twice; and
  the title ends with the suffix and is within the configured limit, unless the suffix alone
  is longer.
\<close>

theorem commands_consistent:
  assumes "Run p env a regs = Some (Inr d, regs')" and "running d s0 s ps"
  shows "\<exists>cmds. sh_sent s = sh_sent s0 @ cmds
    \<and> (\<forall>cmd \<in> set cmds. consistent (e_uuid env) a (ghClient (dp_watcher d)) cmd)"
  using running_based [OF assms] based_consistent [OF assms(1)] by blast

theorem commands_consistent_witness:
  "\<exists>(d :: (unit, TriggerCommand, unit) deployment) s0 s ps. running d s0 s ps \<and> length (sh_sent s) = 2
    \<and> (\<forall>cmd \<in> set (sh_sent s). consistent (e_uuid live_environment) example_application (ghClient (dp_watcher d)) cmd)"
proof -
  obtain d regs' s0 s t where l:
    "Run (example_platform \<lparr>Transport = None\<rparr>) live_environment example_application (\<lambda>_. []) = Some (Inr d, regs')"
    "sh_sent s0 = []" "running d s0 s [Killed, Killed, Handling t (Tr_done None)]"
    "map cmd_TaskIdentifier (sh_sent s) = [''bborbe/widget#42@queued'', ''bborbe/widget#42@queued'']"
    by (rule live_run)
  from l(4) have "length (sh_sent s) = 2" by (metis length_map length_Cons list.size(3) numeral_2_eq_2)
  with commands_consistent [OF l(1,3)] l(2,3) show ?thesis by auto
qed

text \<open>The vault the configuration names for a repository.\<close>

definition routed ::
  "'c platform \<Rightarrow> application \<Rightarrow> string \<Rightarrow> string"
where
  "routed p a repo =
     (case Parse (validate_globs p) (a_RepoVaultMap a) of
        Inr (Some es) \<Rightarrow>
          (case find (\<lambda>e. allow p [glob e] (''github.com/'' @ repo)) es of
             None \<Rightarrow> DefaultVault
           | Some e \<Rightarrow> vault e)
      | _ \<Rightarrow> a_TargetVault a)"

text \<open>
  C21: Routing. However its polls and triggers interleave, every command a deployment sends
  goes to the vault the configuration names for the repository in its frontmatter: that of the
  first entry of the map whose glob admits the repository, the default vault if none does, and
  without a map the single configured vault. With a map it is always a vault a controller can
  claim.
\<close>

theorem commands_routed:
  assumes "Run p env a regs = Some (Inr d, regs')" and "running d s0 s ps"
  shows "\<exists>cmds. sh_sent s = sh_sent s0 @ cmds \<and> (\<forall>cmd \<in> set cmds. \<exists>repo.
      map_get (cmd_Frontmatter cmd) ''repo'' = Some (FmString repo) \<and> cmd_TargetVault cmd = routed p a repo
      \<and> (Parse (validate_globs p) (a_RepoVaultMap a) \<noteq> Inr None \<longrightarrow> vault_slug_match (cmd_TargetVault cmd)))"
proof -
  from assms(1) obtain x where x: "wire p a regs = Some (Inr x, regs')" "d = assemble env x" by (rule Run_InrD)
  from wire_InrD(6,9) [OF x(1)] obtain res where res: "Parse (validate_globs p) (a_RepoVaultMap a) = Inr res"
    and cfg: "wr_taskCfg x = (wr_taskCfg x)\<lparr>cfg_VaultResolver := map_option (VaultFor (allow p)) res\<rparr>"
      "cfg_TargetVault (wr_taskCfg x) = a_TargetVault a"
    by (metis TaskConfig.surjective TaskConfig.update_convs(6))
  note routes = targetVault_routes [OF res, where cfg = "wr_taskCfg x" and is_allowed = "allow p", folded cfg(1),
      unfolded cfg(2)]
  have v: "targetVault pr (w_cfg (dp_watcher d)) = routed p a (Owner pr @ ''/'' @ Repo pr)
      \<and> (res \<noteq> None \<longrightarrow> vault_slug_match (targetVault pr (w_cfg (dp_watcher d))))" for pr
  proof (cases res)
    case None
    with routes [where pr = pr] show ?thesis by (simp add: x(2) routed_def res)
  next
    case (Some es)
    with routes [where pr = pr] show ?thesis
      by (cases "find (\<lambda>e. allow p [glob e] (repoKeyOf pr)) es")
         (auto simp: x(2) routed_def res repoKeyOf_def)
  qed
  have "\<exists>repo. map_get (cmd_Frontmatter cmd) ''repo'' = Some (FmString repo) \<and> cmd_TargetVault cmd = routed p a repo
      \<and> (Parse (validate_globs p) (a_RepoVaultMap a) \<noteq> Inr None \<longrightarrow> vault_slug_match (cmd_TargetVault cmd))"
    if "based d cmd" for cmd
  proof (rule based_command [OF assms(1) that])
    fix pr
    assume "map_get (cmd_Frontmatter cmd) ''repo'' = Some (FmString (Owner pr @ ''/'' @ Repo pr))"
      and "cmd_TargetVault cmd = targetVault pr (w_cfg (dp_watcher d))"
    with v [of pr] res show ?thesis by (intro exI [of _ "Owner pr @ ''/'' @ Repo pr"]) auto
  qed
  with running_based [OF assms] show ?thesis by blast
qed

theorem commands_routed_witness:
  "\<exists>(d :: (unit, TriggerCommand, unit) deployment) s0 s ps. running d s0 s ps \<and> length (sh_sent s) = 2
    \<and> (\<forall>cmd \<in> set (sh_sent s). \<exists>repo. map_get (cmd_Frontmatter cmd) ''repo'' = Some (FmString repo)
         \<and> cmd_TargetVault cmd = routed (example_platform (\<lparr>Transport = None\<rparr> :: unit http_client)) example_application repo)"
proof -
  obtain d regs' s0 s t where l:
    "Run (example_platform \<lparr>Transport = None\<rparr>) live_environment example_application (\<lambda>_. []) = Some (Inr d, regs')"
    "sh_sent s0 = []" "running d s0 s [Killed, Killed, Handling t (Tr_done None)]"
    "map cmd_TaskIdentifier (sh_sent s) = [''bborbe/widget#42@queued'', ''bborbe/widget#42@queued'']"
    by (rule live_run)
  from l(4) have "length (sh_sent s) = 2" by (metis length_map length_Cons list.size(3) numeral_2_eq_2)
  moreover have "\<exists>repo. map_get (cmd_Frontmatter cmd) ''repo'' = Some (FmString repo)
      \<and> cmd_TargetVault cmd = routed (example_platform (\<lparr>Transport = None\<rparr> :: unit http_client)) example_application repo"
    if "cmd \<in> set (sh_sent s)" for cmd
  proof -
    from commands_routed [OF l(1,3)] obtain cmds where "sh_sent s = sh_sent s0 @ cmds" and
      c: "\<forall>cmd \<in> set cmds. \<exists>repo. map_get (cmd_Frontmatter cmd) ''repo'' = Some (FmString repo)
        \<and> cmd_TargetVault cmd = routed (example_platform (\<lparr>Transport = None\<rparr> :: unit http_client)) example_application repo"
      by blast
    with that l(2) have "cmd \<in> set cmds" by simp
    with c show ?thesis by (rule bspec)
  qed
  ultimately show ?thesis using l(3) by blast
qed

text \<open>
  C6: What duplication concurrency and restarts can cause, and no more. However the polls of
  the ticker and of \<open>/check\<close> and the triggers interleave, call by call, and whatever restarts
  there are and becomes of the cursor file meanwhile, no task identifier is sent more often
  than polls and triggers were started. That duplicates occur: nothing locks the cursor, and
  two polls that both load it before either saves it send the same command twice
  (\<open>overlapping_polls_witness\<close> of \<open>Watcher_Overlap\<close>).
\<close>

theorem bounded_duplication:
  assumes "Run p env a regs = Some (Inr d, regs')" and "running d s0 s ps"
  shows "times_sent tid (view s) \<le> times_sent tid (view s0) + length ps"
  using running_times_sent [OF assms(2), of tid] by simp

theorem bounded_duplication_witness:
  "\<exists>(d :: (unit, TriggerCommand, unit) deployment) s0 s ps. running d s0 s ps \<and> length ps = 3
    \<and> times_sent ''bborbe/widget#42@queued'' (view s) = 2
    \<and> times_sent ''bborbe/widget#42@queued'' (view s)
        \<le> times_sent ''bborbe/widget#42@queued'' (view s0) + 3"
proof -
  obtain d regs' s0 s t where l:
    "Run (example_platform \<lparr>Transport = None\<rparr>) live_environment example_application (\<lambda>_. []) = Some (Inr d, regs')"
    "running d s0 s [Killed, Killed, Handling t (Tr_done None)]"
    "map cmd_TaskIdentifier (sh_sent s) = [''bborbe/widget#42@queued'', ''bborbe/widget#42@queued'']"
    by (rule live_run)
  from bounded_duplication [OF l(1,2), of "''bborbe/widget#42@queued''"] l(2,3) show ?thesis
    by (intro exI [of _ d] exI [of _ s0] exI [of _ s] exI [of _ "[Killed, Killed, Handling t (Tr_done None)]"])
       (auto simp: times_sent_def)
qed

text \<open>
  C35: Counters only go up while the process lives. From any state of a deployment that
  started with fresh counters to any later one before the next kill, however polls and
  triggers interleave in between, no cycle, publication, scan or skip count of any label goes
  down, no label disappears, and every documented label of the three vectors is exposed.
\<close>

theorem counters_grow:
  assumes "Run p env a regs = Some (Inr d, regs')" and "sh_metrics s0 = dp_metrics d"
    and "running d s0 s ps" and "living d s ps s' ps'"
  shows "(\<forall>l. count (pollCyclesTotal (sh_metrics s)) l \<le> count (pollCyclesTotal (sh_metrics s')) l
        \<and> count (publishedTotal (sh_metrics s)) l \<le> count (publishedTotal (sh_metrics s')) l
        \<and> count (filterSkippedTotal (sh_metrics s)) l \<le> count (filterSkippedTotal (sh_metrics s')) l)
    \<and> reposScannedTotal (sh_metrics s) \<le> reposScannedTotal (sh_metrics s')
    \<and> set poll_results \<union> dom (pollCyclesTotal (sh_metrics s)) \<subseteq> dom (pollCyclesTotal (sh_metrics s'))
    \<and> set published_statuses \<union> dom (publishedTotal (sh_metrics s)) \<subseteq> dom (publishedTotal (sh_metrics s'))
    \<and> set skip_reasons \<union> dom (filterSkippedTotal (sh_metrics s)) \<subseteq> dom (filterSkippedTotal (sh_metrics s'))"
proof -
  have le: "dp_metrics d \<le> sh_metrics s" by (rule running_counts [OF assms(3)]) (simp add: assms(2))
  from assms(1) obtain x where x: "wire p a regs = Some (Inr x, regs')" "d = assemble env x" by (rule Run_InrD)
  have "dp_metrics d = wr_metrics x" by (simp add: x(2) assemble_def Let_def)
  with wire_metrics [OF x(1)] le have labels: "set poll_results \<subseteq> dom (pollCyclesTotal (sh_metrics s))"
    "set published_statuses \<subseteq> dom (publishedTotal (sh_metrics s))"
    "set skip_reasons \<subseteq> dom (filterSkippedTotal (sh_metrics s))"
    by (simp_all add: metrics_le_iff counter_le_iff)
  from living_counts [OF assms(4)] have grow:
    "dom (pollCyclesTotal (sh_metrics s)) \<subseteq> dom (pollCyclesTotal (sh_metrics s'))"
    "dom (publishedTotal (sh_metrics s)) \<subseteq> dom (publishedTotal (sh_metrics s'))"
    "dom (filterSkippedTotal (sh_metrics s)) \<subseteq> dom (filterSkippedTotal (sh_metrics s'))"
    by (simp_all add: metrics_le_iff counter_le_iff)
  with living_counts [OF assms(4)] labels [THEN subset_trans] show ?thesis
    by (simp add: metrics_le_iff counter_le_iff)
qed

theorem counters_grow_witness:
  "\<exists>(d :: (unit, TriggerCommand, unit) deployment) s ps s' ps'. living d s ps s' ps' \<and> length ps' = 4
    \<and> count (publishedTotal (sh_metrics s)) ''create_queued'' \<le> count (publishedTotal (sh_metrics s')) ''create_queued''
    \<and> ''queued_marker'' \<in> dom (filterSkippedTotal (sh_metrics s'))"
proof -
  obtain d regs' s0 s t where l:
    "Run (example_platform \<lparr>Transport = None\<rparr>) live_environment example_application (\<lambda>_. []) = Some (Inr d, regs')"
    "sh_metrics s0 = dp_metrics d" "running d s0 s [Killed, Killed, Handling t (Tr_done None)]"
    by (rule live_run)
  let ?ps = "[Killed, Killed, Handling t (Tr_done None)]"
  have "process_step d 7 (Polling At_start) s \<noteq> None"
    by (auto simp: Let_def split: prod.split sum.split)
  then obtain p' s' where "process_step d 7 (Polling At_start) s = Some (p', s')" by auto
  then have st: "process_step d 7 ((?ps @ [Polling At_start]) ! 3) s = Some (p', s')"
    by (simp del: process_step.simps)
  have "living d s ?ps s' ((?ps @ [Polling At_start])[3 := p'])"
    by (rule lv_step [OF lv_poll [OF lv_begin] _ st]) simp
  then have lv: "living d s ?ps s' (?ps @ [p'])" by simp
  note claim = counters_grow [OF l(1-3) lv]
  from claim have "''queued_marker'' \<in> dom (filterSkippedTotal (sh_metrics s'))"
    unfolding skip_reasons_def by auto
  with claim lv show ?thesis
    by (intro exI [of _ d] exI [of _ s] exI [of _ ?ps] exI [of _ s'] exI [of _ "?ps @ [p']"]) simp
qed

text \<open>
  C10: No poll and no trigger of a deployment ever panics. In every state it can reach, whatever
  the cursor file holds (also after a corrupt or hand-written document) and however its polls,
  triggers and restarts interleave, the next step of each poll and of each trigger is defined:
  no map it stores into is nil and no file name is cut at a negative length. (The calls to
  GitHub and Kafka return. The start of the ticker is no such step: with an interval that is
  not positive it panics, as \<open>poll_interval_unchecked\<close> of \<open>App\<close> shows.)
\<close>

theorem steps_never_panic:
  assumes "Run q env a regs = Some (Inr d, regs')" and "calls_return (dp_watcher d)"
    and "\<And>since page wd. SearchPRs (ghClient (dp_watcher d)) (w_scope (dp_watcher d)) since page wd \<noteq> None"
    and "running d s0 s ps" and "p \<in> set ps"
  shows "process_step d now p s \<noteq> None"
proof -
  from assms(1) obtain x where x: "wire q a regs = Some (Inr x, regs')" "d = assemble env x" by (rule Run_InrD)
  have slug: "0 \<le> cfg_MaxSlugLen (w_cfg (dp_watcher d))" using wire_slug_limit [OF x(1)] by (simp add: x(2))
  show ?thesis
  proof (cases p)
    case (Polling c)
    from running_ready [OF assms(4,5)] Polling have "poll_ready c" by simp
    then have "poll_step ((dp_watcher d)\<lparr>startTime := now\<rparr>) c s \<noteq> None"
      by (rule poll_step_returns) (use assms(2,3) slug in \<open>simp_all add: calls_return_def\<close>)
    with Polling show ?thesis by auto
  next
    case (Handling t c)
    from running_inv [OF assms(4,5)] Handling obtain ex where
      ex: "ex \<in> set (c_executors (dp_consumer d))" "t = ex_captured ex" by auto
    have "trigger_step t c (view s) \<noteq> None"
      by (rule trigger_step_returns)
         (use assms(2) slug in \<open>simp_all add: calls_return_def ex(2) deployment_captured [OF assms(1) ex(1)]\<close>)
    with Handling show ?thesis by auto
  qed simp
qed

theorem steps_never_panic_witness:
  "\<exists>(d :: (unit, TriggerCommand, unit) deployment) s0 s ps. running d s0 s (ps @ [Polling At_start])
    \<and> process_step d 7 (Polling At_start) s \<noteq> None"
proof -
  obtain d regs' s0 s t where l:
    "Run (example_platform \<lparr>Transport = None\<rparr>) live_environment example_application (\<lambda>_. []) = Some (Inr d, regs')"
    "running d s0 s [Killed, Killed, Handling t (Tr_done None)]"
    by (rule live_run)
  note c = live_calls [OF l(1)]
  note rn = rn_poll [OF l(2)]
  have "Polling At_start \<in> set ([Killed, Killed, Handling t (Tr_done None)] @ [Polling At_start])" by simp
  from steps_never_panic [OF l(1) c(1,2) rn this, of 7] rn show ?thesis by blast
qed

text \<open>
  C14: Everything that was started comes to its end. From every state a deployment can reach,
  however its polls and triggers were interleaved, each poll and each trigger that is left to
  run returns after finitely many calls, whatever it was doing and whatever the cursor file
  holds: no loop of a poll or of a trigger runs forever. (The calls to GitHub and Kafka
  return, and a search reaches a last page or an error.)
\<close>

theorem every_process_ends:
  assumes "Run q env a regs = Some (Inr d, regs')" and "calls_return (dp_watcher d)"
    and "search_ends (dp_watcher d)" and "running d s0 s ps" and "p \<in> set ps"
  shows "\<exists>p' s'. runs (process_step d now) p s p' s' \<and> ended p'"
proof -
  from assms(1) obtain x where x: "wire q a regs = Some (Inr x, regs')" "d = assemble env x" by (rule Run_InrD)
  have slug: "0 \<le> cfg_MaxSlugLen (w_cfg (dp_watcher d))" using wire_slug_limit [OF x(1)] by (simp add: x(2))
  show ?thesis
  proof (cases p)
    case (Polling c)
    let ?w = "(dp_watcher d)\<lparr>startTime := now\<rparr>"
    have "search_fetch ?w = search_fetch (dp_watcher d)" by (intro ext) (simp add: search_fetch_def split: prod.split)
    then have w: "calls_return ?w" "0 \<le> cfg_MaxSlugLen (w_cfg ?w)" "search_ends ?w"
      using assms(2,3) slug by (simp_all add: calls_return_def search_ends_def)
    from running_ready [OF assms(4,5)] Polling have "poll_ready c" by simp
    from poll_ends [OF w this, of s] obtain r s' where "solo ?w c s (Ended r) s'" by (auto simp: ends_def)
    from solo_runs [OF this refl] Polling show ?thesis by fastforce
  next
    case (Handling t c)
    from running_inv [OF assms(4,5)] Handling obtain ex where
      ex: "ex \<in> set (c_executors (dp_consumer d))" "t = ex_captured ex" by auto
    have "trigger_step t c v \<noteq> None" for c v
      by (rule trigger_step_returns)
         (use assms(2) slug in \<open>simp_all add: calls_return_def ex(2) deployment_captured [OF assms(1) ex(1)]\<close>)
    from trigger_ends [OF this] Handling show ?thesis by fastforce
  next
    case Killed
    have "runs (process_step d now) Killed s Killed s" by (rule runs.runs_refl)
    with Killed show ?thesis by force
  qed
qed

theorem every_process_ends_witness:
  "\<exists>(d :: (unit, TriggerCommand, unit) deployment) s0 s ps r s'. running d s0 s (ps @ [Polling At_start])
    \<and> runs (process_step d 7) (Polling At_start) s (Polling (Ended r)) s'"
proof -
  obtain d regs' s0 s t where l:
    "Run (example_platform \<lparr>Transport = None\<rparr>) live_environment example_application (\<lambda>_. []) = Some (Inr d, regs')"
    "running d s0 s [Killed, Killed, Handling t (Tr_done None)]"
    by (rule live_run)
  note c = live_calls [OF l(1)]
  note rn = rn_poll [OF l(2)]
  have "Polling At_start \<in> set ([Killed, Killed, Handling t (Tr_done None)] @ [Polling At_start])" by simp
  from every_process_ends [OF l(1) c(1,3) rn this, of 7] obtain p' s' where
    r: "runs (process_step d 7) (Polling At_start) s p' s'" "ended p'" by blast
  have "\<exists>c. p' = Polling c" if "runs (process_step d 7) p s p' s'" "\<exists>c. p = Polling c" for p s p' s'
    using that by (induction rule: runs.induct) auto
  with r obtain e where "p' = Polling (Ended e)" by fastforce
  with r(1) rn show ?thesis by blast
qed

end
