(* ===== verification/Spec2Isabelle.thy ===== *)
theory Spec2Isabelle
  imports System_Claims
begin

text \<open>
  \<^bold>\<open>The github-dark-factory watcher: model and proofs.\<close>

  The program polls GitHub for open pull requests of one user, keeps those that carry an
  approved dark-factory spec, and publishes one create-task command per candidate over
  Kafka. A cursor file remembers what was sent. Beside the poll loop it answers trigger
  commands for single pull requests and serves a few HTTP routes. This development models
  the implementation files under \<open>src/\<close> and proves what makes them correct.

  \<^bold>\<open>Conventions.\<close> A call that touches its surroundings takes the state of these and returns
  its result with the next state in an \<open>option\<close>; \<open>None\<close> is a panic or a loop that never
  ends. Go errors are values, on the left of a sum; their messages are kept as format
  strings (\<open>Prelude\<close>). Strings are byte strings; \<open>int\<close> stands for Go's 64-bit integers where
  the values (numbers of pull requests, pages, limits, times) stay far from the bounds, and
  \<open>strconv.ParseInt\<close> has its range written out. Log calls are left out, the non-2xx line
  apart. Code that is not under \<open>src/\<close> is a parameter: go-github (\<open>gogithub\<close>), the YAML
  decoder, the UUID hash, the allowlist matcher and glob check of the maintainer module, its
  URL parser, the command framework, the Kafka senders, the two duration parsers.

  \<^bold>\<open>The library of Go.\<close> \<open>Go_Strings\<close>, \<open>Go_Utf8\<close> and \<open>Go_Text\<close> hold the functions of
  \<open>strings\<close>, \<open>utf8\<close> and \<open>strconv\<close> the program calls, with decoding and encoding of UTF-8
  proved inverse; \<open>Go_Map\<close> the maps with their nil value and the locale \<open>keyed_store\<close> of
  stores; \<open>Json\<close> the part of \<open>encoding/json\<close> behind the cursor file, with its nesting limit
  of 10000 levels; \<open>Io_Reader\<close> the readers of \<open>io\<close> under the locale \<open>io_reader\<close>;
  \<open>Pagination\<close> the locale \<open>paginated\<close> of page loops.

  \<^bold>\<open>The components\<close>, each with its source file.
  \<^item> \<open>Task_Id\<close> (\<open>pkg/taskid.go\<close>), \<open>Filename\<close> (\<open>pkg/filename.go\<close>), \<open>Repo_Filter\<close>
    (\<open>pkg/filter\<close>), \<open>Vault_Map\<close> (\<open>pkg/vaultmap\<close>) and \<open>Metrics\<close> (\<open>pkg/metrics.go\<close>): the
    parts without calls to the outside. Identifiers coincide only for the same work, slugs
    and file names meet their specification and bounds, a repository goes to the vault of
    the first matching entry.
  \<^item> \<open>Candidate\<close> (\<open>pkg/darkfactory/candidate.go\<close>) and \<open>Github_Client\<close>
    (\<open>pkg/githubclient.go\<close>): the evaluator over the interface \<open>ContentReader\<close> and the client
    that implements it. For any reader, every verdict and every error is characterised by
    relations over the reads (\<open>specs_read\<close>, \<open>specs_fail\<close>, \<open>prompts_read\<close>), which are independent
    of the loops; for a pull request that does not change, the outcome through the real
    client, errors included, is that of the function \<open>candidate_spec\<close> of its files.
  \<^item> \<open>Cursor\<close> (\<open>pkg/cursor.go\<close>): loading and saving over a file system with failing reads,
    torn writes and failing renames. The file is durable and atomic over any series of saves.
    \<open>Cursor_Race\<close> takes \<open>SaveCursor\<close> apart into its steps over inodes: a save that runs alone
    is \<open>SaveCursor\<close> and atomic at every step, two at a time can leave a corrupt file.
  \<^item> \<open>Task_Command\<close> and \<open>Watcher\<close> (\<open>pkg/watcher.go\<close>): the command built for a pull request,
    and \<open>Poll\<close> with everything it calls. \<open>Watcher_Steps\<close>, \<open>Watcher_Batch\<close> and \<open>Watcher_Poll\<close>
    relate a pull request, a batch and a poll to an abstract machine that only knows sets of
    identifiers and markers; \<open>Watcher_Claims\<close> holds what one poll guarantees and how it
    ends when it cannot complete, \<open>Watcher_Run\<close> what holds over any number of polls: queued
    phases, consecutive polls, the watermark; \<open>Watcher_Overlap\<close> says what is left of it when
    several polls run at the same time, as the ticker's and those of \<open>/check\<close> can.
  \<^item> \<open>Evaluate_Machine\<close>, \<open>Pr_Machine\<close> and \<open>Trigger_Machine\<close> take the evaluator, the handling of
    a pull request and that of a trigger apart into programs with a control state, which stop
    before each call to GitHub or Kafka; \<open>Poll_Machine\<close> does this for \<open>Poll\<close>, which stops also
    before each page and each step of a save. Run alone each of them computes the function
    it was taken from: the locale \<open>step_machine\<close> of \<open>Stepping\<close>, and a proof of its own for
    \<open>Poll\<close>, whose search may not end. \<open>Poll_Crash\<close> kills and restarts the process at any of
    these points: the cursor file is that of the last save put in place.
  \<^item> \<open>Trigger\<close> (\<open>pkg/command\<close>): validation and execution of a trigger command, with every
    exit path, and what becomes of a command that is delivered again.
  \<^item> \<open>Mem_DB\<close> (\<open>pkg/memdb.go\<close>): the in-memory store of the command consumer, its buckets in
    a heap, with an invariant of all reachable states; it is a \<open>keyed_store\<close>.
  \<^item> \<open>Non2xx_Log\<close> (\<open>pkg/non2xx_log.go\<close>): the logging transport, which hands on the body it
    peeked at unchanged, and the bounds of what it logs.
  \<^item> \<open>App\<close> (\<open>main.go\<close>) and \<open>Deployment\<close> (\<open>main.go\<close>, \<open>pkg/factory\<close> and the constructors):
    validation, wiring, the poll loop, and the assembly of a deployment. With a positive
    interval the poll loop and the executor of a deployment that starts are defined for all
    inputs; the checks let other intervals pass, on which the ticker panics.
  \<^item> \<open>Poll_System\<close> puts a deployment together: any number of polls and triggers, interleaved
    call by call, restarts, and changes of GitHub and of the files by other hands.
    \<open>System_Claims\<close> says what holds however they interleave: every command sent rests on
    answers GitHub gave for a pull request that was searched for or asked for, its parts agree
    with these answers and its vault with the configuration, no identifier is sent more often
    than polls and triggers were started, no step of a poll or a trigger panics, everything
    that was started can come to its end, and between kills counters, ordered by an instance
    of the class \<open>order\<close> in \<open>Metrics\<close>, only go up.

  \<^bold>\<open>Termination and bounds.\<close> The loops over lists recurse on them. The page loops and the
  read loop may not end, so they are partial functions with value \<open>None\<close> then, and that they
  return is proved from the pagination reaching a last page or an error, and from readers
  that make progress. The JSON parser recurses on a nesting budget of 10000, the limit of
  the Go decoder, and its item loops on the length of the input, which is shown to suffice.
  The machines of a pull request and of a trigger come closer to their end with each step, in
  the lexicographic order of their stages and of the files an evaluation has left to read.

  \<^bold>\<open>Not modelled.\<close> The generated mocks; the text of log messages and the log sink; how the
  router, the run group, the command consumer and \<open>service.Main\<close> of the libraries call the
  functions handed to them, so that a run of \<open>Poll_System\<close> starts polls and triggers at any
  time; the bodies of library functions; closing the response body behind the log line
  (\<open>peekedBody.Close\<close>); the sharing of byte slices between a caller and the in-memory store;
  the wrap-around of lengths and limits in \<open>pkg/filename.go\<close>, which validated limits never reach. The counters are those of a process: what Prometheus
  does with them is not part of the program.
\<close>

end
